(* ===== verification/Prelude.thy ===== *)
theory Prelude
  imports Main "HOL-Library.Word"
begin

unbundle bit_operations_syntax

text \<open>
  Shared vocabulary of the development: the machine types of the Go program, the big-endian
  codecs of \<open>encoding/binary\<close> the program uses, Go slicing, and the list and word lemmas the
  component theories rely on.  \<open>store_simps\<close> collects the unfolding equations of small operations,
  \<open>codec_simps\<close> the length and round-trip facts of the byte codecs.
\<close>

named_theorems store_simps
named_theorems codec_simps

section \<open>Machine types\<close>

type_synonym u8 = "8 word"
type_synonym u16 = "16 word"
type_synonym u32 = "32 word"
type_synonym u64 = "64 word"
type_synonym bytes = "u8 list"

text \<open>A Go computation that may panic at run time: \<open>None\<close> is the panic.\<close>

type_synonym 'a go = "'a option"

section \<open>Byte strings of the source\<close>

definition bytes_of_string :: "string \<Rightarrow> bytes" where
  "bytes_of_string s = map (\<lambda>c. of_nat (of_char c)) s"

lemma length_bytes_of_string [simp]: "length (bytes_of_string s) = length s"
  by (simp add: bytes_of_string_def)

section \<open>Big-endian codecs\<close>

text \<open>\<open>binary.BigEndian.PutUint16/32/64\<close> as the bytes they store, and the readers.\<close>

definition putU16 :: "u16 \<Rightarrow> bytes" where
  "putU16 w = [ucast (drop_bit 8 w), ucast w]"

definition putU32 :: "u32 \<Rightarrow> bytes" where
  "putU32 w = [ucast (drop_bit 24 w), ucast (drop_bit 16 w), ucast (drop_bit 8 w), ucast w]"

definition putU64 :: "u64 \<Rightarrow> bytes" where
  "putU64 w = [ucast (drop_bit 56 w), ucast (drop_bit 48 w), ucast (drop_bit 40 w),
     ucast (drop_bit 32 w), ucast (drop_bit 24 w), ucast (drop_bit 16 w), ucast (drop_bit 8 w),
     ucast w]"

definition be_word :: "bytes \<Rightarrow> 'a::len word" where
  "be_word bs = foldl (\<lambda>acc b. push_bit 8 acc OR ucast b) 0 bs"

text \<open>Readers at an offset; they panic in Go when fewer bytes are left, so every use is guarded.\<close>

definition getU16 :: "bytes \<Rightarrow> nat \<Rightarrow> u16" where
  "getU16 bs i = be_word (take 2 (drop i bs))"

definition getU32 :: "bytes \<Rightarrow> nat \<Rightarrow> u32" where
  "getU32 bs i = be_word (take 4 (drop i bs))"

definition getU64 :: "bytes \<Rightarrow> nat \<Rightarrow> u64" where
  "getU64 bs i = be_word (take 8 (drop i bs))"

lemma length_put [simp, codec_simps]:
  "length (putU16 a) = 2" "length (putU32 b) = 4" "length (putU64 c) = 8"
  by (simp_all add: putU16_def putU32_def putU64_def)

lemma bit_be_word_snoc:
  "bit (be_word (bs @ [b]) :: 'a::len word) n \<longleftrightarrow>
     n < LENGTH('a) \<and> (if n < 8 then bit b n else bit (be_word bs :: 'a word) (n - 8))"
  by (auto simp: be_word_def bit_simps dest: bit_imp_le_length)

lemma bit_be_word_Nil: "\<not> bit (be_word [] :: 'a::len word) n"
  by (simp add: be_word_def)

lemma putU_snoc:
  "putU16 a = [] @ [ucast (drop_bit 8 a)] @ [ucast a]"
  "putU32 b = [] @ [ucast (drop_bit 24 b)] @ [ucast (drop_bit 16 b)] @ [ucast (drop_bit 8 b)] @ [ucast b]"
  "putU64 c = [] @ [ucast (drop_bit 56 c)] @ [ucast (drop_bit 48 c)] @ [ucast (drop_bit 40 c)]
     @ [ucast (drop_bit 32 c)] @ [ucast (drop_bit 24 c)] @ [ucast (drop_bit 16 c)]
     @ [ucast (drop_bit 8 c)] @ [ucast c]"
  by (simp_all add: putU16_def putU32_def putU64_def)

lemma nat_diff_less: "0 < c \<Longrightarrow> n - k < c \<longleftrightarrow> n < k + (c :: nat)"
  by arith

lemma be_word_put [simp]:
  "be_word (putU16 a) = a" "be_word (putU32 b) = b" "be_word (putU64 c) = c"
proof -
  note snoc = append_assoc [symmetric] bit_be_word_snoc bit_be_word_Nil bit_simps nat_diff_less
  show "be_word (putU16 a) = a"
    by (rule bit_word_eqI) (simp add: putU_snoc(1) snoc del: append_assoc append.simps)
  show "be_word (putU32 b) = b"
    by (rule bit_word_eqI) (simp add: putU_snoc(2) snoc del: append_assoc append.simps)
  show "be_word (putU64 c) = c"
    by (rule bit_word_eqI) (simp add: putU_snoc(3) snoc del: append_assoc append.simps)
qed

lemma getU16_put [codec_simps]: "length pre = i \<Longrightarrow> getU16 (pre @ putU16 w @ suf) i = w"
  by (simp add: getU16_def)

lemma getU32_put [codec_simps]: "length pre = i \<Longrightarrow> getU32 (pre @ putU32 w @ suf) i = w"
  by (simp add: getU32_def)

lemma getU64_put [codec_simps]: "length pre = i \<Longrightarrow> getU64 (pre @ putU64 w @ suf) i = w"
  by (simp add: getU64_def)

lemma putU32_inject [simp]: "putU32 a = putU32 b \<longleftrightarrow> a = b"
  using be_word_put(2) by metis

lemma putU64_inject [simp]: "putU64 a = putU64 b \<longleftrightarrow> a = b"
  using be_word_put(3) by metis

lemma get_append_skip [codec_simps]:
  "length pre \<le> i \<Longrightarrow> getU32 (pre @ xs) i = getU32 xs (i - length pre)"
  "length pre \<le> i \<Longrightarrow> getU64 (pre @ xs) i = getU64 xs (i - length pre)"
  by (simp_all add: getU32_def getU64_def)

lemma get_put_head [codec_simps]:
  "getU32 (putU32 a @ xs) 0 = a" "getU64 (putU64 b @ xs) 0 = b"
  by (simp_all add: getU32_def getU64_def)

section \<open>Overwriting part of a buffer\<close>

text \<open>\<open>copy(buf[i:], src)\<close> where \<open>src\<close> fits: the bytes at \<open>i\<close> are replaced.\<close>

definition put_at :: "bytes \<Rightarrow> nat \<Rightarrow> bytes \<Rightarrow> bytes" where
  "put_at buf i src = take i buf @ src @ drop (i + length src) buf"

lemma length_put_at [simp]:
  "i + length src \<le> length buf \<Longrightarrow> length (put_at buf i src) = length buf"
  by (simp add: put_at_def)

lemma put_at_append: "put_at buf (length buf) src = buf @ src"
  by (simp add: put_at_def)

lemma take_put_at: "i \<le> length buf \<Longrightarrow> take i (put_at buf i src) = take i buf"
  by (simp add: put_at_def)

section \<open>Fixed-size chunks\<close>

text \<open>All complete \<open>n\<close>-byte records of a byte string, in order; trailing bytes are dropped.\<close>

function chunks :: "nat \<Rightarrow> 'a list \<Rightarrow> 'a list list" where
  "chunks n xs = (if n = 0 \<or> length xs < n then [] else take n xs # chunks n (drop n xs))"
  by pat_completeness auto
termination
  by (relation "measure (\<lambda>(n, xs). length xs)") auto

declare chunks.simps [simp del]

lemma chunks_short [simp]: "length xs < n \<Longrightarrow> chunks n xs = []"
  by (simp add: chunks.simps)

lemma chunks_append [simp]:
  "length x = n \<Longrightarrow> 0 < n \<Longrightarrow> chunks n (x @ xs) = x # chunks n xs"
  by (subst chunks.simps) auto

lemma chunks_concat:
  "\<lbrakk>0 < n; \<forall>x \<in> set xss. length x = n; length r < n\<rbrakk> \<Longrightarrow> chunks n (concat xss @ r) = xss"
  by (induction xss) auto

lemma chunks_concat_append:
  "\<lbrakk>0 < n; \<forall>x \<in> set xss. length x = n\<rbrakk> \<Longrightarrow> chunks n (concat xss @ r) = xss @ chunks n r"
  by (induction xss) auto

lemma length_chunks_elem: "x \<in> set (chunks n xs) \<Longrightarrow> length x = n"
proof (induction n xs rule: chunks.induct)
  case (1 n xs)
  then show ?case
    by (subst (asm) (2) chunks.simps) (auto split: if_splits)
qed

lemma chunks_drop_prefix:
  assumes "0 < n" "n * k \<le> length xs"
  shows "chunks n xs = chunks n (take (n * k) xs) @ chunks n (drop (n * k) xs)"
  using assms(2)
proof (induction k arbitrary: xs)
  case 0
  with assms(1) show ?case by simp
next
  case (Suc k)
  then have le: "n \<le> length xs" "n * k \<le> length (drop n xs)" by auto
  have head: "take (n * Suc k) xs = take n xs @ take (n * k) (drop n xs)"
    by (simp add: take_add)
  have "chunks n xs = take n xs # chunks n (drop n xs)"
    using le(1) assms(1) by (subst chunks.simps) auto
  then show ?case
    using Suc.IH [OF le(2)] le(1) assms(1) unfolding head by (simp add: add.commute)
qed

lemma chunks_take_whole:
  assumes "0 < n"
  shows "chunks n (take (length xs div n * n) xs) = chunks n xs"
proof -
  have "length (drop (n * (length xs div n)) xs) < n"
    using assms by (simp add: minus_mult_div_eq_mod)
  then show ?thesis
    using chunks_drop_prefix [of n "length xs div n" xs] assms by (simp add: mult.commute)
qed

text \<open>Reading whole records from a prefix and carrying its remainder over reads them all.\<close>

lemma chunks_carry:
  assumes "0 < n" "length xs div n * n \<le> length xs + length ys"
  shows "chunks n (xs @ ys) = chunks n xs @ chunks n (drop (length xs div n * n) xs @ ys)"
proof -
  have le: "length xs div n * n \<le> length xs" by simp
  then show ?thesis
    using chunks_drop_prefix [of n "length xs div n" "xs @ ys"] assms chunks_take_whole [of n xs]
    by (simp add: mult.commute)
qed

lemma chunks_replicate: "0 < n \<Longrightarrow> x \<in> set (chunks n (replicate m a)) \<Longrightarrow> x = replicate n a"
proof (induction m rule: less_induct)
  case (less m)
  then show ?case
    using less.IH [of "m - n"]
    by (cases "m < n") (auto simp: chunks.simps [of n "replicate m a"] min_def)
qed

lemma length_concat_const: "\<forall>x \<in> set xss. length x = n \<Longrightarrow> length (concat xss) = n * length xss"
  by (induction xss) auto

section \<open>Options and words\<close>

lemma bind_eq_SomeE:
  assumes "Option.bind x f = Some y"
  obtains z where "x = Some z" "f z = Some y"
  using assms by (cases x) auto

lemma unat_inject [simp]: "unat (a :: 'a::len word) = unat b \<longleftrightarrow> a = b"
  by (auto intro: unsigned_word_eqI)

lemma mod_minus_mult: "k * m \<le> n \<Longrightarrow> (n - k * m) mod m = n mod (m :: nat)"
  using mod_mult_self1 [of "n - k * m" k m] by simp

lemma unat_of_nat_small32: "n < 2 ^ 32 \<Longrightarrow> unat (of_nat n :: u32) = n"
  by (simp add: unat_of_nat take_bit_eq_mod)

lemma unat_add_small32:
  "unat (a :: u32) + unat b < 2 ^ 32 \<Longrightarrow> unat (a + b) = unat a + unat b"
  by (simp add: unat_word_ariths)

end
