(* ===== verification/Package.thy ===== *)
theory Package
  imports Prelude
begin

unbundle bit_operations_syntax

text \<open>
  The shared declarations of \<open>src/package.go\<close>: the utility bits kept in the low byte of every
  64-bit timestamp, the bounds of usable timestamps, the error values and the predicates on them,
  and the notifications of the background tasks.  A Go \<open>error\<close> is a \<open>go_error option\<close> with
  \<open>None\<close> for \<open>nil\<close>; an \<open>int64\<close> is a 64-bit word read with \<open>sint\<close>.
\<close>

section \<open>Timestamp bits\<close>

type_synonym i64 = "64 word"

definition TSB_UTIL_BITS :: nat where "TSB_UTIL_BITS = 8"
definition TSB_INACTIVE :: u64 where "TSB_INACTIVE = 0xfe"
definition TSB_DELETION :: u64 where "TSB_DELETION = 0x80"
definition TSB_COMPACTION_REWRITE :: u64 where "TSB_COMPACTION_REWRITE = 0x01"
definition TSB_LOCAL_REMOVAL :: u64 where "TSB_LOCAL_REMOVAL = 0x02"

definition TIMESTAMPMICRO_MIN :: i64 where
  "TIMESTAMPMICRO_MIN = push_bit TSB_UTIL_BITS 1"

definition TIMESTAMPMICRO_MAX :: i64 where
  "TIMESTAMPMICRO_MAX = drop_bit TSB_UTIL_BITS (- 1)"

lemmas tsb_defs = TSB_UTIL_BITS_def TSB_INACTIVE_def TSB_DELETION_def
  TSB_COMPACTION_REWRITE_def TSB_LOCAL_REMOVAL_def

section \<open>Errors\<close>

text \<open>The error values the store can return; \<open>ErrOther\<close> carries the text of the remaining ones.\<close>

datatype go_error =
    ErrNotFound
  | ErrDisabled
  | ErrTimestampLow i64
  | ErrTimestampHigh i64
  | ErrValueLength nat u32
  | ErrEOF
  | ErrUnexpectedEOF
  | ErrChecksumInterval u32
  | ErrChecksums nat
  | ErrOther string

definition IsNotFound :: "go_error option \<Rightarrow> bool" where
  "IsNotFound err = (case err of None \<Rightarrow> False | Some e \<Rightarrow> e = ErrNotFound)"

definition IsDisabled :: "go_error option \<Rightarrow> bool" where
  "IsDisabled err = (case err of None \<Rightarrow> False | Some e \<Rightarrow> e = ErrDisabled)"

lemma IsNotFound_simps [simp]:
  "\<not> IsNotFound None" "IsNotFound (Some e) \<longleftrightarrow> e = ErrNotFound"
  "\<not> IsDisabled None" "IsDisabled (Some e) \<longleftrightarrow> e = ErrDisabled"
  by (simp_all add: IsNotFound_def IsDisabled_def)

section \<open>Numbers in names and settings\<close>

definition digit_of :: "char \<Rightarrow> int option" where
  "digit_of c = (let n = of_char c :: int in if 48 \<le> n \<and> n \<le> 57 then Some (n - 48) else None)"

fun digits_value :: "int \<Rightarrow> string \<Rightarrow> int option" where
  "digits_value acc [] = Some acc"
| "digits_value acc (c # cs) = (case digit_of c of None \<Rightarrow> None | Some d \<Rightarrow> digits_value (10 * acc + d) cs)"

text \<open>\<open>strconv.ParseInt\<close> with base 10 and 64 bits; \<open>None\<close> is an error.\<close>

definition ParseInt :: "string \<Rightarrow> i64 option" where
  "ParseInt s =
     (let neg = (s \<noteq> [] \<and> hd s = CHR ''-''); signed = (s \<noteq> [] \<and> (hd s = CHR ''-'' \<or> hd s = CHR ''+''));
          ds = (if signed then tl s else s)
      in if ds = [] then None
         else case digits_value 0 ds of
           None \<Rightarrow> None
         | Some n \<Rightarrow>
             if neg then if n \<le> 2 ^ 63 then Some (of_int (- n)) else None
             else if n < 2 ^ 63 then Some (of_int n) else None)"

section \<open>Background notifications\<close>

datatype bgNotificationAction = BG_PASS | BG_DISABLE

text \<open>A notification with the channel (a number) its receiver signals when it is handled.\<close>

record bgNotification =
  bg_action :: bgNotificationAction
  bg_doneChan :: nat

section \<open>Properties of the timestamp encoding\<close>

lemma usable_unat:
  fixes t :: i64
  assumes "sint TIMESTAMPMICRO_MIN \<le> sint t" and "sint t \<le> sint TIMESTAMPMICRO_MAX"
  shows "unat t < 2 ^ 56" and "256 \<le> unat t"
proof -
  have s: "256 \<le> sint t" "sint t < 2 ^ 56"
    using assms
    by (simp_all add: TIMESTAMPMICRO_MIN_def TIMESTAMPMICRO_MAX_def TSB_UTIL_BITS_def mask_eq_exp_minus_1)
  have "sint t = uint t"
  proof -
    have "take_bit LENGTH(64) (sint t) = sint t"
      using s by (simp add: take_bit_int_eq_self)
    moreover have "take_bit LENGTH(64) (sint t) = uint t"
      by (simp add: take_bit_eq_mod uint_sint)
    ultimately show ?thesis by simp
  qed
  then have "int (unat t) = sint t" by simp
  with s have "int (unat t) < 72057594037927936" "256 \<le> int (unat t)"
    by simp_all
  then have "unat t < 72057594037927936" "256 \<le> unat t"
    by linarith+
  then show "unat t < 2 ^ 56" "256 \<le> unat t"
    by simp_all
qed

lemma unat_shift8:
  assumes "unat (t :: u64) < 2 ^ 56"
  shows "unat (push_bit 8 t) = 256 * unat t"
  using assms by (simp add: push_bit_eq_mult unat_word_ariths)

lemma and_shift8_small:
  assumes "unat f < 256"
  shows "push_bit 8 (t :: u64) AND f = 0"
proof (rule bit_word_eqI)
  fix n assume n: "n < LENGTH(64)"
  have "f = take_bit 8 f"
    using assms by (simp add: word_unat_eq_iff unsigned_take_bit_eq take_bit_nat_eq_self)
  then have "bit f n \<Longrightarrow> n < 8" by (metis bit_take_bit_iff)
  then show "bit (push_bit 8 t AND f) n = bit (0 :: u64) n"
    by (auto simp: bit_simps)
qed

lemma unat_shift8_or:
  assumes "unat (t :: u64) < 2 ^ 56" and "unat f < 256"
  shows "unat (push_bit 8 t OR f) = 256 * unat t + unat f"
proof -
  have "push_bit 8 t OR f = push_bit 8 t + f"
    using and_shift8_small [OF assms(2)] by (simp add: disjunctive_add_eq_or)
  then show ?thesis
    using assms by (simp add: unat_word_ariths unat_shift8 push_bit_eq_mult)
qed

end
