(* ===== verification/Layout.thy ===== *)
theory Layout
  imports Package
begin

unbundle bit_operations_syntax

text \<open>
  The repository generates two stores from one set of templates, the \<open>.got\<close> files: the value store
  (\<open>value*_GEN_.go\<close>), whose keys are \<open>keyA\<close> and \<open>keyB\<close>, and the group store (\<open>group*_GEN_.go\<close>),
  whose keys also have \<open>childKeyA\<close> and \<open>childKeyB\<close>.  What the templates leave open is the name of
  the store, which the data type \<open>template\<close> stands for, and the key, described by a record \<open>layout\<close>:
  how it is written and read.  The model is over a layout, as the templates are over \<open>.t\<close>;
  \<open>value_layout\<close> and \<open>group_layout\<close> are the two that are generated.
  A key is \<open>keyA\<close>, by which keys are ordered, partitioned and given to workers, and the rest of it, of
  type \<open>'b\<close>: \<open>keyB\<close> in a value store, \<open>(keyB, childKeyA, childKeyB)\<close> in a group store.
\<close>

datatype template = ValueStore | GroupStore

fun tp_t :: "template \<Rightarrow> string" where
  "tp_t ValueStore = ''value''"
| "tp_t GroupStore = ''group''"

fun tp_TT :: "template \<Rightarrow> string" where
  "tp_TT ValueStore = ''VALUE''"
| "tp_TT GroupStore = ''GROUP''"

text \<open>The words at the start of a value file and of a TOC file.\<close>

definition file_magic :: "template \<Rightarrow> bytes" where
  "file_magic T = bytes_of_string (tp_TT T @ ''STORE v0               '')"

definition file_magic_toc :: "template \<Rightarrow> bytes" where
  "file_magic_toc T = bytes_of_string (tp_TT T @ ''STORETOC v0            '')"

lemma length_magics [simp]: "length (file_magic T) = 28" "length (file_magic_toc T) = 28"
  by (cases T; simp add: file_magic_def file_magic_toc_def)+

record 'b layout =
  ly_template :: template
  ly_keys :: nat
  ly_put :: "u64 \<Rightarrow> 'b \<Rightarrow> bytes"
  ly_get :: "bytes \<Rightarrow> u64 \<times> 'b"
  ly_keyB :: "'b \<Rightarrow> u64"

text \<open>What every routine that writes and reads keys relies on.\<close>

locale key_layout =
  fixes Y :: "'b layout"
  assumes length_put [simp]: "length (ly_put Y a b) = ly_keys Y"
    and get_put [simp]: "ly_get Y (ly_put Y a b @ r) = (a, b)"
begin

lemma put_inject: "ly_put Y a b = ly_put Y a' b' \<longleftrightarrow> a = a' \<and> b = b'"
  by (metis get_put prod.inject)

end

type_synonym group_rest = "u64 \<times> u64 \<times> u64"

definition value_layout :: "u64 layout" where
  "value_layout = \<lparr>ly_template = ValueStore, ly_keys = 16, ly_put = (\<lambda>a b. putU64 a @ putU64 b), ly_get = (\<lambda>bs. (getU64 bs 0, getU64 bs 8)),
     ly_keyB = (\<lambda>b. b)\<rparr>"

definition group_layout :: "group_rest layout" where
  "group_layout = \<lparr>ly_template = GroupStore, ly_keys = 32, ly_put = (\<lambda>a (b, ca, cb). putU64 a @ putU64 b @ putU64 ca @ putU64 cb),
     ly_get = (\<lambda>bs. (getU64 bs 0, getU64 bs 8, getU64 bs 16, getU64 bs 24)),
     ly_keyB = (\<lambda>(b, ca, cb). b)\<rparr>"

interpretation value_keys: key_layout value_layout
  by unfold_locales (simp_all add: value_layout_def getU64_def)

interpretation group_keys: key_layout group_layout
  by unfold_locales (auto simp: group_layout_def getU64_def)

lemma layouts [simp]: "key_layout value_layout" "key_layout group_layout"
  by (rule value_keys.key_layout_axioms, rule group_keys.key_layout_axioms)

lemma layout_templates [simp]:
  "ly_template value_layout = ValueStore" "ly_template group_layout = GroupStore"
  by (simp_all add: value_layout_def group_layout_def)

lemma layout_keys [simp]: "ly_keys value_layout = 16" "ly_keys group_layout = 32"
  by (simp_all add: value_layout_def group_layout_def)

end
