(* ===== verification/FileFormat.thy ===== *)
theory FileFormat
  imports Layout
begin

unbundle bit_operations_syntax

text \<open>
  The on-disk formats of \<open>src/valuestorefile_GEN_.go\<close> and the routines that read them: the file
  headers, the TOC entries, \<open>valueReadTOCEntriesBatched\<close>, \<open>valueTOCStat\<close>,
  \<open>valueChecksumVerify\<close> and \<open>valueInCorruptRange\<close>.  A file is the list of its bytes.
  \<open>murmur3.Sum32\<close> is third-party code and is the parameter \<open>sum32\<close> throughout.
\<close>

section \<open>Layout\<close>

definition FILE_HEADER_SIZE :: nat where "FILE_HEADER_SIZE = 32"
definition FILE_ENTRY_SIZE :: "'b layout \<Rightarrow> nat" where "FILE_ENTRY_SIZE Y = ly_keys Y + 16"
definition FILE_TRAILER_SIZE :: nat where "FILE_TRAILER_SIZE = 8"

lemmas size_defs [simp] = FILE_HEADER_SIZE_def FILE_TRAILER_SIZE_def

lemma entry_size [simp]:
  "FILE_ENTRY_SIZE value_layout = 32" "FILE_ENTRY_SIZE group_layout = 48"
  "0 < FILE_ENTRY_SIZE Y" "8 \<le> FILE_ENTRY_SIZE Y" "FILE_ENTRY_SIZE Y \<noteq> 0"
  by (simp_all add: FILE_ENTRY_SIZE_def)

definition term_mark :: bytes where
  "term_mark = bytes_of_string ''TERM v0 ''"

lemma length_term_mark [simp]: "length term_mark = 8"
  by (simp add: term_mark_def)

text \<open>The headers the writers emit: the file type and the checksum interval.\<close>

definition value_head :: "template \<Rightarrow> u32 \<Rightarrow> bytes" where
  "value_head T ci = file_magic T @ putU32 ci"

definition value_head_toc :: "template \<Rightarrow> u32 \<Rightarrow> bytes" where
  "value_head_toc T ci = file_magic_toc T @ putU32 ci"

lemma length_heads [simp]: "length (value_head T ci) = 32" "length (value_head_toc T ci) = 32"
  by (simp_all add: value_head_def value_head_toc_def)

text \<open>The block written at the end of every file: zeros that end in the terminator.\<close>

definition term_block :: "nat \<Rightarrow> bytes" where
  "term_block ci = replicate (ci - 8) 0 @ term_mark"

lemma length_term_block [simp]: "8 \<le> ci \<Longrightarrow> length (term_block ci) = ci"
  by (simp add: term_block_def)

text \<open>
  A checksummed file: after every \<open>ci\<close> bytes the checksum of these bytes; the last, possibly
  partial, block carries no checksum.
\<close>

function checksummed :: "(bytes \<Rightarrow> u32) \<Rightarrow> nat \<Rightarrow> bytes \<Rightarrow> bytes" where
  "checksummed sum32 ci bs =
     (if ci = 0 \<or> length bs \<le> ci then bs
      else take ci bs @ putU32 (sum32 (take ci bs)) @ checksummed sum32 ci (drop ci bs))"
  by pat_completeness auto
termination
  by (relation "measure (\<lambda>(_, _, bs). length bs)") auto

declare checksummed.simps [simp del]

section \<open>TOC entries\<close>

record 'b valueTOCEntry =
  KeyA :: u64
  KeyB :: 'b
  TimestampBits :: u64
  BlockID :: u32
  Offset :: u32
  Length :: u32

text \<open>The bytes of an entry: the key, timestampbits, offset, length.\<close>

definition putTOCEntry :: "'b layout \<Rightarrow> u64 \<Rightarrow> 'b \<Rightarrow> u64 \<Rightarrow> u32 \<Rightarrow> u32 \<Rightarrow> bytes" where
  "putTOCEntry Y keyA keyB timestampbits offset len =
     ly_put Y keyA keyB @ putU64 timestampbits @ putU32 offset @ putU32 len"

definition getTOCEntry :: "'b layout \<Rightarrow> u32 \<Rightarrow> bytes \<Rightarrow> 'b valueTOCEntry" where
  "getTOCEntry Y blockID b =
     (let (keyA, keyB) = ly_get Y b; k = ly_keys Y
      in \<lparr>KeyA = keyA, KeyB = keyB, TimestampBits = getU64 b k,
          BlockID = blockID, Offset = getU32 b (k + 8), Length = getU32 b (k + 12)\<rparr>)"

context key_layout
begin

lemma length_putTOCEntry [simp]: "length (putTOCEntry Y a b t p l) = FILE_ENTRY_SIZE Y"
  by (simp add: putTOCEntry_def FILE_ENTRY_SIZE_def)

lemma getTOCEntry_put [simp]:
  "getTOCEntry Y i (putTOCEntry Y a b t p l) =
     \<lparr>KeyA = a, KeyB = b, TimestampBits = t, BlockID = i, Offset = p, Length = l\<rparr>"
  using get_append_skip(1) [of "putU32 p" 4 "putU32 l"]
  by (simp add: getTOCEntry_def putTOCEntry_def getU64_def getU32_def)

end

section \<open>Headers\<close>

text \<open>\<open>io.ReadFull\<close> of \<open>n\<close> bytes: the bytes read and the error.\<close>

definition ReadFull :: "nat \<Rightarrow> bytes \<Rightarrow> bytes \<times> go_error option" where
  "ReadFull n bs =
     (take n bs, if n \<le> length bs then None
                 else if bs = [] then Some ErrEOF else Some ErrUnexpectedEOF)"

definition readHeader :: "template \<Rightarrow> bytes \<Rightarrow> bool \<Rightarrow> bytes \<times> u32 \<times> go_error option" where
  "readHeader T fpr toc =
     (case ReadFull FILE_HEADER_SIZE fpr of
        (buf, Some err) \<Rightarrow> (buf, 0, Some err)
      | (buf, None) \<Rightarrow>
          (let cmp = (if toc then file_magic_toc T else file_magic T)
           in if take 28 buf \<noteq> cmp
              then (buf, 0, Some (ErrOther ''unknown file type in header''))
              else let checksumInterval = getU32 buf 28
                   in if unat checksumInterval < FILE_HEADER_SIZE
                      then (buf, 0, Some (ErrChecksumInterval checksumInterval))
                      else (buf, checksumInterval, None)))"

definition readValueHeader :: "template \<Rightarrow> bytes \<Rightarrow> bytes \<times> u32 \<times> go_error option" where
  "readValueHeader T fpr = readHeader T fpr False"

definition readValueHeaderTOC :: "template \<Rightarrow> bytes \<Rightarrow> bytes \<times> u32 \<times> go_error option" where
  "readValueHeaderTOC T fpr = readHeader T fpr True"

section \<open>Reading the entries of a TOC file\<close>

text \<open>
  The working state of \<open>valueReadTOCEntriesBatched\<close>: \<open>rd_carry\<close> is \<open>buf[:rpos]\<close>, \<open>rd_batches\<close>
  the batch being filled for each worker (\<open>None\<close> for nil) and \<open>rd_sent\<close> what was sent on the
  pending channels, each batch with the index of its channel.
\<close>

record 'b toc_reader =
  rd_carry :: bytes
  rd_skipNext :: nat
  rd_checksumErrors :: nat
  rd_batches :: "'b valueTOCEntry list option list"
  rd_sent :: "(nat \<times> 'b valueTOCEntry list) list"
  rd_fromDiskCount :: nat
  rd_errs :: "go_error list"

text \<open>One complete record: offset zero is filler, any other is put in its worker's batch.\<close>

definition toc_record :: "'b layout \<Rightarrow> u32 \<Rightarrow> nat \<Rightarrow> 'b toc_reader \<Rightarrow> bytes \<Rightarrow> 'b toc_reader" where
  "toc_record Y blockID batchSize s b =
     (let e = getTOCEntry Y blockID b
      in if Offset e = 0 then s
         else let k = unat (ly_keyB Y (KeyB e)) mod length (rd_batches s);
                  batch = (case rd_batches s ! k of None \<Rightarrow> [] | Some xs \<Rightarrow> xs) @ [e];
                  s' = s\<lparr>rd_fromDiskCount := rd_fromDiskCount s + 1\<rparr>
              in if batchSize \<le> length batch
                 then s'\<lparr>rd_batches := (rd_batches s)[k := None], rd_sent := rd_sent s @ [(k, batch)]\<rparr>
                 else s'\<lparr>rd_batches := (rd_batches s)[k := Some batch]\<rparr>)"

text \<open>
  What happens to the bytes of one read (\<open>rbuf\<close> without its checksum): skip, strip the terminator
  on the last read, take the complete records, carry the rest.  Slicing past the end panics.
\<close>

definition toc_block :: "'b layout \<Rightarrow> u32 \<Rightarrow> nat \<Rightarrow> bool \<Rightarrow> bytes \<Rightarrow> 'b toc_reader \<Rightarrow> 'b toc_reader go" where
  "toc_block Y blockID batchSize again rbuf s =
     (if rd_skipNext s \<noteq> 0 \<and> length rbuf < rd_skipNext s then None
      else
        let r1 = (if rd_skipNext s \<noteq> 0 then drop (rd_skipNext s) rbuf else rd_carry s @ rbuf);
            s1 = s\<lparr>rd_skipNext := 0\<rparr>;
            ended = (FILE_TRAILER_SIZE \<le> length r1 \<and>
                     drop (length r1 - FILE_TRAILER_SIZE) r1 = term_mark);
            r2 = (if \<not> again \<and> ended then take (length r1 - FILE_TRAILER_SIZE) r1 else r1);
            s2 = (if \<not> again \<and> \<not> ended
                  then s1\<lparr>rd_errs := rd_errs s1 @ [ErrOther ''no terminator found'']\<rparr> else s1);
            s3 = foldl (toc_record Y blockID batchSize) s2 (chunks (FILE_ENTRY_SIZE Y) r2)
        in Some (s3\<lparr>rd_carry := drop (length r2 div FILE_ENTRY_SIZE Y * FILE_ENTRY_SIZE Y) r2\<rparr>))"

text \<open>
  The read loop over the rest of the file.  \<open>stop i\<close> says whether the control channel is closed and
  \<open>rderr i\<close> is the error other than end-of-file of the \<open>i\<close>-th read, if there is one.
\<close>

function toc_loop ::
  "'b layout \<Rightarrow> (bytes \<Rightarrow> u32) \<Rightarrow> (nat \<Rightarrow> bool) \<Rightarrow> (nat \<Rightarrow> go_error option) \<Rightarrow> nat \<Rightarrow> u32 \<Rightarrow> nat \<Rightarrow> nat \<Rightarrow> bytes \<Rightarrow>
   'b toc_reader \<Rightarrow> 'b toc_reader go" where
  "toc_loop Y sum32 stop rderr ci blockID batchSize i fpr s =
     (if stop i then Some s
      else case rderr i of
        Some err \<Rightarrow> Some (s\<lparr>rd_errs := rd_errs s @ [err]\<rparr>)
      | None \<Rightarrow>
        if length fpr < ci + 4 then toc_block Y blockID batchSize False fpr s
        else
          let rbuf = take ci fpr; cbuf = take 4 (drop ci fpr); rest = drop (ci + 4) fpr
          in if getU32 cbuf 0 \<noteq> sum32 rbuf
             then toc_loop Y sum32 stop rderr ci blockID batchSize (Suc i) rest
               (s\<lparr>rd_checksumErrors := rd_checksumErrors s + 1,
                  rd_skipNext := FILE_ENTRY_SIZE Y -
                    ((rd_skipNext s + (length (rd_carry s) + ci)) mod FILE_ENTRY_SIZE Y),
                  rd_carry := []\<rparr>)
             else case toc_block Y blockID batchSize True rbuf s of
                    None \<Rightarrow> None
                  | Some s' \<Rightarrow> toc_loop Y sum32 stop rderr ci blockID batchSize (Suc i) rest s')"
  by pat_completeness auto
termination
  by (relation "measure (\<lambda>(_, _, _, _, _, _, _, _, fpr, _). length fpr)") auto

declare toc_loop.simps [simp del]

text \<open>The partial batches are sent at the end, as are the checksum errors.\<close>

definition toc_finish :: "'b toc_reader \<Rightarrow> (nat \<times> 'b valueTOCEntry list) list \<times> nat \<times> go_error list" where
  "toc_finish s =
     (rd_sent s @ concat (map (\<lambda>k. case rd_batches s ! k of None \<Rightarrow> [] | Some b \<Rightarrow> [(k, b)])
                              [0..<length (rd_batches s)]),
      rd_fromDiskCount s,
      if 0 < rd_checksumErrors s then rd_errs s @ [ErrChecksums (rd_checksumErrors s)] else rd_errs s)"

definition toc_start :: "nat \<Rightarrow> 'b toc_reader" where
  "toc_start workers =
     \<lparr>rd_carry = [], rd_skipNext = FILE_HEADER_SIZE, rd_checksumErrors = 0,
      rd_batches = (replicate workers None)[0 := Some []], rd_sent = [], rd_fromDiskCount = 0,
      rd_errs = []\<rparr>"

text \<open>
  Without channels the first one is indexed all the same.  The batches have room for an entry: the
  configuration excludes a batch size of zero.
\<close>

definition valueReadTOCEntriesBatched ::
  "'b layout \<Rightarrow> (bytes \<Rightarrow> u32) \<Rightarrow> (nat \<Rightarrow> bool) \<Rightarrow> (nat \<Rightarrow> go_error option) \<Rightarrow> bytes \<Rightarrow> u32 \<Rightarrow> nat \<Rightarrow> nat \<Rightarrow>
   ((nat \<times> 'b valueTOCEntry list) list \<times> nat \<times> go_error list) go" where
  "valueReadTOCEntriesBatched Y sum32 stop rderr fpr blockID workers batchSize =
     (case readValueHeaderTOC (ly_template Y) fpr of
        (_, _, Some err) \<Rightarrow> Some ([], 0, [err])
      | (_, ci, None) \<Rightarrow>
          if workers = 0 then None
          else map_option toc_finish
            (toc_loop Y sum32 stop rderr (unat ci) blockID batchSize 0 fpr (toc_start workers)))"

section \<open>Counting entries\<close>

text \<open>\<open>int64\<close> division truncates; the sizes here are not negative.\<close>

definition valueTOCStat ::
  "'b layout \<Rightarrow> (nat + go_error) \<Rightarrow> (bytes + go_error) \<Rightarrow> int + go_error" where
  "valueTOCStat Y statter openReadSeeker =
     (case statter of Inr err \<Rightarrow> Inr err
      | Inl fsize \<Rightarrow>
        case openReadSeeker of Inr err \<Rightarrow> Inr err
        | Inl fpr \<Rightarrow>
          case readValueHeaderTOC (ly_template Y) fpr of
            (_, _, Some err) \<Rightarrow> Inr err
          | (_, ci, None) \<Rightarrow>
            let checksumsRemoved = int fsize - int (fsize div (unat ci + 4) * 4);
                headerAndTrailerRemoved = checksumsRemoved - int FILE_HEADER_SIZE - int (unat ci)
            in Inl (sgn headerAndTrailerRemoved *
                    (abs headerAndTrailerRemoved div int (FILE_ENTRY_SIZE Y))))"

section \<open>Verifying checksums\<close>

record valueCorruptRange =
  cr_start :: u32
  cr_stop :: u32

definition MaxUint32 :: u32 where "MaxUint32 = - 1"

text \<open>The loop: the block in \<open>buf\<close> is checked, then the next one is read.\<close>

function verify_loop :: "(bytes \<Rightarrow> u32) \<Rightarrow> u32 \<Rightarrow> bytes \<Rightarrow> bytes \<Rightarrow> u32 \<Rightarrow> u32 \<Rightarrow> valueCorruptRange list \<Rightarrow>
    valueCorruptRange list \<times> go_error list" where
  "verify_loop sum32 ci buf fpr start stop corruptions =
     (let c1 = (if sum32 (take (unat ci) buf) \<noteq> getU32 buf (unat ci)
                then corruptions @ [\<lparr>cr_start = start, cr_stop = stop\<rparr>] else corruptions);
          start' = stop + 1; stop' = stop + ci
      in case ReadFull (unat ci + 4) fpr of
           (_, Some err) \<Rightarrow> (c1 @ [\<lparr>cr_start = start', cr_stop = MaxUint32\<rparr>], [err])
         | (buf', None) \<Rightarrow> verify_loop sum32 ci buf' (drop (unat ci + 4) fpr) start' stop' c1)"
  by pat_completeness auto
termination
  by (relation "measure (\<lambda>(_, _, _, fpr, _). length fpr)")
    (auto simp: ReadFull_def split: if_splits)

declare verify_loop.simps [simp del]

text \<open>
  The buffer has \<open>checksumInterval+4\<close> bytes in 32-bit arithmetic; where that wraps it is shorter than
  the header and slicing it past the header panics.
\<close>

definition valueChecksumVerify ::
  "template \<Rightarrow> (bytes \<Rightarrow> u32) \<Rightarrow> bytes \<Rightarrow> (valueCorruptRange list \<times> go_error list) go" where
  "valueChecksumVerify T sum32 fpr =
     (case readValueHeader T fpr of
        (_, _, Some err) \<Rightarrow> Some ([\<lparr>cr_start = 0, cr_stop = MaxUint32\<rparr>], [err])
      | (header, ci, None) \<Rightarrow>
          if unat (ci + 4) < length header then None
          else case ReadFull (unat (ci + 4) - length header) (drop (length header) fpr) of
             (_, Some err) \<Rightarrow> Some ([\<lparr>cr_start = 0, cr_stop = MaxUint32\<rparr>], [err])
           | (body, None) \<Rightarrow>
               Some (verify_loop sum32 ci (header @ body) (drop (unat (ci + 4)) fpr) 0 (ci - 1) []))"

definition valueInCorruptRange :: "u32 \<Rightarrow> u32 \<Rightarrow> valueCorruptRange list \<Rightarrow> bool" where
  "valueInCorruptRange offset len corruptions =
     (if offset = 0 \<or> len = 0 then False
      else let end = offset + len - 1
           in list_ex (\<lambda>c. (cr_start c \<le> offset \<and> offset \<le> cr_stop c) \<or>
                          (cr_start c \<le> end \<and> end \<le> cr_stop c)) corruptions)"

section \<open>The header round trip\<close>

lemma readHeader_value [simp]:
  "32 \<le> unat ci \<Longrightarrow> readValueHeader T (value_head T ci @ rest) = (value_head T ci, ci, None)"
  by (simp add: readValueHeader_def readHeader_def ReadFull_def Let_def)
    (simp add: value_head_def getU32_def)

lemma readHeader_toc [simp]:
  "32 \<le> unat ci \<Longrightarrow> readValueHeaderTOC T (value_head_toc T ci @ rest) = (value_head_toc T ci, ci, None)"
  by (simp add: readValueHeaderTOC_def readHeader_def ReadFull_def Let_def)
    (simp add: value_head_toc_def getU32_def)

section \<open>Checksummed files\<close>

lemma checksummed_last: "length bs \<le> ci \<Longrightarrow> checksummed sum32 ci bs = bs"
  by (simp add: checksummed.simps)

lemma checksummed_block:
  "0 < ci \<Longrightarrow> ci < length bs \<Longrightarrow>
   checksummed sum32 ci bs =
     take ci bs @ putU32 (sum32 (take ci bs)) @ checksummed sum32 ci (drop ci bs)"
  by (subst checksummed.simps) simp

text \<open>The number of blocks with a checksum among \<open>n\<close> bytes.\<close>

lemma checksummed_blocks_Suc:
  fixes ci n :: nat
  assumes "0 < ci" "ci < n"
  shows "(n - Suc 0) div ci = Suc ((n - Suc ci) div ci)"
proof -
  have "n - Suc 0 = (n - Suc ci) + ci" using assms by simp
  then show ?thesis using assms by (metis div_add_self2 Suc_eq_plus1 neq0_conv)
qed

lemma length_checksummed:
  "0 < ci \<Longrightarrow> bs \<noteq> [] \<Longrightarrow>
   length (checksummed sum32 ci bs) = length bs + 4 * ((length bs - 1) div ci)"
proof (induction sum32 ci bs rule: checksummed.induct)
  case (1 sum32 ci bs)
  show ?case
  proof (cases "length bs \<le> ci")
    case True
    with "1.prems" have "(length bs - 1) div ci = 0" by (cases bs) auto
    with True show ?thesis by (simp add: checksummed_last)
  next
    case False
    with 1 show ?thesis
      by (simp add: checksummed_block checksummed_blocks_Suc)
  qed
qed

text \<open>Checking a file whose checksums are right reports only what follows the last checksum.\<close>

lemma verify_loop_good:
  assumes "0 < unat ci" "length d = unat ci"
  shows "\<exists>err. verify_loop sum32 ci (d @ putU32 (sum32 d)) (checksummed sum32 (unat ci) rest) start stop cs =
    (cs @ [\<lparr>cr_start = stop + 1 + of_nat (unat ci * ((length rest - 1) div unat ci)),
            cr_stop = MaxUint32\<rparr>], [err])"
  using assms(2)
proof (induction "length rest" arbitrary: rest d start stop rule: less_induct)
  case less
  have eq: "sum32 (take (unat ci) (d @ putU32 (sum32 d))) = getU32 (d @ putU32 (sum32 d)) (unat ci)"
    using less.prems by (simp add: getU32_def)
  show ?case
  proof (cases "length rest \<le> unat ci")
    case True
    then have "(length rest - 1) div unat ci = 0"
      using assms(1) by (cases rest) auto
    with True eq show ?thesis
      by (subst verify_loop.simps) (auto simp: checksummed_last ReadFull_def Let_def)
  next
    case False
    let ?d = "take (unat ci) rest"
    have disk: "checksummed sum32 (unat ci) rest =
        (?d @ putU32 (sum32 ?d)) @ checksummed sum32 (unat ci) (drop (unat ci) rest)"
      using False assms(1) by (simp add: checksummed_block)
    have len: "length (?d @ putU32 (sum32 ?d)) = unat ci + 4"
      using False by simp
    obtain err where IH: "verify_loop sum32 ci (?d @ putU32 (sum32 ?d))
        (checksummed sum32 (unat ci) (drop (unat ci) rest)) (stop + 1) (stop + ci) cs =
      (cs @ [\<lparr>cr_start = stop + ci + 1 + of_nat (unat ci * ((length rest - unat ci - 1) div unat ci)),
              cr_stop = MaxUint32\<rparr>], [err])"
    proof -
      have "length (drop (unat ci) rest) < length rest" "length ?d = unat ci"
        using False assms(1) by (auto simp: not_le)
      from less.hyps [OF this, of "stop + 1" "stop + ci"] that show ?thesis by auto
    qed
    have "stop + ci + 1 + of_nat (unat ci * ((length rest - unat ci - 1) div unat ci)) =
        stop + 1 + of_nat (unat ci * ((length rest - 1) div unat ci))"
      using False assms(1) by (simp add: checksummed_blocks_Suc algebra_simps)
    with IH have "verify_loop sum32 ci (?d @ putU32 (sum32 ?d))
        (checksummed sum32 (unat ci) (drop (unat ci) rest)) (stop + 1) (stop + ci) cs =
      (cs @ [\<lparr>cr_start = stop + 1 + of_nat (unat ci * ((length rest - 1) div unat ci)),
              cr_stop = MaxUint32\<rparr>], [err])"
      by simp
    then show ?thesis
      using eq len unfolding disk
      by (subst verify_loop.simps) (simp add: ReadFull_def Let_def)
  qed
qed

lemma ReadFull_append: "length xs = n \<Longrightarrow> ReadFull n (xs @ ys) = (xs, None)"
  by (simp add: ReadFull_def)

lemma valueChecksumVerify_unfold:
  assumes "32 \<le> unat ci" "32 \<le> unat (ci + 4)" "length tail = unat (ci + 4) - 32"
  shows "valueChecksumVerify T sum32 (value_head T ci @ tail @ rest) =
    Some (verify_loop sum32 ci (value_head T ci @ tail) rest 0 (ci - 1) [])"
  using assms ReadFull_append [OF assms(3), of rest]
  by (simp add: valueChecksumVerify_def)

lemma valueChecksumVerify_good:
  assumes ci: "32 \<le> unat ci" "unat ci + 4 < 2 ^ 32"
    and body: "unat ci < length (value_head T ci @ body)"
  shows "\<exists>err. valueChecksumVerify T sum32 (checksummed sum32 (unat ci) (value_head T ci @ body)) =
    Some ([\<lparr>cr_start = of_nat (unat ci * ((length (value_head T ci @ body) - 1) div unat ci)),
           cr_stop = MaxUint32\<rparr>], [err])"
proof -
  let ?S = "value_head T ci @ body"
  let ?d = "take (unat ci) ?S"
  have pos: "0 < unat ci" using ci(1) by simp
  have ci4: "unat (ci + 4) = unat ci + 4"
    using ci(2) by (simp add: unat_add_small32)
  have disk: "checksummed sum32 (unat ci) ?S =
      (?d @ putU32 (sum32 ?d)) @ checksummed sum32 (unat ci) (drop (unat ci) ?S)"
    using checksummed_block [OF pos body] by simp
  have d: "?d = value_head T ci @ take (unat ci - 32) body"
    using ci(1) by simp
  have len: "length ?d = unat ci" using body by simp
  obtain err where v: "verify_loop sum32 ci (?d @ putU32 (sum32 ?d))
      (checksummed sum32 (unat ci) (drop (unat ci) ?S)) 0 (ci - 1) [] =
    ([\<lparr>cr_start = ci - 1 + 1 + of_nat (unat ci * ((length (drop (unat ci) ?S) - 1) div unat ci)),
       cr_stop = MaxUint32\<rparr>], [err])"
    using verify_loop_good [OF pos len, of sum32 "drop (unat ci) ?S" 0 "ci - 1" "[]"] by auto
  have start: "ci - 1 + 1 + of_nat (unat ci * ((length (drop (unat ci) ?S) - 1) div unat ci)) =
      (of_nat (unat ci * ((length ?S - 1) div unat ci)) :: u32)"
  proof -
    have "length (drop (unat ci) ?S) - 1 = length ?S - Suc (unat ci)" by simp
    then show ?thesis
      using checksummed_blocks_Suc [OF pos body] by (simp only: algebra_simps) simp
  qed
  let ?tail = "take (unat ci - 32) body @ putU32 (sum32 ?d)"
  have whole: "checksummed sum32 (unat ci) ?S =
      value_head T ci @ ?tail @ checksummed sum32 (unat ci) (drop (unat ci) ?S)"
    using disk d by simp
  have "length ?tail = unat (ci + 4) - 32" using body ci(1) ci4 by simp
  then have "valueChecksumVerify T sum32 (checksummed sum32 (unat ci) ?S) =
      Some (verify_loop sum32 ci (value_head T ci @ ?tail)
        (checksummed sum32 (unat ci) (drop (unat ci) ?S)) 0 (ci - 1) [])"
    unfolding whole by (intro valueChecksumVerify_unfold) (use ci(1) ci4 in simp_all)
  moreover have "value_head T ci @ ?tail = ?d @ putU32 (sum32 ?d)"
    using d by simp
  ultimately show ?thesis
    using v start by auto
qed

lemma last_block_start:
  fixes ci n :: nat
  assumes "0 < ci" "0 < n"
  shows "n \<le> ci * ((n - 1) div ci) + ci" and "ci * ((n - 1) div ci) < n"
proof -
  have eq: "n - 1 = ci * ((n - 1) div ci) + (n - 1) mod ci" by simp
  have "(n - 1) mod ci < ci" using assms(1) by simp
  with eq show "n \<le> ci * ((n - 1) div ci) + ci" using assms(2) by linarith
  from eq show "ci * ((n - 1) div ci) < n" using assms(2) by linarith
qed

lemma not_in_corrupt_tail:
  assumes "unat off + unat len \<le> unat start" "unat off + unat len < 2 ^ 32"
  shows "\<not> valueInCorruptRange off len [\<lparr>cr_start = start, cr_stop = stop\<rparr>]"
proof (cases "off = 0 \<or> len = 0")
  case True
  then show ?thesis by (auto simp: valueInCorruptRange_def)
next
  case False
  then have pos: "0 < unat off" "0 < unat len" by (simp_all add: unat_gt_0)
  have sum: "unat (off + len) = unat off + unat len"
    using assms(2) by (rule unat_add_small32)
  then have "off + len \<noteq> 0" using pos by (metis add_gr_0 unat_0 less_irrefl)
  then have "unat (off + len - 1) = unat off + unat len - 1"
    using sum by (simp add: unat_minus_one)
  then show ?thesis
    using False pos assms(1) by (simp add: valueInCorruptRange_def Let_def word_le_nat_alt)
qed

lemma good_file_clean:
  assumes "32 \<le> unat ci" "unat ci + 4 < 2 ^ 32"
    and "32 + length body + unat ci < 2 ^ 32"
    and "unat off + unat len \<le> 32 + length body"
  shows "\<exists>cs errs. valueChecksumVerify T sum32
      (checksummed sum32 (unat ci) (value_head T ci @ body @ term_block (unat ci))) = Some (cs, errs) \<and>
    \<not> valueInCorruptRange off len cs"
proof -
  let ?N = "32 + length body + unat ci"
  let ?start = "unat ci * ((?N - 1) div unat ci)"
  have len: "length (value_head T ci @ body @ term_block (unat ci)) = ?N"
    using assms(1) by simp
  have start: "32 + length body \<le> ?start" "?start < ?N"
    using last_block_start [of "unat ci" ?N] assms(1) by auto
  obtain err where v: "valueChecksumVerify T sum32
      (checksummed sum32 (unat ci) (value_head T ci @ body @ term_block (unat ci))) =
    Some ([\<lparr>cr_start = of_nat ?start, cr_stop = MaxUint32\<rparr>], [err])"
    using valueChecksumVerify_good [OF assms(1,2), of T "body @ term_block (unat ci)" sum32]
    unfolding len using assms(1) by auto
  have "unat (of_nat ?start :: u32) = ?start"
    using start(2) assms(3) by (intro unat_of_nat_small32) simp
  then have "\<not> valueInCorruptRange off len [\<lparr>cr_start = of_nat ?start, cr_stop = MaxUint32\<rparr>]"
    using start assms(3,4) by (intro not_in_corrupt_tail) auto
  with v show ?thesis by blast
qed

text \<open>
  A value file with correct checksums, as the store writes it (header, data, terminator block),
  is never reported corrupt where it has data: \<open>valueChecksumVerify\<close> returns, and no location
  inside the header or the data is in one of the ranges it reports.
\<close>

theorem good_file_not_corrupt:
  assumes "32 \<le> unat ci" "unat ci + 4 < 2 ^ 32"
    and "32 + length body + unat ci < 2 ^ 32"
    and "unat off + unat len \<le> 32 + length body"
  shows "\<exists>cs errs. valueChecksumVerify T sum32
      (checksummed sum32 (unat ci) (value_head T ci @ body @ term_block (unat ci))) = Some (cs, errs) \<and>
    \<not> valueInCorruptRange off len cs"
  using assms by (rule good_file_clean)

theorem good_file_not_corrupt_witness:
  "\<exists>cs errs. valueChecksumVerify ValueStore (\<lambda>_. 7)
      (checksummed (\<lambda>_. 7) 40 (value_head ValueStore 40 @ [1, 2, 3] @ term_block 40)) = Some (cs, errs) \<and>
    \<not> valueInCorruptRange 33 2 cs"
  using good_file_not_corrupt [of 40 "[1, 2, 3]" 33 2 ValueStore "\<lambda>_. 7"] by simp

text \<open>
  C34. Where no checksummed block is shorter than the value, \<open>valueInCorruptRange\<close> decides exactly
  whether the value has a byte in a corrupt range.
\<close>

theorem valueInCorruptRange_exact:
  assumes "off \<noteq> 0" "len \<noteq> 0" "unat off + unat len < 2 ^ 32"
    and "\<forall>c \<in> set cs. unat (cr_start c) + unat len \<le> unat (cr_stop c) + 1"
  shows "valueInCorruptRange off len cs \<longleftrightarrow>
    (\<exists>c \<in> set cs. \<exists>i. unat off \<le> i \<and> i < unat off + unat len \<and>
       unat (cr_start c) \<le> i \<and> i \<le> unat (cr_stop c))"
proof -
  have pos: "0 < unat off" "0 < unat len" using assms(1,2) by (simp_all add: unat_gt_0)
  have sum: "unat (off + len) = unat off + unat len"
    using assms(3) by (rule unat_add_small32)
  then have "off + len \<noteq> 0" using pos by (metis add_gr_0 unat_0 less_irrefl)
  then have "unat (off + len - 1) = unat off + unat len - 1"
    using sum by (simp add: unat_minus_one)
  then have "valueInCorruptRange off len cs \<longleftrightarrow>
      (\<exists>c \<in> set cs. unat (cr_start c) \<le> unat off \<and> unat off \<le> unat (cr_stop c) \<or>
        unat (cr_start c) \<le> unat off + unat len - 1 \<and> unat off + unat len - 1 \<le> unat (cr_stop c))"
    using assms(1,2) by (simp add: valueInCorruptRange_def Let_def list_ex_iff word_le_nat_alt)
  also have "\<dots> \<longleftrightarrow> (\<exists>c \<in> set cs. \<exists>i. unat off \<le> i \<and> i < unat off + unat len \<and>
       unat (cr_start c) \<le> i \<and> i \<le> unat (cr_stop c))"
  proof (rule bex_cong [OF refl])
    fix c assume "c \<in> set cs"
    then have "unat (cr_start c) + unat len \<le> unat (cr_stop c) + 1" using assms(4) by blast
    then show "(unat (cr_start c) \<le> unat off \<and> unat off \<le> unat (cr_stop c) \<or>
        unat (cr_start c) \<le> unat off + unat len - 1 \<and> unat off + unat len - 1 \<le> unat (cr_stop c)) \<longleftrightarrow>
      (\<exists>i. unat off \<le> i \<and> i < unat off + unat len \<and> unat (cr_start c) \<le> i \<and> i \<le> unat (cr_stop c))"
      using pos by (auto intro!: exI [of _ "if unat (cr_start c) \<le> unat off then unat off else unat off + unat len - 1"])
  qed
  finally show ?thesis .
qed

theorem valueInCorruptRange_exact_witness:
  "valueInCorruptRange 100 50 [\<lparr>cr_start = 120, cr_stop = 183\<rparr>] \<longleftrightarrow>
    (\<exists>c \<in> set [\<lparr>cr_start = 120, cr_stop = 183\<rparr>]. \<exists>i. unat (100 :: u32) \<le> i \<and>
       i < unat (100 :: u32) + unat (50 :: u32) \<and> unat (cr_start c) \<le> i \<and> i \<le> unat (cr_stop c))"
  using valueInCorruptRange_exact [of 100 50 "[\<lparr>cr_start = 120, cr_stop = 183\<rparr>]"] by simp

text \<open>
  Without that condition it is incomplete: at the default checksum interval of 65532 bytes a
  200000-byte value at offset 1000 whose second block is corrupt is not reported, because only the
  first and the last byte of the value are looked at.
\<close>

theorem valueInCorruptRange_misses_inner_block:
  "\<not> valueInCorruptRange 1000 200000 [\<lparr>cr_start = 65532, cr_stop = 131063\<rparr>] \<and>
   (\<exists>i. 1000 \<le> i \<and> i < 1000 + (200000 :: nat) \<and> 65532 \<le> i \<and> i \<le> 131063)"
  by (simp add: valueInCorruptRange_def Let_def) presburger

text \<open>
  On a TOC file with \<open>m\<close> entries written in full (header, entries, terminator block), the size
  arithmetic of \<open>valueTOCStat\<close> recovers exactly \<open>m\<close>.
\<close>

theorem valueTOCStat_counts_entries:
  assumes "32 \<le> unat ci" "length entries = FILE_ENTRY_SIZE Y * m"
  shows "valueTOCStat Y
      (Inl (length (checksummed sum32 (unat ci) (value_head_toc (ly_template Y) ci @ entries @ term_block (unat ci)))))
      (Inl (checksummed sum32 (unat ci) (value_head_toc (ly_template Y) ci @ entries @ term_block (unat ci)))) =
    Inl (int m)"
proof -
  let ?S = "value_head_toc (ly_template Y) ci @ entries @ term_block (unat ci)"
  let ?c = "unat ci" and ?N = "32 + FILE_ENTRY_SIZE Y * m + unat ci"
  let ?q = "(?N - 1) div ?c"
  have len: "length ?S = ?N" using assms by simp
  have size: "length (checksummed sum32 ?c ?S) = ?N + 4 * ?q"
  proof -
    have "0 < length ?S" "0 < ?c" using assms(1) unfolding len by simp_all
    then have "0 < ?c" "?S \<noteq> []" by (simp_all only: length_greater_0_conv not_False_eq_True)
    from length_checksummed [OF this, of sum32] show ?thesis unfolding len .
  qed
  have q: "?N \<le> ?c * ?q + ?c" "?c * ?q < ?N"
    using last_block_start [of ?c ?N] assms(1) by auto
  have "(?N + 4 * ?q) div (?c + 4) = ?q"
  proof (rule div_nat_eqI)
    show "(?c + 4) * ?q \<le> ?N + 4 * ?q" using q(2) by (simp add: algebra_simps)
    show "?N + 4 * ?q < (?c + 4) * Suc ?q" using q(1) by (simp add: algebra_simps)
  qed
  moreover have "checksummed sum32 ?c ?S =
      value_head_toc (ly_template Y) ci @ drop 32 (checksummed sum32 ?c ?S)"
  proof -
    have "checksummed sum32 ?c ?S = take ?c ?S @ putU32 (sum32 (take ?c ?S)) @
        checksummed sum32 ?c (drop ?c ?S)"
      using assms(1) len by (intro checksummed_block) auto
    then show ?thesis using assms(1) by simp
  qed
  then have "readValueHeaderTOC (ly_template Y) (checksummed sum32 ?c ?S) = (value_head_toc (ly_template Y) ci, ci, None)"
    using readHeader_toc [OF assms(1)] by metis
  ultimately show ?thesis
    unfolding valueTOCStat_def by (simp add: size Let_def sgn_if)
qed

theorem valueTOCStat_counts_entries_witness:
  "valueTOCStat value_layout
      (Inl (length (checksummed (\<lambda>_. 0) 40 (value_head_toc ValueStore 40 @ putTOCEntry value_layout 1 2 512 33 4 @ term_block 40))))
      (Inl (checksummed (\<lambda>_. 0) 40 (value_head_toc ValueStore 40 @ putTOCEntry value_layout 1 2 512 33 4 @ term_block 40))) =
    Inl (int 1)"
  using valueTOCStat_counts_entries [of 40 "putTOCEntry value_layout 1 2 512 33 4" value_layout 1 "\<lambda>_. 0"] by simp

section \<open>Reading back a TOC file\<close>

text \<open>What worker \<open>k\<close> has received or is about to receive.\<close>

definition delivered :: "nat \<Rightarrow> 'b toc_reader \<Rightarrow> 'b valueTOCEntry list" where
  "delivered k s = concat (map snd (filter (\<lambda>p. fst p = k) (rd_sent s))) @
     (case rd_batches s ! k of None \<Rightarrow> [] | Some b \<Rightarrow> b)"

lemma toc_record_fields [simp]:
  "rd_errs (toc_record Y i n s b) = rd_errs s"
  "rd_checksumErrors (toc_record Y i n s b) = rd_checksumErrors s"
  "rd_skipNext (toc_record Y i n s b) = rd_skipNext s"
  "rd_carry (toc_record Y i n s b) = rd_carry s"
  "length (rd_batches (toc_record Y i n s b)) = length (rd_batches s)"
  by (simp_all add: toc_record_def Let_def)

lemma toc_records_fields [simp]:
  "rd_errs (foldl (toc_record Y i n) s bs) = rd_errs s"
  "rd_checksumErrors (foldl (toc_record Y i n) s bs) = rd_checksumErrors s"
  "rd_skipNext (foldl (toc_record Y i n) s bs) = rd_skipNext s"
  "length (rd_batches (foldl (toc_record Y i n) s bs)) = length (rd_batches s)"
  by (induction bs arbitrary: s) simp_all

lemma toc_record_carry:
  "toc_record Y i n (s\<lparr>rd_carry := c\<rparr>) b = (toc_record Y i n s b)\<lparr>rd_carry := c\<rparr>"
  by (simp add: toc_record_def Let_def)

lemma toc_records_carry:
  "foldl (toc_record Y i n) (s\<lparr>rd_carry := c\<rparr>) bs = (foldl (toc_record Y i n) s bs)\<lparr>rd_carry := c\<rparr>"
  by (induction bs arbitrary: s) (simp_all add: toc_record_carry)

text \<open>A record with a location goes to the worker of its second key, behind what that worker got.\<close>

lemma delivered_record:
  assumes "k < length (rd_batches s)"
  shows "delivered k (toc_record Y i n s b) = delivered k s @
    (if Offset (getTOCEntry Y i b) \<noteq> 0 \<and> unat (ly_keyB Y (KeyB (getTOCEntry Y i b))) mod length (rd_batches s) = k
     then [getTOCEntry Y i b] else [])"
  using assms by (auto simp: toc_record_def delivered_def Let_def nth_list_update split: option.splits)

lemma delivered_records:
  assumes "k < length (rd_batches s)"
  shows "delivered k (foldl (toc_record Y i n) s bs) = delivered k s @
    filter (\<lambda>e. unat (ly_keyB Y (KeyB e)) mod length (rd_batches s) = k)
      (filter (\<lambda>e. Offset e \<noteq> 0) (map (getTOCEntry Y i) bs))"
  using assms by (induction bs arbitrary: s) (simp_all add: delivered_record)

lemma count_records:
  "rd_fromDiskCount (foldl (toc_record Y i n) s bs) =
     rd_fromDiskCount s + length (filter (\<lambda>e. Offset e \<noteq> 0) (map (getTOCEntry Y i) bs))"
  by (induction bs arbitrary: s) (auto simp: toc_record_def Let_def)

lemma carry_upd: "rd_carry (s\<lparr>rd_carry := c\<rparr>) = c"
  by simp

lemma skip_zero: "rd_skipNext s = 0 \<Longrightarrow> s\<lparr>rd_skipNext := 0\<rparr> = s"
  by simp

lemma toc_block_last:
  assumes "rd_skipNext s = 0" "T = rd_carry s @ rbuf" "8 \<le> length T"
    and "drop (length T - 8) T = term_mark"
  shows "\<exists>c. toc_block Y i n False rbuf s =
    Some ((foldl (toc_record Y i n) s (chunks (FILE_ENTRY_SIZE Y) (take (length T - 8) T)))\<lparr>rd_carry := c\<rparr>)"
  using assms(1,3,4) unfolding toc_block_def Let_def assms(2) [symmetric]
  by (auto simp: skip_zero)

lemma toc_block_more:
  assumes "rd_skipNext s = 0" "T = rd_carry s @ rbuf"
  shows "toc_block Y i n True rbuf s =
    Some ((foldl (toc_record Y i n) s (chunks (FILE_ENTRY_SIZE Y) T))\<lparr>rd_carry := drop (length T div FILE_ENTRY_SIZE Y * FILE_ENTRY_SIZE Y) T\<rparr>)"
  using assms(1) unfolding toc_block_def Let_def assms(2) [symmetric]
  by (auto simp: skip_zero)

text \<open>
  Reading the whole records of a prefix \<open>r\<close> of \<open>T\<close> and carrying over the remainder: what is left
  ends like \<open>T\<close>, and its records are the other records of \<open>T\<close>.
\<close>

lemma carry_split:
  assumes "T = r @ R" "8 \<le> length T mod FILE_ENTRY_SIZE Y" "k = length r div FILE_ENTRY_SIZE Y * FILE_ENTRY_SIZE Y"
  shows "drop k r @ R = drop k T"
    and "length (drop k T) mod FILE_ENTRY_SIZE Y = length T mod FILE_ENTRY_SIZE Y"
    and "drop (length (drop k T) - 8) (drop k T) = drop (length T - 8) T"
    and "chunks (FILE_ENTRY_SIZE Y) (take (length T - 8) T) =
      chunks (FILE_ENTRY_SIZE Y) r @ chunks (FILE_ENTRY_SIZE Y) (take (length (drop k T) - 8) (drop k T))"
proof -
  have k: "k \<le> length r" unfolding assms(3) by (rule div_times_less_eq_dividend)
  have low: "k \<le> length T - 8"
  proof -
    have "k \<le> length T div FILE_ENTRY_SIZE Y * FILE_ENTRY_SIZE Y"
      unfolding assms(1,3) by (intro mult_le_mono1 div_le_mono) simp
    moreover have "length T = length T div FILE_ENTRY_SIZE Y * FILE_ENTRY_SIZE Y + length T mod FILE_ENTRY_SIZE Y" by simp
    ultimately show ?thesis using assms(2) by linarith
  qed
  have len: "length (drop k T) - 8 = length T - 8 - k" by simp
  show "drop k r @ R = drop k T" using k unfolding assms(1) by simp
  show "length (drop k T) mod FILE_ENTRY_SIZE Y = length T mod FILE_ENTRY_SIZE Y"
    unfolding length_drop assms(3)
    by (rule mod_minus_mult) (use le_trans [OF k, of "length T"] assms(3) in \<open>simp add: assms(1)\<close>)
  show "drop (length (drop k T) - 8) (drop k T) = drop (length T - 8) T"
    unfolding len drop_drop using le_add_diff_inverse2 [OF low] by simp
  have "take k (take (length T - 8) T) = take k r"
    using low k assms(1) by (simp add: min_def)
  moreover have "drop k (take (length T - 8) T) = take (length T - 8 - k) (drop k T)"
    by (simp add: drop_take)
  ultimately show "chunks (FILE_ENTRY_SIZE Y) (take (length T - 8) T) =
      chunks (FILE_ENTRY_SIZE Y) r @ chunks (FILE_ENTRY_SIZE Y) (take (length (drop k T) - 8) (drop k T))"
    using chunks_drop_prefix [of "FILE_ENTRY_SIZE Y" "length r div FILE_ENTRY_SIZE Y" "take (length T - 8) T"] low
      chunks_take_whole [of "FILE_ENTRY_SIZE Y" r] assms(3) unfolding len by (simp add: mult.commute)
qed

lemma toc_loop_block:
  assumes "length d = ci" "toc_block Y i n True d s = Some s'"
  shows "toc_loop Y sum32 (\<lambda>_. False) (\<lambda>_. None) ci i n j (d @ putU32 (sum32 d) @ rest) s =
    toc_loop Y sum32 (\<lambda>_. False) (\<lambda>_. None) ci i n (Suc j) rest s'"
  using assms by (subst toc_loop.simps) (simp add: getU32_def Let_def)

text \<open>
  The read loop on intact blocks: with \<open>c\<close> carried over and \<open>R\<close> still to be read, all complete
  records of \<open>c @ R\<close> before the terminator are taken, whatever the block boundaries.
\<close>

lemma toc_loop_good:
  assumes "0 < ci" "rd_skipNext s = 0" "length (rd_carry s @ R) mod FILE_ENTRY_SIZE Y \<ge> 8"
    and "drop (length (rd_carry s @ R) - 8) (rd_carry s @ R) = term_mark"
  shows "\<exists>c. toc_loop Y sum32 (\<lambda>_. False) (\<lambda>_. None) ci i n j (checksummed sum32 ci R) s =
    Some ((foldl (toc_record Y i n) s
      (chunks (FILE_ENTRY_SIZE Y) (take (length (rd_carry s @ R) - 8) (rd_carry s @ R))))\<lparr>rd_carry := c\<rparr>)"
  using assms(2-)
proof (induction "length R" arbitrary: R s j rule: less_induct)
  case less
  let ?T = "rd_carry s @ R"
  show ?case
  proof (cases "length R \<le> ci")
    case True
    have "8 \<le> length ?T" using less.prems(2) mod_less_eq_dividend order_trans by blast
    with True toc_block_last [OF less.prems(1) refl _ less.prems(3)] show ?thesis
      by (subst toc_loop.simps) (simp add: checksummed_last)
  next
    case False
    let ?d = "take ci R" and ?R = "drop ci R"
    let ?r = "rd_carry s @ ?d"
    let ?k = "length ?r div FILE_ENTRY_SIZE Y * FILE_ENTRY_SIZE Y"
    let ?s = "(foldl (toc_record Y i n) s (chunks (FILE_ENTRY_SIZE Y) ?r))\<lparr>rd_carry := drop ?k ?r\<rparr>"
    have T: "?T = ?r @ ?R" by simp
    have disk: "checksummed sum32 ci R = ?d @ putU32 (sum32 ?d) @ checksummed sum32 ci ?R"
      using False assms(1) by (simp add: checksummed_block)
    have step: "toc_loop Y sum32 (\<lambda>_. False) (\<lambda>_. None) ci i n j (checksummed sum32 ci R) s =
        toc_loop Y sum32 (\<lambda>_. False) (\<lambda>_. None) ci i n (Suc j) (checksummed sum32 ci ?R) ?s"
      unfolding disk by (rule toc_loop_block) (use False toc_block_more [OF less.prems(1) refl] in simp_all)
    note split = carry_split [OF T less.prems(2) refl]
    have T': "rd_carry ?s @ ?R = drop ?k ?T" unfolding carry_upd by (rule split(1))
    have "\<exists>c. toc_loop Y sum32 (\<lambda>_. False) (\<lambda>_. None) ci i n (Suc j) (checksummed sum32 ci ?R) ?s =
      Some ((foldl (toc_record Y i n) ?s
        (chunks (FILE_ENTRY_SIZE Y) (take (length (rd_carry ?s @ ?R) - 8) (rd_carry ?s @ ?R))))\<lparr>rd_carry := c\<rparr>)"
    proof (rule less.hyps)
      show "length ?R < length R" using False assms(1) by simp
      show "rd_skipNext ?s = 0" using less.prems(1) by simp
      show "8 \<le> length (rd_carry ?s @ ?R) mod FILE_ENTRY_SIZE Y" unfolding T' split(2) by (rule less.prems(2))
      show "drop (length (rd_carry ?s @ ?R) - 8) (rd_carry ?s @ ?R) = term_mark"
        unfolding T' split(3) by (rule less.prems(3))
    qed
    then show ?thesis
      unfolding step T' toc_records_carry split(4) foldl_append by simp
  qed
qed

text \<open>The first block: the header is skipped, then the records are read as in every block.\<close>

lemma toc_loop_first:
  assumes "32 \<le> ci" "ci < length (H @ B)" "length H = 32"
    and "length B mod FILE_ENTRY_SIZE Y \<ge> 8" "drop (length B - 8) B = term_mark" "rd_skipNext s = 32" "rd_carry s = []"
  shows "\<exists>c. toc_loop Y sum32 (\<lambda>_. False) (\<lambda>_. None) ci i n 0 (checksummed sum32 ci (H @ B)) s =
    Some ((foldl (toc_record Y i n) (s\<lparr>rd_skipNext := 0\<rparr>) (chunks (FILE_ENTRY_SIZE Y) (take (length B - 8) B)))\<lparr>rd_carry := c\<rparr>)"
proof -
  let ?d = "take (ci - 32) B" and ?R = "drop (ci - 32) B"
  let ?k = "length ?d div FILE_ENTRY_SIZE Y * FILE_ENTRY_SIZE Y"
  let ?init = "s\<lparr>rd_skipNext := 0\<rparr>"
  let ?s = "(foldl (toc_record Y i n) ?init (chunks (FILE_ENTRY_SIZE Y) ?d))\<lparr>rd_carry := drop ?k ?d\<rparr>"
  let ?D = "H @ ?d"
  have disk: "checksummed sum32 ci (H @ B) = ?D @ putU32 (sum32 ?D) @ checksummed sum32 ci ?R"
    using checksummed_block [of ci "H @ B" sum32] assms(1,2,3) by simp
  have block: "toc_block Y i n True ?D s = Some ?s"
    using assms(3,6) unfolding toc_block_def by (simp add: Let_def)
  have len: "length ?D = ci" using assms(1,2,3) by simp
  have step: "toc_loop Y sum32 (\<lambda>_. False) (\<lambda>_. None) ci i n 0 (checksummed sum32 ci (H @ B)) s =
      toc_loop Y sum32 (\<lambda>_. False) (\<lambda>_. None) ci i n (Suc 0) (checksummed sum32 ci ?R) ?s"
    unfolding disk using len block by (rule toc_loop_block)
  have B: "B = ?d @ ?R" by simp
  note split = carry_split [OF B assms(4) refl]
  have T: "rd_carry ?s @ ?R = drop ?k B" unfolding carry_upd by (rule split(1))
  obtain c where loop: "toc_loop Y sum32 (\<lambda>_. False) (\<lambda>_. None) ci i n (Suc 0) (checksummed sum32 ci ?R) ?s =
    Some ((foldl (toc_record Y i n) ?s (chunks (FILE_ENTRY_SIZE Y) (take (length (rd_carry ?s @ ?R) - 8) (rd_carry ?s @ ?R))))\<lparr>rd_carry := c\<rparr>)"
  proof -
    have "0 < ci" using assms(1) by simp
    moreover have "rd_skipNext ?s = 0" by simp
    moreover have "8 \<le> length (rd_carry ?s @ ?R) mod FILE_ENTRY_SIZE Y" unfolding T split(2) by (rule assms(4))
    moreover have "drop (length (rd_carry ?s @ ?R) - 8) (rd_carry ?s @ ?R) = term_mark"
      unfolding T split(3) by (rule assms(5))
    ultimately show ?thesis using toc_loop_good that by blast
  qed
  then show ?thesis
    unfolding step T toc_records_carry split(4) foldl_append by auto
qed

lemma delivered_finish:
  fixes s :: "'b toc_reader"
  assumes "k < length (rd_batches s)"
  shows "concat (map snd (filter (\<lambda>p. fst p = k) (fst (toc_finish s)))) = delivered k s"
proof -
  have "concat (map snd (filter (\<lambda>p. fst p = k)
      (concat (map (\<lambda>k. case b ! k of None \<Rightarrow> [] | Some x \<Rightarrow> [(k, x)]) [0..<m])))) =
    (if k < m then (case b ! k of None \<Rightarrow> [] | Some x \<Rightarrow> x) else [])" for m and b :: "'b valueTOCEntry list option list"
    by (induction m) (auto simp: less_Suc_eq split: option.splits)
  with assms show ?thesis
    by (simp add: toc_finish_def delivered_def)
qed

text \<open>An entry as it is stored: keyA, keyB, timestampbits, offset, length.\<close>

type_synonym 'b stored_entry = "u64 \<times> 'b \<times> u64 \<times> u32 \<times> u32"

definition putEntries :: "'b layout \<Rightarrow> 'b stored_entry list \<Rightarrow> bytes" where
  "putEntries Y es = concat (map (\<lambda>(a, b, t, p, l). putTOCEntry Y a b t p l) es)"

definition loadedEntry :: "u32 \<Rightarrow> 'b stored_entry \<Rightarrow> 'b valueTOCEntry" where
  "loadedEntry i e = (case e of (a, b, t, p, l) \<Rightarrow>
     \<lparr>KeyA = a, KeyB = b, TimestampBits = t, BlockID = i, Offset = p, Length = l\<rparr>)"

context key_layout
begin

lemma length_putEntries [simp]: "length (putEntries Y es) = FILE_ENTRY_SIZE Y * length es"
  by (induction es) (auto simp: putEntries_def)

lemma chunks_putEntries:
  "chunks (FILE_ENTRY_SIZE Y) (putEntries Y es @ r) = map (\<lambda>(a, b, t, p, l). putTOCEntry Y a b t p l) es @ chunks (FILE_ENTRY_SIZE Y) r"
  unfolding putEntries_def by (subst chunks_concat_append) auto

lemma getTOCEntry_zeros: "Offset (getTOCEntry Y i (replicate (FILE_ENTRY_SIZE Y) 0)) = 0"
proof -
  have "Offset (getTOCEntry Y i bs) = getU32 bs (ly_keys Y + 8)" for bs
    by (simp add: getTOCEntry_def Let_def split: prod.split)
  moreover have "take 4 (drop (n + 8) (replicate (n + 16) (0 :: u8))) = replicate 4 0" for n
    unfolding drop_replicate take_replicate by simp
  moreover have "(be_word (replicate 4 0) :: u32) = 0"
    by (simp add: be_word_def numeral_eq_Suc)
  ultimately show ?thesis
    unfolding getU32_def FILE_ENTRY_SIZE_def by metis
qed

lemma records_of_body:
  assumes "8 \<le> ci"
  shows "filter (\<lambda>e. Offset e \<noteq> 0) (map (getTOCEntry Y i)
      (chunks (FILE_ENTRY_SIZE Y) (putEntries Y es @ replicate (ci - 8) 0))) =
    filter (\<lambda>e. Offset e \<noteq> 0) (map (loadedEntry i) es)"
proof -
  have "\<forall>x \<in> set (chunks (FILE_ENTRY_SIZE Y) (replicate (ci - 8) (0 :: u8))). Offset (getTOCEntry Y i x) = 0"
    using chunks_replicate [of "FILE_ENTRY_SIZE Y" _ "ci - 8" "0 :: u8"] getTOCEntry_zeros [of i] by fastforce
  then have zeros: "filter (\<lambda>e. Offset e \<noteq> 0) (map (getTOCEntry Y i) (chunks (FILE_ENTRY_SIZE Y) (replicate (ci - 8) 0))) = []"
    by simp
  have es: "map (getTOCEntry Y i \<circ> (\<lambda>(a, b, t, p, l). putTOCEntry Y a b t p l)) es = map (loadedEntry i) es"
    by (auto simp: loadedEntry_def)
  show ?thesis
    unfolding chunks_putEntries map_append filter_append map_map es zeros by simp
qed

lemma TOC_roundtrip:
  assumes "32 \<le> unat ci" "8 \<le> unat ci mod FILE_ENTRY_SIZE Y" "0 < workers"
  shows "\<exists>sent. valueReadTOCEntriesBatched Y sum32 (\<lambda>_. False) (\<lambda>_. None)
      (checksummed sum32 (unat ci) (value_head_toc (ly_template Y) ci @ putEntries Y es @ term_block (unat ci)))
      blockID workers batchSize =
    Some (sent, length (filter (\<lambda>e. Offset e \<noteq> 0) (map (loadedEntry blockID) es)), []) \<and>
    (\<forall>k < workers. concat (map snd (filter (\<lambda>p. fst p = k) sent)) =
       filter (\<lambda>e. unat (ly_keyB Y (KeyB e)) mod workers = k)
         (filter (\<lambda>e. Offset e \<noteq> 0) (map (loadedEntry blockID) es)))"
proof -
  let ?H = "value_head_toc (ly_template Y) ci" and ?B = "putEntries Y es @ term_block (unat ci)"
  let ?init = "(toc_start workers :: 'b toc_reader)\<lparr>rd_skipNext := 0\<rparr>"
  let ?bs = "chunks (FILE_ENTRY_SIZE Y) (putEntries Y es @ replicate (unat ci - 8) 0)"
  have lenB: "length ?B = FILE_ENTRY_SIZE Y * length es + unat ci" using assms(1) by simp
  have mod: "8 \<le> length ?B mod FILE_ENTRY_SIZE Y" unfolding lenB using assms(2) by simp
  have mark: "drop (length ?B - 8) ?B = term_mark" and pre: "take (length ?B - 8) ?B =
      putEntries Y es @ replicate (unat ci - 8) 0"
    using assms(1) by (simp_all add: term_block_def)
  have disk: "checksummed sum32 (unat ci) (?H @ ?B) =
      ?H @ drop 32 (checksummed sum32 (unat ci) (?H @ ?B))"
    using checksummed_block [of "unat ci" "?H @ ?B" sum32] assms(1) lenB by simp
  have head: "readValueHeaderTOC (ly_template Y) (checksummed sum32 (unat ci) (?H @ ?B)) = (?H, ci, None)"
    by (subst disk) (rule readHeader_toc [OF assms(1)])
  obtain c where loop: "toc_loop Y sum32 (\<lambda>_. False) (\<lambda>_. None) (unat ci) blockID batchSize 0
      (checksummed sum32 (unat ci) (?H @ ?B)) (toc_start workers) =
    Some ((foldl (toc_record Y blockID batchSize) ?init ?bs)\<lparr>rd_carry := c\<rparr>)"
    using toc_loop_first [of "unat ci" ?H ?B Y "toc_start workers" sum32 blockID batchSize]
      assms(1) mod mark lenB unfolding pre by (auto simp: toc_start_def)
  let ?s = "(foldl (toc_record Y blockID batchSize) ?init ?bs)\<lparr>rd_carry := c\<rparr>"
  have batches: "length (rd_batches ?init) = workers" by (simp add: toc_start_def)
  have recs: "filter (\<lambda>e. Offset e \<noteq> 0) (map (getTOCEntry Y blockID) ?bs) =
      filter (\<lambda>e. Offset e \<noteq> 0) (map (loadedEntry blockID) es)"
    using assms(1) by (intro records_of_body) simp
  have del: "delivered k ?s = filter (\<lambda>e. unat (ly_keyB Y (KeyB e)) mod workers = k)
      (filter (\<lambda>e. Offset e \<noteq> 0) (map (loadedEntry blockID) es))" if "k < workers" for k
  proof -
    have "delivered k ?s = delivered k (foldl (toc_record Y blockID batchSize) ?init ?bs)"
      by (simp add: delivered_def)
    also have "\<dots> = delivered k ?init @ filter (\<lambda>e. unat (ly_keyB Y (KeyB e)) mod workers = k)
        (filter (\<lambda>e. Offset e \<noteq> 0) (map (getTOCEntry Y blockID) ?bs))"
      using delivered_records [of k ?init Y blockID batchSize ?bs] that batches by simp
    also have "delivered k ?init = []"
      using that by (cases "k = 0") (auto simp: delivered_def toc_start_def nth_list_update)
    finally show ?thesis unfolding recs by simp
  qed
  have fin: "concat (map snd (filter (\<lambda>p. fst p = k) (fst (toc_finish ?s)))) = delivered k ?s"
    if "k < workers" for k
    using that batches by (intro delivered_finish) simp
  have count: "snd (toc_finish ?s) =
      (length (filter (\<lambda>e. Offset e \<noteq> 0) (map (loadedEntry blockID) es)), [])"
    using count_records [of Y blockID batchSize ?init ?bs] recs by (simp add: toc_finish_def toc_start_def)
  have "valueReadTOCEntriesBatched Y sum32 (\<lambda>_. False) (\<lambda>_. None)
      (checksummed sum32 (unat ci) (?H @ ?B)) blockID workers batchSize = Some (toc_finish ?s)"
    unfolding valueReadTOCEntriesBatched_def head using assms(3) by (simp add: loop)
  then show ?thesis
    using count del fin by (metis prod.collapse)
qed

end



section \<open>Damaged TOC files\<close>

text \<open>
  A TOC file whose header is cut short, names another file type or a checksum interval below
  the header size is rejected with that one error: no entry is delivered.
\<close>

theorem valueReadTOCEntriesBatched_bad_header:
  assumes "length fpr < 32 \<or> take 28 fpr \<noteq> file_magic_toc (ly_template Y) \<or> unat (getU32 (take 32 fpr) 28) < 32"
  shows "\<exists>err. valueReadTOCEntriesBatched Y sum32 stop rderr fpr blockID workers batchSize = Some ([], 0, [err])"
proof -
  have "\<exists>b c err. readValueHeaderTOC (ly_template Y) fpr = (b, c, Some err)"
    using assms by (auto simp: readValueHeaderTOC_def readHeader_def ReadFull_def Let_def)
  then show ?thesis
    unfolding valueReadTOCEntriesBatched_def by (elim exE) simp
qed

theorem valueReadTOCEntriesBatched_bad_header_witness:
  "\<exists>err. valueReadTOCEntriesBatched value_layout (\<lambda>_. 0) (\<lambda>_. False) (\<lambda>_. None) [86, 65] 1 1 1 = Some ([], 0, [err])"
  using valueReadTOCEntriesBatched_bad_header [of "[86, 65]"] by simp



text \<open>A TOC file with a checksum interval of 44 bytes whose first two blocks fail their checksum.\<close>

definition damaged_toc :: bytes where
  "damaged_toc = value_head_toc ValueStore 44 @ replicate 12 0 @ putU32 1 @ replicate 44 0 @ putU32 1 @
     replicate 8 0 @ putTOCEntry value_layout 1 2 512 33 4 @ replicate 4 0 @ putU32 0 @
     replicate 28 0 @ putTOCEntry value_layout 3 4 768 65 4 @ replicate 16 0 @ term_mark"

text \<open>
  After two damaged blocks in a row the reader resumes off the entry grid: it skips 32 bytes of
  the third block of \<^term>\<open>damaged_toc\<close> where the next entry starts 8 bytes in, so the intact
  entry for the key (3, 4) is not delivered and misread bytes are delivered in its place.
\<close>

theorem valueReadTOCEntriesBatched_misaligned:
  "valueReadTOCEntriesBatched value_layout (\<lambda>_. 0) (\<lambda>_. False) (\<lambda>_. None) damaged_toc 7 1 10 =
     Some ([(0, [\<lparr>KeyA = 0, KeyB = 3, TimestampBits = 4, BlockID = 7, Offset = 768, Length = 65\<rparr>])],
       1, [ErrChecksums 2])"
  by code_simp

end
