(* ===== verification/StoreFile.thy ===== *)
theory StoreFile
  imports FileFormat "HOL-Library.Multiset"
begin

unbundle bit_operations_syntax

text \<open>
  The writing side of a value file, \<open>valueStoreFile\<close> of \<open>src/valuestorefile_GEN_.go\<close>: \<open>write\<close> cuts
  the values into buffers of one checksum interval, several \<open>writingChecksummer\<close> goroutines append the
  checksums in any order, \<open>writer\<close> puts the buffers on disk by sequence number and \<open>closeWriting\<close>
  appends the terminator.  The goroutines are the step relation \<open>pipe_step\<close>: one rule per channel
  operation, so every interleaving is a path of steps.  A memory block is known by the number of its
  location block.  Blocking on the channel of free buffers only delays \<open>write\<close> and is not modelled.
\<close>

section \<open>Buffers and files\<close>

text \<open>\<open>wb_data\<close> is \<open>buf[:offset]\<close>.\<close>

record writeBuf =
  wb_seq :: nat
  wb_data :: bytes
  wb_memBlocks :: "u32 list"

text \<open>
  \<open>sf_cur\<close> is \<open>writerCurrentBuf\<close>; \<open>sf_held\<close> are the buffers in the hands of the checksummers;
  \<open>sf_seq\<close>, \<open>sf_lastWasNil\<close> and \<open>sf_stopped\<close> are the locals of \<open>writer\<close>; \<open>sf_disk\<close> is what was
  written to \<open>writerFP\<close>; \<open>sf_freed\<close> what was sent on the \<open>freeableMemBlockChans\<close>, each with the
  index of its channel.
\<close>

record valueStoreFile =
  sf_id :: u32
  sf_nameTimestamp :: i64
  sf_interval :: u32
  sf_writerOffset :: u32
  sf_cur :: "writeBuf option"
  sf_checksumChan :: "writeBuf list"
  sf_held :: "writeBuf list"
  sf_toDisk :: "writeBuf option list"
  sf_seq :: nat
  sf_lastWasNil :: bool
  sf_stopped :: bool
  sf_disk :: bytes
  sf_index :: nat
  sf_freed :: "(nat \<times> u32) list"

text \<open>The file as \<open>createValueReadWriteFile\<close> leaves it: the header is in the first buffer.\<close>

definition writer_start :: "template \<Rightarrow> u32 \<Rightarrow> u32 \<Rightarrow> i64 \<Rightarrow> valueStoreFile" where
  "writer_start T checksumInterval blockID nameTimestamp =
     \<lparr>sf_id = blockID, sf_nameTimestamp = nameTimestamp, sf_interval = checksumInterval,
      sf_writerOffset = of_nat (length (value_head T checksumInterval)),
      sf_cur = Some \<lparr>wb_seq = 0, wb_data = value_head T checksumInterval, wb_memBlocks = []\<rparr>,
      sf_checksumChan = [], sf_held = [], sf_toDisk = [], sf_seq = 0, sf_lastWasNil = False,
      sf_stopped = False, sf_disk = [], sf_index = 0, sf_freed = []\<rparr>"

text \<open>Hand a memory block to the next of the \<open>n\<close> memory clearers.\<close>

definition freeMemBlock :: "nat \<Rightarrow> valueStoreFile \<Rightarrow> u32 \<Rightarrow> valueStoreFile" where
  "freeMemBlock n fl mb =
     fl\<lparr>sf_freed := sf_freed fl @ [(sf_index fl, mb)],
        sf_index := if n \<le> sf_index fl + 1 then 0 else sf_index fl + 1\<rparr>"

section \<open>Writing values\<close>

text \<open>
  The copy loop of \<open>write\<close>.  With a checksum interval of zero it never ends, which is \<open>None\<close>; so is
  the use of a closed file.
\<close>

function write_loop :: "nat \<Rightarrow> writeBuf \<Rightarrow> bytes \<Rightarrow> valueStoreFile \<Rightarrow> valueStoreFile go" where
  "write_loop ci cur vs fl =
     (if ci = 0 then None
      else if vs = [] then Some (fl\<lparr>sf_cur := Some cur\<rparr>)
      else let n = min (ci - length (wb_data cur)) (length vs);
               fl' = fl\<lparr>sf_writerOffset := sf_writerOffset fl + of_nat n\<rparr>;
               cur' = cur\<lparr>wb_data := wb_data cur @ take n vs\<rparr>
           in if ci \<le> length (wb_data cur')
              then write_loop ci \<lparr>wb_seq = wb_seq cur + 1, wb_data = [], wb_memBlocks = []\<rparr> (drop n vs)
                     (fl'\<lparr>sf_checksumChan := sf_checksumChan fl @ [cur']\<rparr>)
              else write_loop ci cur' (drop n vs) fl')"
  by pat_completeness auto
termination
  by (relation "measures [\<lambda>(_, _, vs, _). length vs, \<lambda>(_, cur, _, _). length (wb_data cur)]")
    (auto simp: min_def split: if_splits)

declare write_loop.simps [simp del]

text \<open>
  \<open>write\<close> of a memory block \<open>mb\<close> with these values; also returned is the file offset the block is
  given.  Where the last buffer was filled exactly the block is handed on at once.
\<close>

definition valueStoreFile_write ::
  "nat \<Rightarrow> u32 \<Rightarrow> u32 \<Rightarrow> bytes \<Rightarrow> valueStoreFile \<Rightarrow> (u32 \<times> valueStoreFile) go" where
  "valueStoreFile_write n checksumInterval mb values fl =
     (let fileOffset = sf_writerOffset fl
      in if length values < 1 then Some (fileOffset, freeMemBlock n fl mb)
         else case sf_cur fl of None \<Rightarrow> None
         | Some cur \<Rightarrow>
           Option.bind (write_loop (unat checksumInterval) cur values fl) (\<lambda>fl1.
             Option.bind (sf_cur fl1) (\<lambda>cur1.
               if wb_data cur1 = [] then Some (fileOffset, freeMemBlock n fl1 mb)
               else Some (fileOffset,
                 fl1\<lparr>sf_cur := Some (cur1\<lparr>wb_memBlocks := wb_memBlocks cur1 @ [mb]\<rparr>)\<rparr>))))"

section \<open>The goroutines\<close>

definition sealed :: "(bytes \<Rightarrow> u32) \<Rightarrow> bytes \<Rightarrow> bytes" where
  "sealed sum32 b = b @ putU32 (sum32 b)"

text \<open>One turn of \<open>writingChecksummer\<close> is a receive and a send of the buffer with its checksum.\<close>

definition writingChecksummer_recv :: "valueStoreFile \<Rightarrow> valueStoreFile option" where
  "writingChecksummer_recv fl =
     (case sf_checksumChan fl of [] \<Rightarrow> None
      | b # bs \<Rightarrow> Some (fl\<lparr>sf_checksumChan := bs, sf_held := sf_held fl @ [b]\<rparr>))"

definition writingChecksummer_send ::
  "(bytes \<Rightarrow> u32) \<Rightarrow> nat \<Rightarrow> valueStoreFile \<Rightarrow> valueStoreFile option" where
  "writingChecksummer_send sum32 i fl =
     (if i < length (sf_held fl)
      then let b = sf_held fl ! i
           in Some (fl\<lparr>sf_held := take i (sf_held fl) @ drop (Suc i) (sf_held fl),
                sf_toDisk := sf_toDisk fl @ [Some (b\<lparr>wb_data := sealed sum32 (wb_data b)\<rparr>)]\<rparr>)
      else None)"

text \<open>
  One iteration of \<open>writer\<close>; \<open>werr s\<close> says whether the write of buffer \<open>s\<close> fails.  \<open>None\<close> when it
  waits or has ended.
\<close>

definition writer_iter :: "nat \<Rightarrow> (nat \<Rightarrow> bool) \<Rightarrow> valueStoreFile \<Rightarrow> valueStoreFile option" where
  "writer_iter n werr fl =
     (if sf_stopped fl then None
      else case sf_toDisk fl of
        [] \<Rightarrow> None
      | None # q \<Rightarrow>
          Some (if sf_lastWasNil fl then fl\<lparr>sf_toDisk := q, sf_stopped := True\<rparr>
                else fl\<lparr>sf_toDisk := q @ [None], sf_lastWasNil := True\<rparr>)
      | Some b # q \<Rightarrow>
          let fl1 = fl\<lparr>sf_toDisk := q, sf_lastWasNil := False\<rparr>
          in Some (if wb_seq b \<noteq> sf_seq fl then fl1\<lparr>sf_toDisk := q @ [Some b]\<rparr>
                   else if werr (sf_seq fl) then fl1\<lparr>sf_stopped := True\<rparr>
                   else let fl2 = fl1\<lparr>sf_disk := sf_disk fl @ wb_data b\<rparr>;
                            fl3 = foldl (freeMemBlock n) fl2 (wb_memBlocks b)
                        in fl3\<lparr>sf_seq := sf_seq fl + 1\<rparr>))"

text \<open>The whole loop of \<open>writer\<close>, until it stops; \<open>None\<close> if it never does.\<close>

partial_function (option) writer_run ::
  "nat \<Rightarrow> (nat \<Rightarrow> bool) \<Rightarrow> valueStoreFile \<Rightarrow> valueStoreFile option" where
  "writer_run n werr fl =
     (case writer_iter n werr fl of None \<Rightarrow> Some fl | Some fl' \<Rightarrow> writer_run n werr fl')"

inductive pipe_step :: "(bytes \<Rightarrow> u32) \<Rightarrow> nat \<Rightarrow> (nat \<Rightarrow> bool) \<Rightarrow> valueStoreFile \<Rightarrow> valueStoreFile \<Rightarrow> bool"
  for sum32 n werr where
  step_recv: "writingChecksummer_recv fl = Some fl' \<Longrightarrow> pipe_step sum32 n werr fl fl'"
| step_send: "writingChecksummer_send sum32 i fl = Some fl' \<Longrightarrow> pipe_step sum32 n werr fl fl'"
| step_write: "writer_iter n werr fl = Some fl' \<Longrightarrow> pipe_step sum32 n werr fl fl'"

inductive_cases pipe_stepE: "pipe_step sum32 n werr fl fl'"

section \<open>Closing\<close>

text \<open>
  The loop of \<open>closeWriting\<close> that writes the terminator: every buffer but the last gets a checksum;
  \<open>terr i\<close> is the error of the \<open>i\<close>-th write.
\<close>

function term_loop :: "(bytes \<Rightarrow> u32) \<Rightarrow> nat \<Rightarrow> (nat \<Rightarrow> go_error option) \<Rightarrow> nat \<Rightarrow> bytes \<Rightarrow> bytes \<Rightarrow> bytes \<Rightarrow>
    bytes \<times> go_error option" where
  "term_loop sum32 ci terr i cur left disk =
     (if ci = 0 \<or> left = [] then (disk, None)
      else let n = min (ci - length cur) (length left);
               data = cur @ take n left;
               out = (if drop n left \<noteq> [] then sealed sum32 data else data)
           in case terr i of Some err \<Rightarrow> (disk, Some err)
              | None \<Rightarrow> term_loop sum32 ci terr (Suc i) [] (drop n left) (disk @ out))"
  by pat_completeness auto
termination
  by (relation "measures [\<lambda>(_, _, _, _, _, left, _). length left, \<lambda>(_, _, _, _, cur, _, _). length cur]")
    (auto simp: min_def split: if_splits)

declare term_loop.simps [simp del]

text \<open>
  \<open>closeWriting\<close>: the outstanding buffers reach the writer in the order \<open>sched\<close> chooses, the writer
  is told to end, the terminator is written, the file is closed (\<open>cerr\<close>) and the memory blocks of
  the last buffer are handed on.  A file that is not open for writing is left alone; a checksum
  interval with no room for the terminator panics.
\<close>

definition closeWriting ::
  "(bytes \<Rightarrow> u32) \<Rightarrow> nat \<Rightarrow> (nat \<Rightarrow> bool) \<Rightarrow> (nat \<Rightarrow> go_error option) \<Rightarrow> go_error option \<Rightarrow>
   (writeBuf list \<Rightarrow> writeBuf list) \<Rightarrow> u32 \<Rightarrow> valueStoreFile \<Rightarrow> (go_error option \<times> valueStoreFile) go" where
  "closeWriting sum32 n werr terr cerr sched checksumInterval fl =
     (case sf_cur fl of None \<Rightarrow> Some (None, fl)
      | Some cur \<Rightarrow>
        if unat checksumInterval < length term_mark then None
        else let rest = map (\<lambda>b. Some (b\<lparr>wb_data := sealed sum32 (wb_data b)\<rparr>))
                     (sched (sf_held fl @ sf_checksumChan fl))
        in Option.bind (writer_run n werr (fl\<lparr>sf_checksumChan := [], sf_held := [],
               sf_toDisk := sf_toDisk fl @ rest @ [None]\<rparr>)) (\<lambda>fl1.
             let (disk, err) = term_loop sum32 (unat checksumInterval) terr 0 (wb_data cur)
                   (term_block (unat checksumInterval)) (sf_disk fl1);
                 reterr = (case err of None \<Rightarrow> cerr | Some e \<Rightarrow> Some e);
                 fl2 = foldl (freeMemBlock n) (fl1\<lparr>sf_disk := disk\<rparr>) (wb_memBlocks cur)
             in Some (reterr, fl2\<lparr>sf_cur := None\<rparr>)))"

section \<open>Reading\<close>

text \<open>
  \<open>brimio.ChecksummedReader\<close> is third-party code: \<open>rd ci disk off len\<close> is a seek to \<open>off\<close> and a full
  read of \<open>len\<close> bytes, giving the bytes the buffer then holds and the error.
\<close>

type_synonym checksummed_read = "nat \<Rightarrow> bytes \<Rightarrow> nat \<Rightarrow> nat \<Rightarrow> bytes \<times> go_error option"

definition valueStoreFile_read ::
  "checksummed_read \<Rightarrow> u32 \<Rightarrow> valueStoreFile \<Rightarrow> u64 \<Rightarrow> u32 \<Rightarrow> u32 \<Rightarrow> bytes \<Rightarrow> u64 \<times> bytes \<times> go_error option" where
  "valueStoreFile_read rd checksumInterval fl timestampbits offset len value =
     (if timestampbits AND TSB_DELETION \<noteq> 0 then (timestampbits, value, Some ErrNotFound)
      else let (bs, err) = rd (unat checksumInterval) (sf_disk fl) (unat offset) (unat len)
           in (timestampbits, value @ bs, err))"

text \<open>What its documentation promises: bytes under intact checksums are returned as they were written.\<close>

locale checksummed_reader =
  fixes sum32 :: "bytes \<Rightarrow> u32" and rd :: checksummed_read
  assumes rd_covered: "0 < ci \<Longrightarrow> (\<And>b. b \<in> set bs \<Longrightarrow> length b = ci) \<Longrightarrow> off + len \<le> length (concat bs) \<Longrightarrow>
    rd ci (concat (map (sealed sum32) bs) @ rest) off len = (take len (drop off (concat bs)), None)"

text \<open>A reader with this contract: it collects the blocks with good checksums.\<close>

function unseal :: "(bytes \<Rightarrow> u32) \<Rightarrow> nat \<Rightarrow> bytes \<Rightarrow> bytes" where
  "unseal sum32 ci disk =
     (if ci = 0 \<or> length disk < ci + 4 \<or> getU32 disk ci \<noteq> sum32 (take ci disk) then []
      else take ci disk @ unseal sum32 ci (drop (ci + 4) disk))"
  by pat_completeness auto
termination
  by (relation "measure (\<lambda>(_, _, disk). length disk)") auto

declare unseal.simps [simp del]

definition block_read :: "(bytes \<Rightarrow> u32) \<Rightarrow> checksummed_read" where
  "block_read sum32 ci disk off len =
     (let bs = unseal sum32 ci disk
      in if off + len \<le> length bs then (take len (drop off bs), None)
         else (replicate len 0, Some ErrUnexpectedEOF))"

lemma length_sealed [simp]: "length (sealed sum32 b) = length b + 4"
  by (simp add: sealed_def)

lemma unseal_sealed:
  "0 < ci \<Longrightarrow> \<forall>b \<in> set bs. length b = ci \<Longrightarrow>
   unseal sum32 ci (concat (map (sealed sum32) bs) @ rest) = concat bs @ unseal sum32 ci rest"
proof (induction bs)
  case (Cons b bs)
  then show ?case
    by (subst unseal.simps) (simp add: sealed_def [of sum32 b] getU32_def)
qed simp

interpretation block_reader: checksummed_reader sum32 "block_read sum32" for sum32
  by unfold_locales (auto simp: block_read_def unseal_sealed)

text \<open>A checksummed file is sealed blocks up to at most the last interval.\<close>

lemma checksummed_covers:
  assumes "0 < ci"
  shows "\<exists>bs zs rest. checksummed sum32 ci xs = concat (map (sealed sum32) bs) @ rest \<and>
    (\<forall>b \<in> set bs. length b = ci) \<and> xs = concat bs @ zs \<and> length zs \<le> ci"
  using assms
proof (induction sum32 ci xs rule: checksummed.induct)
  case (1 sum32 ci xs)
  show ?case
  proof (cases "length xs \<le> ci")
    case True
    then show ?thesis by (intro exI [of _ "[]"] exI [of _ xs]) (simp add: checksummed_last)
  next
    case False
    with 1 obtain bs zs rest where IH: "checksummed sum32 ci (drop ci xs) = concat (map (sealed sum32) bs) @ rest"
      "\<forall>b \<in> set bs. length b = ci" "drop ci xs = concat bs @ zs" "length zs \<le> ci" by auto
    have bl: "checksummed sum32 ci xs = concat (map (sealed sum32) (take ci xs # bs)) @ rest"
      using checksummed_block [of ci xs sum32] False 1(2) IH(1) by (simp add: sealed_def [of sum32 "take ci xs"])
    have "xs = concat (take ci xs # bs) @ zs" using IH(3) append_take_drop_id [of ci xs] by simp
    with bl IH(2,4) False show ?thesis
      by (intro exI [of _ "take ci xs # bs"] exI [of _ zs] exI [of _ rest]) auto
  qed
qed

context checksummed_reader
begin

lemma rd_checksummed:
  assumes "0 < ci" "off + len + ci \<le> length xs"
  shows "rd ci (checksummed sum32 ci xs) off len = (take len (drop off xs), None)"
proof -
  obtain bs zs rest where bs: "checksummed sum32 ci xs = concat (map (sealed sum32) bs) @ rest"
    "\<forall>b \<in> set bs. length b = ci" "xs = concat bs @ zs" "length zs \<le> ci"
    using checksummed_covers [OF assms(1)] by blast
  have le: "off + len \<le> length (concat bs)" using bs(3,4) assms(2) by simp
  have "take len (drop off (concat bs)) = take len (drop off xs)"
    using le unfolding bs(3) by simp
  then show ?thesis
    using rd_covered [OF assms(1) _ le] bs(1,2) by simp
qed

lemma read_closed:
  assumes "sf_disk fl = checksummed sum32 (unat ci) (pre @ vs @ post)" "0 < unat ci"
    "unat off = length pre + i" "i + unat len \<le> length vs" "unat ci \<le> length post"
    "timestampbits AND TSB_DELETION = 0"
  shows "valueStoreFile_read rd ci fl timestampbits off len val =
    (timestampbits, val @ take (unat len) (drop i vs), None)"
  using rd_checksummed [of "unat ci" "unat off" "unat len" "pre @ vs @ post"] assms
  by (simp add: valueStoreFile_read_def)

end

section \<open>The pipeline keeps every buffer\<close>

text \<open>
  The buffers on their way to disk: number, bytes to be written and memory blocks.  The list
  \<open>blocks\<close> of the invariant is the history of the buffers handed to the pipeline; \<open>M\<close> are the memory
  blocks that were handed on or travel with a buffer.
\<close>

definition outstanding :: "(bytes \<Rightarrow> u32) \<Rightarrow> valueStoreFile \<Rightarrow> (nat \<times> bytes \<times> u32 list) list" where
  "outstanding sum32 fl =
     map (\<lambda>b. (wb_seq b, sealed sum32 (wb_data b), wb_memBlocks b)) (sf_checksumChan fl @ sf_held fl) @
     map (\<lambda>b. (wb_seq b, wb_data b, wb_memBlocks b)) (List.map_filter id (sf_toDisk fl))"

definition block_item :: "(bytes \<Rightarrow> u32) \<Rightarrow> (bytes \<times> u32 list) list \<Rightarrow> nat \<Rightarrow> nat \<times> bytes \<times> u32 list" where
  "block_item sum32 blocks i = (i, sealed sum32 (fst (blocks ! i)), snd (blocks ! i))"

definition pipe_inv :: "(bytes \<Rightarrow> u32) \<Rightarrow> (bytes \<times> u32 list) list \<Rightarrow> u32 multiset \<Rightarrow> valueStoreFile \<Rightarrow> bool" where
  "pipe_inv sum32 blocks M fl \<longleftrightarrow>
     sf_seq fl \<le> length blocks \<and>
     sf_disk fl = concat (map (sealed sum32 \<circ> fst) (take (sf_seq fl) blocks)) \<and>
     mset (map snd (sf_freed fl)) + mset (concat (map snd (drop (sf_seq fl) blocks))) = M \<and>
     (\<not> sf_stopped fl \<longrightarrow>
        mset (outstanding sum32 fl) = mset (map (block_item sum32 blocks) [sf_seq fl..<length blocks]))"

lemma freeMemBlock_simps [simp]:
  "sf_id (freeMemBlock n fl mb) = sf_id fl"
  "sf_nameTimestamp (freeMemBlock n fl mb) = sf_nameTimestamp fl"
  "sf_interval (freeMemBlock n fl mb) = sf_interval fl"
  "sf_writerOffset (freeMemBlock n fl mb) = sf_writerOffset fl"
  "sf_cur (freeMemBlock n fl mb) = sf_cur fl"
  "sf_checksumChan (freeMemBlock n fl mb) = sf_checksumChan fl"
  "sf_held (freeMemBlock n fl mb) = sf_held fl"
  "sf_toDisk (freeMemBlock n fl mb) = sf_toDisk fl"
  "sf_seq (freeMemBlock n fl mb) = sf_seq fl"
  "sf_lastWasNil (freeMemBlock n fl mb) = sf_lastWasNil fl"
  "sf_stopped (freeMemBlock n fl mb) = sf_stopped fl"
  "sf_disk (freeMemBlock n fl mb) = sf_disk fl"
  "map snd (sf_freed (freeMemBlock n fl mb)) = map snd (sf_freed fl) @ [mb]"
  by (simp_all add: freeMemBlock_def)

lemma foldl_freeMemBlock [simp]:
  "sf_id (foldl (freeMemBlock n) fl mbs) = sf_id fl"
  "sf_nameTimestamp (foldl (freeMemBlock n) fl mbs) = sf_nameTimestamp fl"
  "sf_interval (foldl (freeMemBlock n) fl mbs) = sf_interval fl"
  "sf_writerOffset (foldl (freeMemBlock n) fl mbs) = sf_writerOffset fl"
  "sf_cur (foldl (freeMemBlock n) fl mbs) = sf_cur fl"
  "sf_checksumChan (foldl (freeMemBlock n) fl mbs) = sf_checksumChan fl"
  "sf_held (foldl (freeMemBlock n) fl mbs) = sf_held fl"
  "sf_toDisk (foldl (freeMemBlock n) fl mbs) = sf_toDisk fl"
  "sf_seq (foldl (freeMemBlock n) fl mbs) = sf_seq fl"
  "sf_lastWasNil (foldl (freeMemBlock n) fl mbs) = sf_lastWasNil fl"
  "sf_stopped (foldl (freeMemBlock n) fl mbs) = sf_stopped fl"
  "sf_disk (foldl (freeMemBlock n) fl mbs) = sf_disk fl"
  "map snd (sf_freed (foldl (freeMemBlock n) fl mbs)) = map snd (sf_freed fl) @ mbs"
  by (induction mbs arbitrary: fl) simp_all

lemma freed_mset [simp]:
  "image_mset snd (mset (sf_freed (freeMemBlock n fl mb))) = add_mset mb (image_mset snd (mset (sf_freed fl)))"
  "image_mset snd (mset (sf_freed (foldl (freeMemBlock n) fl mbs))) =
     image_mset snd (mset (sf_freed fl)) + mset mbs"
  by (simp_all add: freeMemBlock_def, induction mbs arbitrary: fl) (simp_all add: freeMemBlock_def)

lemma map_filter_simps_id [simp]:
  "List.map_filter id [] = []"
  "List.map_filter id (None # q) = List.map_filter id q"
  "List.map_filter id (Some b # q) = b # List.map_filter id q"
  "List.map_filter id (q @ q') = List.map_filter id q @ List.map_filter id q'"
  by (simp_all add: List.map_filter_def)

lemma outstanding_simps [simp]:
  "outstanding sum32 (freeMemBlock n fl mb) = outstanding sum32 fl"
  "outstanding sum32 (foldl (freeMemBlock n) fl mbs) = outstanding sum32 fl"
  "outstanding sum32 (fl\<lparr>sf_seq := k\<rparr>) = outstanding sum32 fl"
  "outstanding sum32 (fl\<lparr>sf_lastWasNil := w\<rparr>) = outstanding sum32 fl"
  "outstanding sum32 (fl\<lparr>sf_disk := d\<rparr>) = outstanding sum32 fl"
  "outstanding sum32 (fl\<lparr>sf_cur := c\<rparr>) = outstanding sum32 fl"
  "outstanding sum32 (fl\<lparr>sf_writerOffset := u\<rparr>) = outstanding sum32 fl"
  by (simp_all add: outstanding_def)

lemma pipe_inv_recv:
  assumes "pipe_inv sum32 blocks M fl" "writingChecksummer_recv fl = Some fl'"
  shows "pipe_inv sum32 blocks M fl'"
  using assms by (auto simp: pipe_inv_def writingChecksummer_recv_def outstanding_def split: list.splits)

lemma mset_take_drop_nth: "i < length xs \<Longrightarrow> mset xs = add_mset (xs ! i) (mset (take i xs @ drop (Suc i) xs))"
  by (subst id_take_nth_drop [of i xs]) simp_all

lemma pipe_inv_send:
  assumes "pipe_inv sum32 blocks M fl" "writingChecksummer_send sum32 i fl = Some fl'"
  shows "pipe_inv sum32 blocks M fl'"
proof -
  have i: "i < length (sf_held fl)"
    and fl': "fl' = fl\<lparr>sf_held := take i (sf_held fl) @ drop (Suc i) (sf_held fl),
      sf_toDisk := sf_toDisk fl @ [Some ((sf_held fl ! i)\<lparr>wb_data := sealed sum32 (wb_data (sf_held fl ! i))\<rparr>)]\<rparr>"
    using assms(2) by (auto simp: writingChecksummer_send_def Let_def split: if_splits)
  have "mset (outstanding sum32 fl') = mset (outstanding sum32 fl)"
    using mset_take_drop_nth [OF i] unfolding fl' outstanding_def by simp
  then show ?thesis
    using assms(1) unfolding pipe_inv_def fl' by simp
qed

text \<open>The head of the queue is the next buffer: it is the block of that number.\<close>

lemma next_buffer:
  assumes "pipe_inv sum32 blocks M fl" "\<not> sf_stopped fl" "sf_toDisk fl = Some b # q" "wb_seq b = sf_seq fl"
  shows "sf_seq fl < length blocks"
    and "wb_data b = sealed sum32 (fst (blocks ! sf_seq fl))"
    and "wb_memBlocks b = snd (blocks ! sf_seq fl)"
    and "mset (outstanding sum32 (fl\<lparr>sf_toDisk := q\<rparr>)) =
      mset (map (block_item sum32 blocks) [Suc (sf_seq fl)..<length blocks])"
proof -
  let ?it = "(sf_seq fl, wb_data b, wb_memBlocks b)"
  have out: "mset (outstanding sum32 fl) = add_mset ?it (mset (outstanding sum32 (fl\<lparr>sf_toDisk := q\<rparr>)))"
    using assms(3,4) by (simp add: outstanding_def)
  with assms(1,2) have all: "add_mset ?it (mset (outstanding sum32 (fl\<lparr>sf_toDisk := q\<rparr>))) =
      mset (map (block_item sum32 blocks) [sf_seq fl..<length blocks])"
    by (simp add: pipe_inv_def)
  then have "?it \<in> set (map (block_item sum32 blocks) [sf_seq fl..<length blocks])"
    by (metis set_mset_mset union_single_eq_member)
  then have less: "sf_seq fl < length blocks" and it: "?it = block_item sum32 blocks (sf_seq fl)"
    by (auto simp: block_item_def)
  show "sf_seq fl < length blocks" by (rule less)
  show "wb_data b = sealed sum32 (fst (blocks ! sf_seq fl))" "wb_memBlocks b = snd (blocks ! sf_seq fl)"
    using it by (simp_all add: block_item_def)
  show "mset (outstanding sum32 (fl\<lparr>sf_toDisk := q\<rparr>)) =
      mset (map (block_item sum32 blocks) [Suc (sf_seq fl)..<length blocks])"
    using all less unfolding it by (simp add: upt_conv_Cons)
qed

lemma pipe_inv_write:
  assumes inv: "pipe_inv sum32 blocks M fl" and "writer_iter n werr fl = Some fl'"
  shows "pipe_inv sum32 blocks M fl'"
proof -
  have run: "\<not> sf_stopped fl" and "sf_toDisk fl \<noteq> []"
    using assms(2) by (auto simp: writer_iter_def split: if_splits list.splits)
  then obtain x q where q: "sf_toDisk fl = x # q" by (cases "sf_toDisk fl") auto
  consider (nil) "x = None" | (other) b where "x = Some b" "wb_seq b \<noteq> sf_seq fl"
    | (err) b where "x = Some b" "wb_seq b = sf_seq fl" "werr (sf_seq fl)"
    | (ok) b where "x = Some b" "wb_seq b = sf_seq fl" "\<not> werr (sf_seq fl)"
    by (cases x) auto
  then show ?thesis
  proof cases
    case nil
    then show ?thesis
      using assms run q by (auto simp: writer_iter_def pipe_inv_def outstanding_def split: if_splits)
  next
    case other
    then show ?thesis
      using assms run q by (auto simp: writer_iter_def pipe_inv_def outstanding_def Let_def)
  next
    case err
    then show ?thesis
      using assms run q by (auto simp: writer_iter_def pipe_inv_def outstanding_def Let_def)
  next
    case ok
    note nb = next_buffer [OF inv run q [unfolded ok(1)] ok(2)]
    let ?k = "sf_seq fl"
    have fl': "fl' = (foldl (freeMemBlock n) (fl\<lparr>sf_toDisk := q, sf_lastWasNil := False,
        sf_disk := sf_disk fl @ wb_data b\<rparr>) (wb_memBlocks b))\<lparr>sf_seq := ?k + 1\<rparr>"
      using assms(2) run q ok by (simp add: writer_iter_def Let_def)
    have "mset (outstanding sum32 fl') = mset (map (block_item sum32 blocks) [Suc ?k..<length blocks])"
      unfolding fl' using nb(4) by (simp add: outstanding_def)
    moreover have "take (Suc ?k) blocks = take ?k blocks @ [blocks ! ?k]"
      and "drop ?k blocks = blocks ! ?k # drop (Suc ?k) blocks"
      using nb(1) by (simp_all add: take_Suc_conv_app_nth Cons_nth_drop_Suc)
    ultimately show ?thesis
      using inv nb(1-3) run unfolding pipe_inv_def fl' by (auto simp: ac_simps)
  qed
qed

lemma pipe_inv_step: "pipe_step sum32 n werr fl fl' \<Longrightarrow> pipe_inv sum32 blocks M fl \<Longrightarrow> pipe_inv sum32 blocks M fl'"
  by (erule pipe_stepE) (auto intro: pipe_inv_recv pipe_inv_send pipe_inv_write)

section \<open>The writer ends when everything is on disk\<close>

text \<open>
  The state of the pipeline once \<open>closeWriting\<close> has sent its nil: everything is queued for the
  writer, and a nil seen in the last iteration is at the end of the queue.
\<close>

definition closing :: "(bytes \<Rightarrow> u32) \<Rightarrow> (bytes \<times> u32 list) list \<Rightarrow> u32 multiset \<Rightarrow> valueStoreFile \<Rightarrow> bool" where
  "closing sum32 blocks M fl \<longleftrightarrow>
     pipe_inv sum32 blocks M fl \<and> \<not> sf_stopped fl \<and> sf_checksumChan fl = [] \<and> sf_held fl = [] \<and>
     count_list (sf_toDisk fl) None = 1 \<and> (sf_lastWasNil fl \<longrightarrow> last (sf_toDisk fl) = None)"

abbreviation is_next :: "nat \<Rightarrow> writeBuf option \<Rightarrow> bool" where
  "is_next k x \<equiv> (\<exists>b. x = Some b \<and> wb_seq b = k)"

definition writer_measure :: "(bytes \<times> u32 list) list \<Rightarrow> valueStoreFile \<Rightarrow> nat \<times> nat" where
  "writer_measure blocks fl =
     (length blocks - sf_seq fl, length (takeWhile (\<lambda>x. \<not> is_next (sf_seq fl) x) (sf_toDisk fl)))"

lemma count_list_0_map_filter: "count_list q None = 0 \<Longrightarrow> List.map_filter id q = [] \<Longrightarrow> q = []"
  by (cases q rule: list.exhaust; cases "hd q") auto

lemma closing_next:
  assumes "closing sum32 blocks M fl" "sf_seq fl < length blocks"
  shows "\<exists>x \<in> set (sf_toDisk fl). is_next (sf_seq fl) x"
proof -
  have "mset (outstanding sum32 fl) = mset (map (block_item sum32 blocks) [sf_seq fl..<length blocks])"
    using assms(1) by (simp add: closing_def pipe_inv_def)
  then have "set (outstanding sum32 fl) = set (map (block_item sum32 blocks) [sf_seq fl..<length blocks])"
    by (metis set_mset_mset)
  then have "block_item sum32 blocks (sf_seq fl) \<in> set (outstanding sum32 fl)"
    using assms(2) by auto
  then obtain b where "Some b \<in> set (sf_toDisk fl)" "wb_seq b = sf_seq fl"
    using assms(1) by (auto simp: closing_def outstanding_def block_item_def List.map_filter_def)
  then show ?thesis by (intro bexI [of _ "Some b"]) simp_all
qed

text \<open>Unless everything is written, an iteration writes a buffer or brings the next one nearer.\<close>

lemma closing_iter:
  assumes cl: "closing sum32 blocks M fl" and less: "sf_seq fl < length blocks"
  shows "\<exists>fl'. writer_iter n (\<lambda>_. False) fl = Some fl' \<and> closing sum32 blocks M fl' \<and>
    (writer_measure blocks fl', writer_measure blocks fl) \<in> less_than <*lex*> less_than"
proof -
  obtain x q where q: "sf_toDisk fl = x # q"
    using closing_next [OF cl less] by (cases "sf_toDisk fl") auto
  have run: "\<not> sf_stopped fl" using cl by (simp add: closing_def)
  consider (nil) "x = None" | (other) b where "x = Some b" "wb_seq b \<noteq> sf_seq fl"
    | (ok) b where "x = Some b" "wb_seq b = sf_seq fl"
    by (cases x) auto
  then show ?thesis
  proof cases
    case nil
    then obtain y where y: "y \<in> set q" "is_next (sf_seq fl) y"
      using closing_next [OF cl less] q by auto
    have "\<not> sf_lastWasNil fl"
    proof
      assume "sf_lastWasNil fl"
      then have "last q = None" "q \<noteq> []" using cl q y by (auto simp: closing_def split: if_splits)
      then have "None \<in> set q" using last_in_set by fastforce
      then show False
        using cl q nil by (auto simp: closing_def count_list_0_iff)
    qed
    then have it: "writer_iter n (\<lambda>_. False) fl = Some (fl\<lparr>sf_toDisk := q @ [None], sf_lastWasNil := True\<rparr>)"
      using run q nil by (simp add: writer_iter_def)
    show ?thesis
      using cl it pipe_inv_write [OF _ it] q nil y takeWhile_append1 [of y q "\<lambda>x. \<not> is_next (sf_seq fl) x"]
      by (auto simp: closing_def writer_measure_def)
  next
    case other
    then obtain y where y: "y \<in> set q" "is_next (sf_seq fl) y"
      using closing_next [OF cl less] q by auto
    have it: "writer_iter n (\<lambda>_. False) fl = Some (fl\<lparr>sf_toDisk := q @ [Some b], sf_lastWasNil := False\<rparr>)"
      using run q other by (simp add: writer_iter_def)
    show ?thesis
      using cl it pipe_inv_write [OF _ it] q other y takeWhile_append1 [of y q "\<lambda>x. \<not> is_next (sf_seq fl) x"]
      by (auto simp: closing_def writer_measure_def)
  next
    case ok
    let ?fl = "(foldl (freeMemBlock n) (fl\<lparr>sf_toDisk := q, sf_lastWasNil := False,
        sf_disk := sf_disk fl @ wb_data b\<rparr>) (wb_memBlocks b))\<lparr>sf_seq := sf_seq fl + 1\<rparr>"
    have it: "writer_iter n (\<lambda>_. False) fl = Some ?fl"
      using run q ok by (simp add: writer_iter_def Let_def)
    show ?thesis
      using cl it pipe_inv_write [OF _ it] q ok less by (auto simp: closing_def writer_measure_def)
  qed
qed

lemma writer_iter_keeps:
  "writer_iter n werr fl = Some fl' \<Longrightarrow>
     sf_cur fl' = sf_cur fl \<and> sf_id fl' = sf_id fl \<and> sf_nameTimestamp fl' = sf_nameTimestamp fl \<and>
     sf_writerOffset fl' = sf_writerOffset fl \<and> sf_checksumChan fl' = sf_checksumChan fl \<and>
     sf_held fl' = sf_held fl \<and> sf_interval fl' = sf_interval fl"
  by (auto simp: writer_iter_def Let_def split: if_splits list.splits option.splits)

definition same_file :: "valueStoreFile \<Rightarrow> valueStoreFile \<Rightarrow> bool" where
  "same_file fl fl' \<longleftrightarrow>
     sf_cur fl' = sf_cur fl \<and> sf_id fl' = sf_id fl \<and> sf_nameTimestamp fl' = sf_nameTimestamp fl \<and>
     sf_writerOffset fl' = sf_writerOffset fl \<and> sf_checksumChan fl' = sf_checksumChan fl \<and>
     sf_held fl' = sf_held fl \<and> sf_interval fl' = sf_interval fl"

lemma writer_run_keeps:
  assumes "writer_run n werr fl = Some fl'"
  shows "same_file fl fl'"
proof (rule writer_run.raw_induct [where P = "\<lambda>n werr. same_file", OF _ assms])
  fix run n werr fl fl'
  assume IH: "\<And>n werr fl fl'. run n werr fl = Some fl' \<Longrightarrow> same_file fl fl'"
    and body: "(case writer_iter n werr fl of None \<Rightarrow> Some fl | Some fl' \<Rightarrow> run n werr fl') = Some fl'"
  show "same_file fl fl'"
  proof (cases "writer_iter n werr fl")
    case None
    with body show ?thesis by (simp add: same_file_def)
  next
    case (Some fl1)
    then have "run n werr fl1 = Some fl'" using body by simp
    with IH writer_iter_keeps [OF Some] show ?thesis by (fastforce simp: same_file_def)
  qed
qed

text \<open>When the last buffer is written only the nil is left, and seen twice it ends the writer.\<close>

lemma writer_run_empty:
  assumes cl: "closing sum32 blocks M fl" and "sf_seq fl = length blocks"
  shows "writer_run n werr fl = Some (fl\<lparr>sf_toDisk := [], sf_lastWasNil := True, sf_stopped := True\<rparr>)"
proof -
  have "outstanding sum32 fl = []" using assms by (simp add: closing_def pipe_inv_def)
  then have mf: "List.map_filter id (sf_toDisk fl) = []" by (simp add: outstanding_def)
  obtain q where q: "sf_toDisk fl = None # q"
    using cl mf by (cases "sf_toDisk fl"; cases "hd (sf_toDisk fl)") (auto simp: closing_def)
  then have "q = []" using cl mf count_list_0_map_filter [of q] by (simp add: closing_def)
  with q cl show ?thesis
    by (subst writer_run.simps; cases "sf_lastWasNil fl")
      (simp_all add: writer_iter_def closing_def writer_run.simps [of n werr "_\<lparr>sf_stopped := _\<rparr>"]
        writer_run.simps [of n werr "_\<lparr>sf_lastWasNil := _\<rparr>"])
qed

lemma writer_run_ends:
  assumes "closing sum32 blocks M fl"
  shows "\<exists>fl'. writer_run n (\<lambda>_. False) fl = Some fl' \<and> pipe_inv sum32 blocks M fl' \<and>
    sf_seq fl' = length blocks \<and> sf_toDisk fl' = []"
  using assms
proof (induction fl rule: wf_induct_rule [OF wf_inv_image [OF wf_lex_prod [OF wf_less_than wf_less_than],
      of "writer_measure blocks"]])
  case (1 fl)
  show ?case
  proof (cases "sf_seq fl < length blocks")
    case True
    then obtain fl' where fl': "writer_iter n (\<lambda>_. False) fl = Some fl'" "closing sum32 blocks M fl'"
      "(writer_measure blocks fl', writer_measure blocks fl) \<in> less_than <*lex*> less_than"
      using closing_iter [OF 1(2)] by blast
    then show ?thesis
      using 1(1) [of fl'] by (subst writer_run.simps) (simp add: inv_image_def)
  next
    case False
    then have "sf_seq fl = length blocks" using 1(2) by (simp add: closing_def pipe_inv_def)
    then show ?thesis
      using writer_run_empty [OF 1(2), of n "\<lambda>_. False"] 1(2)
      by (auto simp: closing_def pipe_inv_def)
  qed
qed

section \<open>The invariant of a file being written\<close>

text \<open>
  \<open>stream\<close> is everything the file has accepted, the header included; \<open>mbs\<close> the memory blocks it was
  given.
\<close>

definition file_inv :: "(bytes \<Rightarrow> u32) \<Rightarrow> u32 \<Rightarrow> bytes \<Rightarrow> u32 list \<Rightarrow> valueStoreFile \<Rightarrow> bool" where
  "file_inv sum32 checksumInterval stream mbs fl \<longleftrightarrow>
     (\<exists>blocks cur M.
        (\<forall>b \<in> set blocks. length (fst b) = unat checksumInterval) \<and>
        sf_cur fl = Some cur \<and> wb_seq cur = length blocks \<and>
        length (wb_data cur) \<le> unat checksumInterval \<and>
        concat (map fst blocks) @ wb_data cur = stream \<and>
        sf_writerOffset fl = of_nat (length stream) \<and>
        pipe_inv sum32 blocks M fl \<and> M + mset (wb_memBlocks cur) = mset mbs \<and>
        None \<notin> set (sf_toDisk fl) \<and> \<not> sf_lastWasNil fl \<and> sf_interval fl = checksumInterval)"

lemma file_inv_start:
  "32 \<le> unat ci \<Longrightarrow> file_inv sum32 ci (value_head T ci) [] (writer_start T ci i ts)"
  unfolding file_inv_def
  by (intro exI [of _ "[]"] exI [of _ "{#}"] exI [of _ "\<lparr>wb_seq = 0, wb_data = value_head T ci, wb_memBlocks = []\<rparr>"])
    (simp add: writer_start_def pipe_inv_def outstanding_def)

lemma file_inv_step:
  assumes "pipe_step sum32 n werr fl fl'" "file_inv sum32 ci stream mbs fl"
  shows "file_inv sum32 ci stream mbs fl'"
proof -
  have "sf_cur fl' = sf_cur fl \<and> sf_writerOffset fl' = sf_writerOffset fl \<and> sf_interval fl' = sf_interval fl \<and>
      (None \<notin> set (sf_toDisk fl) \<and> \<not> sf_lastWasNil fl \<longrightarrow> None \<notin> set (sf_toDisk fl') \<and> \<not> sf_lastWasNil fl')"
    using assms(1)
    by (rule pipe_stepE)
      (auto simp: writingChecksummer_recv_def writingChecksummer_send_def writer_iter_def Let_def
        split: if_splits list.splits option.splits)
  then show ?thesis
    using assms pipe_inv_step [OF assms(1)] unfolding file_inv_def by metis
qed

text \<open>Handing a full buffer to the pipeline.\<close>

lemma pipe_inv_push:
  assumes "pipe_inv sum32 blocks M fl" "wb_seq b = length blocks"
  shows "pipe_inv sum32 (blocks @ [(wb_data b, wb_memBlocks b)]) (M + mset (wb_memBlocks b))
    (fl\<lparr>sf_checksumChan := sf_checksumChan fl @ [b]\<rparr>)"
proof -
  let ?bs = "blocks @ [(wb_data b, wb_memBlocks b)]"
  have k: "sf_seq fl \<le> length blocks" using assms(1) by (simp add: pipe_inv_def)
  let ?fl = "fl\<lparr>sf_checksumChan := sf_checksumChan fl @ [b]\<rparr>"
  have all: "map (block_item sum32 ?bs) [sf_seq fl..<length ?bs] =
      map (block_item sum32 blocks) [sf_seq fl..<length blocks] @
        [(length blocks, sealed sum32 (wb_data b), wb_memBlocks b)]"
    using k by (simp add: block_item_def nth_append)
  have "mset (outstanding sum32 ?fl) =
      add_mset (length blocks, sealed sum32 (wb_data b), wb_memBlocks b) (mset (outstanding sum32 fl))"
    using assms(2) by (simp add: outstanding_def)
  then have "\<not> sf_stopped fl \<Longrightarrow>
      mset (outstanding sum32 ?fl) = mset (map (block_item sum32 ?bs) [sf_seq fl..<length ?bs])"
    using assms(1) unfolding all pipe_inv_def by simp
  then show ?thesis
    using assms k unfolding pipe_inv_def by (intro conjI) (simp_all add: ac_simps del: mset_map mset_upt)
qed

lemma pipe_inv_update [simp]:
  "pipe_inv sum32 blocks M (fl\<lparr>sf_cur := c\<rparr>) = pipe_inv sum32 blocks M fl"
  "pipe_inv sum32 blocks M (fl\<lparr>sf_writerOffset := u\<rparr>) = pipe_inv sum32 blocks M fl"
  by (simp_all add: pipe_inv_def)

lemma pipe_inv_free:
  "pipe_inv sum32 blocks M fl \<Longrightarrow> pipe_inv sum32 blocks (M + {#mb#}) (freeMemBlock n fl mb)"
  by (auto simp: pipe_inv_def)

lemma file_inv_free:
  "file_inv sum32 ci stream mbs fl \<Longrightarrow> file_inv sum32 ci stream (mbs @ [mb]) (freeMemBlock n fl mb)"
  unfolding file_inv_def using pipe_inv_free by fastforce

text \<open>The copy loop moves all the values into the file.\<close>

lemma write_loop_inv:
  assumes "file_inv sum32 ci stream mbs (fl\<lparr>sf_cur := Some cur\<rparr>)" "0 < unat ci"
  shows "\<exists>fl' cur'. write_loop (unat ci) cur vs fl = Some fl' \<and> sf_cur fl' = Some cur' \<and>
    file_inv sum32 ci (stream @ vs) mbs fl' \<and>
    sf_freed fl' = sf_freed fl \<and> sf_disk fl' = sf_disk fl \<and> sf_index fl' = sf_index fl \<and>
    sf_id fl' = sf_id fl \<and> sf_nameTimestamp fl' = sf_nameTimestamp fl \<and>
    sf_stopped fl' = sf_stopped fl \<and> sf_seq fl' = sf_seq fl"
  using assms
proof (induction "unat ci" cur vs fl arbitrary: stream rule: write_loop.induct)
  case (1 cur vs fl)
  obtain blocks M where inv: "\<forall>b \<in> set blocks. length (fst b) = unat ci" "wb_seq cur = length blocks"
    "length (wb_data cur) \<le> unat ci" "concat (map fst blocks) @ wb_data cur = stream"
    "sf_writerOffset fl = of_nat (length stream)" "pipe_inv sum32 blocks M fl"
    "M + mset (wb_memBlocks cur) = mset mbs" "None \<notin> set (sf_toDisk fl)" "\<not> sf_lastWasNil fl" "sf_interval fl = ci"
    using 1(3) by (auto simp: file_inv_def)
  show ?case
  proof (cases "vs = []")
    case True
    with 1(3,4) show ?thesis by (subst write_loop.simps) simp
  next
    case False
    let ?n = "min (unat ci - length (wb_data cur)) (length vs)"
    let ?fl = "fl\<lparr>sf_writerOffset := sf_writerOffset fl + of_nat ?n\<rparr>"
    let ?cur = "cur\<lparr>wb_data := wb_data cur @ take ?n vs\<rparr>"
    let ?new = "\<lparr>wb_seq = wb_seq cur + 1, wb_data = [], wb_memBlocks = []\<rparr>"
    let ?push = "?fl\<lparr>sf_checksumChan := sf_checksumChan fl @ [?cur]\<rparr>"
    have le: "unat ci \<le> length (wb_data cur) + (unat ci - length (wb_data cur))" by simp
    have off: "sf_writerOffset ?fl = of_nat (length (stream @ take ?n vs))" using inv(5) by simp
    show ?thesis
    proof (cases "unat ci \<le> length (wb_data ?cur)")
      case True
      have full: "length (wb_data ?cur) = unat ci" using True inv(3) by simp
      have "file_inv sum32 ci (stream @ take ?n vs) mbs (?push\<lparr>sf_cur := Some ?new\<rparr>)"
        unfolding file_inv_def
        using inv full off pipe_inv_push [of sum32 blocks M ?fl ?cur]
        by (intro exI [of _ "blocks @ [(wb_data ?cur, wb_memBlocks ?cur)]"] exI [of _ ?new]
            exI [of _ "M + mset (wb_memBlocks ?cur)"]) auto
      from 1(1) [OF _ False refl refl refl True this] 1(4)
      have IH: "\<exists>fl' cur'. write_loop (unat ci) ?new (drop ?n vs) ?push = Some fl' \<and> sf_cur fl' = Some cur' \<and>
          file_inv sum32 ci ((stream @ take ?n vs) @ drop ?n vs) mbs fl' \<and>
          sf_freed fl' = sf_freed ?push \<and> sf_disk fl' = sf_disk ?push \<and> sf_index fl' = sf_index ?push \<and>
          sf_id fl' = sf_id ?push \<and> sf_nameTimestamp fl' = sf_nameTimestamp ?push \<and>
          sf_stopped fl' = sf_stopped ?push \<and> sf_seq fl' = sf_seq ?push"
        by blast
      have "write_loop (unat ci) cur vs fl = write_loop (unat ci) ?new (drop ?n vs) ?push"
        using 1(4) False True le by (subst write_loop.simps) (simp add: Let_def)
      with IH show ?thesis by simp
    next
      case part: False
      have lt: "\<not> unat ci \<le> length (wb_data cur) + length vs"
        using part le by (simp add: min_def split: if_splits)
      have "file_inv sum32 ci (stream @ take ?n vs) mbs (?fl\<lparr>sf_cur := Some ?cur\<rparr>)"
        unfolding file_inv_def
        using inv part off by (intro exI [of _ blocks] exI [of _ ?cur] exI [of _ M]) auto
      from 1(2) [OF _ False refl refl refl part this] 1(4)
      have IH: "\<exists>fl' cur'. write_loop (unat ci) ?cur (drop ?n vs) ?fl = Some fl' \<and> sf_cur fl' = Some cur' \<and>
          file_inv sum32 ci ((stream @ take ?n vs) @ drop ?n vs) mbs fl' \<and>
          sf_freed fl' = sf_freed ?fl \<and> sf_disk fl' = sf_disk ?fl \<and> sf_index fl' = sf_index ?fl \<and>
          sf_id fl' = sf_id ?fl \<and> sf_nameTimestamp fl' = sf_nameTimestamp ?fl \<and>
          sf_stopped fl' = sf_stopped ?fl \<and> sf_seq fl' = sf_seq ?fl"
        by blast
      have "write_loop (unat ci) cur vs fl = write_loop (unat ci) ?cur (drop ?n vs) ?fl"
        using 1(4) False part lt by (subst write_loop.simps) (simp add: Let_def)
      with IH show ?thesis by simp
    qed
  qed
qed

lemma write_loop_room:
  "write_loop ci cur vs fl = Some fl' \<Longrightarrow> sf_cur fl' = Some cur' \<Longrightarrow>
   vs \<noteq> [] \<or> length (wb_data cur) < ci \<Longrightarrow> length (wb_data cur') < ci"
proof (induction ci cur vs fl rule: write_loop.induct)
  case (1 ci cur vs fl)
  let ?n = "min (ci - length (wb_data cur)) (length vs)"
  show ?case
  proof (cases "ci = 0 \<or> vs = []")
    case True
    with 1(3-) show ?thesis by (subst (asm) write_loop.simps) (auto split: if_splits)
  next
    case False
    then have pos: "ci \<noteq> 0" "vs \<noteq> []" by auto
    show ?thesis
      using 1(3,4) 1(1) [OF pos refl refl refl] 1(2) [OF pos refl refl refl] pos
      by (subst (asm) write_loop.simps) (auto simp: Let_def split: if_splits)
  qed
qed

text \<open>How much of the stream is on disk and in the current buffer.\<close>

lemma file_inv_blocks:
  assumes "file_inv sum32 ci stream mbs fl" "sf_cur fl = Some cur"
  shows "sf_seq fl * unat ci \<le> length stream"
    and "length stream mod unat ci = length (wb_data cur) mod unat ci"
    and "length (sf_disk fl) = sf_seq fl * (unat ci + 4)"
proof -
  obtain blocks M where st: "\<forall>b \<in> set blocks. length (fst b) = unat ci"
    "concat (map fst blocks) @ wb_data cur = stream" "pipe_inv sum32 blocks M fl"
    using assms by (auto simp: file_inv_def)
  have len: "length stream = unat ci * length blocks + length (wb_data cur)"
    using st(2) length_concat_const [of "map fst blocks" "unat ci"] st(1) by auto
  have k: "sf_seq fl \<le> length blocks" using st(3) by (simp add: pipe_inv_def)
  then show "sf_seq fl * unat ci \<le> length stream" using len by (simp add: mult.commute trans_le_add1)
  show "length stream mod unat ci = length (wb_data cur) mod unat ci" using len by simp
  have "\<forall>b \<in> set (map (sealed sum32 \<circ> fst) (take (sf_seq fl) blocks)). length b = unat ci + 4"
    using st(1) by (auto dest: in_set_takeD)
  from length_concat_const [OF this] show "length (sf_disk fl) = sf_seq fl * (unat ci + 4)"
    using st(3) k by (simp add: pipe_inv_def mult.commute min_def)
qed

lemma valueStoreFile_write_inv:
  assumes "file_inv sum32 ci stream mbs fl" "0 < unat ci"
  shows "\<exists>fl'. valueStoreFile_write n ci mb vs fl = Some (of_nat (length stream), fl') \<and>
    file_inv sum32 ci (stream @ vs) (mbs @ [mb]) fl' \<and> sf_id fl' = sf_id fl \<and>
    sf_nameTimestamp fl' = sf_nameTimestamp fl \<and> sf_disk fl' = sf_disk fl \<and>
    sf_stopped fl' = sf_stopped fl \<and> sf_seq fl' = sf_seq fl"
proof (cases "vs = []")
  case True
  then show ?thesis
    using assms(1) file_inv_free [OF assms(1)]
    by (auto simp: valueStoreFile_write_def file_inv_def)
next
  case False
  obtain cur where cur: "sf_cur fl = Some cur" "sf_writerOffset fl = of_nat (length stream)"
    using assms(1) by (auto simp: file_inv_def)
  then have "file_inv sum32 ci stream mbs (fl\<lparr>sf_cur := Some cur\<rparr>)" using assms(1) by (simp add: file_inv_def)
  from write_loop_inv [OF this assms(2), of vs] obtain fl1 cur1 where
    fl1: "write_loop (unat ci) cur vs fl = Some fl1" "sf_cur fl1 = Some cur1"
    "file_inv sum32 ci (stream @ vs) mbs fl1" "sf_disk fl1 = sf_disk fl"
    "sf_id fl1 = sf_id fl" "sf_nameTimestamp fl1 = sf_nameTimestamp fl"
    "sf_stopped fl1 = sf_stopped fl" "sf_seq fl1 = sf_seq fl" by blast
  let ?fl = "fl1\<lparr>sf_cur := Some (cur1\<lparr>wb_memBlocks := wb_memBlocks cur1 @ [mb]\<rparr>)\<rparr>"
  have "file_inv sum32 ci (stream @ vs) (mbs @ [mb]) ?fl"
    using fl1(2,3) unfolding file_inv_def by fastforce
  then show ?thesis
    using False cur fl1 file_inv_free [OF fl1(3)] by (simp add: valueStoreFile_write_def Let_def)
qed

section \<open>The terminator\<close>

lemma checksummed_sealed:
  assumes "\<forall>b \<in> set bs. length b = ci" "0 < ci" "rest \<noteq> []"
  shows "checksummed sum32 ci (concat bs @ rest) =
    concat (map (sealed sum32) bs) @ checksummed sum32 ci rest"
  using assms(1)
proof (induction bs)
  case (Cons b bs)
  then have "ci < length (concat (b # bs) @ rest)" using assms(3) by simp
  then show ?case
    using Cons assms(2) by (simp add: checksummed_block sealed_def)
qed simp

lemma term_loop_writes:
  assumes "length cur \<le> ci" "left \<noteq> []" "0 < ci"
  shows "term_loop sum32 ci (\<lambda>_. None) i cur left disk = (disk @ checksummed sum32 ci (cur @ left), None)"
  using assms
proof (induction sum32 ci "\<lambda>_ :: nat. None :: go_error option" i cur left disk rule: term_loop.induct)
  case (1 sum32 ci i cur left disk)
  let ?n = "min (ci - length cur) (length left)"
  show ?case
  proof (cases "drop ?n left = []")
    case True
    then have "length left \<le> ci - length cur" "?n = length left" by auto
    then show ?thesis
      using 1(2-) by (subst term_loop.simps, subst term_loop.simps) (simp add: Let_def checksummed_last)
  next
    case False
    then have n: "?n = ci - length cur" and gt: "ci < length (cur @ left)"
      using 1(2) by (auto simp: min_def split: if_splits)
    have "checksummed sum32 ci (cur @ left) =
        sealed sum32 (cur @ take ?n left) @ checksummed sum32 ci (drop ?n left)"
      using checksummed_block [OF 1(4) gt] 1(2) unfolding n by (simp add: sealed_def)
    moreover have "term_loop sum32 ci (\<lambda>_. None) i cur left disk =
        term_loop sum32 ci (\<lambda>_. None) (Suc i) [] (drop ?n left) (disk @ sealed sum32 (cur @ take ?n left))"
      using 1(3,4) False by (subst term_loop.simps) (simp add: Let_def)
    ultimately show ?thesis
      using 1(1) [OF _ refl refl refl refl] 1(3,4) False by simp
  qed
qed

section \<open>Executions\<close>

text \<open>
  What can happen to a file between its creation and \<open>closeWriting\<close>: writes of memory blocks,
  interleaved with the steps of the goroutines in any way, where \<open>werr\<close> says which writes to disk
  fail.  Each write is listed with its memory block, its values and the file offset it was given.
\<close>

inductive file_exec :: "template \<Rightarrow> (bytes \<Rightarrow> u32) \<Rightarrow> nat \<Rightarrow> (nat \<Rightarrow> bool) \<Rightarrow> u32 \<Rightarrow> valueStoreFile \<Rightarrow> (u32 \<times> bytes \<times> u32) list \<Rightarrow> bool"
  for T sum32 n werr ci where
  exec_start: "file_exec T sum32 n werr ci (writer_start T ci i ts) []"
| exec_pipe: "file_exec T sum32 n werr ci fl ws \<Longrightarrow> pipe_step sum32 n werr fl fl' \<Longrightarrow> file_exec T sum32 n werr ci fl' ws"
| exec_write: "file_exec T sum32 n werr ci fl ws \<Longrightarrow> valueStoreFile_write n ci mb vs fl = Some (off, fl') \<Longrightarrow>
    file_exec T sum32 n werr ci fl' (ws @ [(mb, vs, off)])"

abbreviation written :: "(u32 \<times> bytes \<times> u32) list \<Rightarrow> bytes" where
  "written ws \<equiv> concat (map (\<lambda>w. fst (snd w)) ws)"

lemma pipe_step_running:
  assumes "pipe_step sum32 n werr fl fl'" "None \<notin> set (sf_toDisk fl)" "\<not> sf_stopped fl" "\<And>k. \<not> werr k"
  shows "\<not> sf_stopped fl'"
  using assms(1)
  by (rule pipe_stepE) (use assms(2-4) in \<open>auto simp: writingChecksummer_recv_def
    writingChecksummer_send_def writer_iter_def Let_def split: if_splits list.splits option.splits\<close>)

lemma file_exec_inv:
  assumes "file_exec T sum32 n werr ci fl ws" "32 \<le> unat ci"
  shows "file_inv sum32 ci (value_head T ci @ written ws) (map fst ws) fl"
    and "k < length ws \<Longrightarrow> snd (snd (ws ! k)) = of_nat (32 + length (written (take k ws)))"
    and "(\<And>k. \<not> werr k) \<Longrightarrow> \<not> sf_stopped fl"
proof -
  have "file_inv sum32 ci (value_head T ci @ written ws) (map fst ws) fl \<and>
    (\<forall>k < length ws. snd (snd (ws ! k)) = of_nat (32 + length (written (take k ws)))) \<and>
    ((\<forall>k. \<not> werr k) \<longrightarrow> \<not> sf_stopped fl)"
    using assms(1)
  proof induction
    case (exec_start i ts)
    show ?case using file_inv_start [OF assms(2)] by (simp add: writer_start_def)
  next
    case (exec_pipe fl ws fl')
    then have "None \<notin> set (sf_toDisk fl)" by (auto simp: file_inv_def)
    then show ?case
      using exec_pipe file_inv_step [OF exec_pipe(2)] pipe_step_running [OF exec_pipe(2)] by simp
  next
    case (exec_write fl ws mb vs off fl')
    from exec_write(3) have "file_inv sum32 ci (value_head T ci @ written ws) (map fst ws) fl" by blast
    from valueStoreFile_write_inv [OF this, of n mb vs] exec_write assms(2) show ?case
      by (auto simp: nth_append less_Suc_eq)
  qed
  then show "file_inv sum32 ci (value_head T ci @ written ws) (map fst ws) fl"
    "k < length ws \<Longrightarrow> snd (snd (ws ! k)) = of_nat (32 + length (written (take k ws)))"
    "(\<And>k. \<not> werr k) \<Longrightarrow> \<not> sf_stopped fl"
    by blast+
qed

text \<open>Telling the writer to end, whatever the order in which the last buffers reach it.\<close>

lemma closing_start:
  assumes "pipe_inv sum32 blocks M fl" "\<not> sf_stopped fl" "None \<notin> set (sf_toDisk fl)" "\<not> sf_lastWasNil fl"
    "mset order = mset (sf_held fl @ sf_checksumChan fl)"
  shows "closing sum32 blocks M (fl\<lparr>sf_checksumChan := [], sf_held := [],
    sf_toDisk := sf_toDisk fl @ map (\<lambda>b. Some (b\<lparr>wb_data := sealed sum32 (wb_data b)\<rparr>)) order @ [None]\<rparr>)"
proof -
  have "List.map_filter id (map (\<lambda>b. Some (b\<lparr>wb_data := sealed sum32 (wb_data b)\<rparr>)) xs) =
      map (\<lambda>b. b\<lparr>wb_data := sealed sum32 (wb_data b)\<rparr>) xs" for xs :: "writeBuf list"
    by (simp add: List.map_filter_def comp_def)
  moreover have "count_list (map (\<lambda>b. Some (f b)) xs) None = 0" for f :: "writeBuf \<Rightarrow> writeBuf" and xs
    by (induction xs) auto
  ultimately show ?thesis
    using assms(1-4) arg_cong [OF assms(5), of "image_mset (\<lambda>b. (wb_seq b, sealed sum32 (wb_data b), wb_memBlocks b))"]
    by (simp add: closing_def pipe_inv_def outstanding_def count_list_0_iff comp_def ac_simps)
qed

lemma closeWriting_inv:
  assumes inv: "file_inv sum32 ci stream mbs fl" and run: "\<not> sf_stopped fl" and ci: "32 \<le> unat ci"
    and sched: "\<And>xs. mset (sched xs) = mset xs"
  shows "\<exists>fl'. closeWriting sum32 n (\<lambda>_. False) (\<lambda>_. None) None sched ci fl = Some (None, fl') \<and>
    sf_disk fl' = checksummed sum32 (unat ci) (stream @ term_block (unat ci)) \<and>
    mset (map snd (sf_freed fl')) = mset mbs \<and> sf_cur fl' = None \<and> sf_id fl' = sf_id fl \<and>
    sf_nameTimestamp fl' = sf_nameTimestamp fl \<and> sf_interval fl' = ci"
proof -
  obtain blocks cur M where st: "\<forall>b \<in> set blocks. length (fst b) = unat ci" "sf_cur fl = Some cur"
    "length (wb_data cur) \<le> unat ci" "concat (map fst blocks) @ wb_data cur = stream"
    "pipe_inv sum32 blocks M fl" "M + mset (wb_memBlocks cur) = mset mbs"
    "None \<notin> set (sf_toDisk fl)" "\<not> sf_lastWasNil fl" "sf_interval fl = ci"
    using inv by (auto simp: file_inv_def)
  from writer_run_ends [OF closing_start [OF st(5) run st(7,8) sched]]
  obtain fl1 where fl1: "writer_run n (\<lambda>_. False) (fl\<lparr>sf_checksumChan := [], sf_held := [],
      sf_toDisk := sf_toDisk fl @ map (\<lambda>b. Some (b\<lparr>wb_data := sealed sum32 (wb_data b)\<rparr>))
        (sched (sf_held fl @ sf_checksumChan fl)) @ [None]\<rparr>) = Some fl1"
    "pipe_inv sum32 blocks M fl1" "sf_seq fl1 = length blocks" by blast
  have same: "sf_id fl1 = sf_id fl" "sf_nameTimestamp fl1 = sf_nameTimestamp fl" "sf_interval fl1 = ci"
    using writer_run_keeps [OF fl1(1)] st(9) by (simp_all add: same_file_def)
  have disk: "sf_disk fl1 = concat (map (sealed sum32) (map fst blocks))"
    and freed: "mset (map snd (sf_freed fl1)) = M"
    using fl1(2,3) by (simp_all add: pipe_inv_def)
  have "length (term_block (unat ci)) = unat ci" using ci by simp
  then have ne: "term_block (unat ci) \<noteq> []" using ci by (metis list.size(3) not_numeral_le_zero)
  have "term_loop sum32 (unat ci) (\<lambda>_. None) 0 (wb_data cur) (term_block (unat ci)) (sf_disk fl1) =
      (checksummed sum32 (unat ci) (stream @ term_block (unat ci)), None)"
    using term_loop_writes [OF st(3) ne] checksummed_sealed [of "map fst blocks" "unat ci"
      "wb_data cur @ term_block (unat ci)" sum32] st(1,4) ci ne disk by auto
  then show ?thesis
    using st(2,6) fl1(1) same freed ci by (simp add: closeWriting_def Let_def)
qed

section \<open>Properties\<close>


lemma file_exec_example:
  "file_exec ValueStore sum32 2 werr 40 (snd (the (valueStoreFile_write 2 40 7 [1, 2, 3] (writer_start ValueStore 40 3 5)))) [(7, [1, 2, 3], 32)]"
  using exec_write [OF exec_start, of 2 40 7 "[1, 2, 3]" ValueStore 3 5 32 _ sum32 werr]
  by (simp add: valueStoreFile_write_def writer_start_def write_loop.simps)


text \<open>
  C14. At every moment before the file is closed, also when writes to disk fail, what is on disk is
  a prefix of the file that closing it would give: buffers are never written out of order.
\<close>

theorem disk_is_prefix:
  assumes "file_exec T sum32 n werr ci fl ws" "32 \<le> unat ci"
  shows "\<exists>rest. checksummed sum32 (unat ci) (value_head T ci @ written ws @ term_block (unat ci)) = sf_disk fl @ rest"
proof -
  obtain blocks and cur :: writeBuf and M where st: "\<forall>b \<in> set blocks. length (fst b) = unat ci"
    "concat (map fst blocks) @ wb_data cur = value_head T ci @ written ws" "pipe_inv sum32 blocks M fl"
    using file_exec_inv(1) [OF assms] by (auto simp: file_inv_def)
  let ?rest = "wb_data cur @ term_block (unat ci)"
  have "length (term_block (unat ci)) \<noteq> 0" using assms(2) by simp
  then have "?rest \<noteq> []" by (metis append_is_Nil_conv length_0_conv)
  then have "checksummed sum32 (unat ci) (concat (map fst blocks) @ ?rest) =
      concat (map (sealed sum32) (map fst blocks)) @ checksummed sum32 (unat ci) ?rest"
    using assms(2) st(1) by (intro checksummed_sealed) simp_all
  moreover have "map (sealed sum32) (map fst blocks) =
      map (sealed sum32 \<circ> fst) (take (sf_seq fl) blocks) @ map (sealed sum32 \<circ> fst) (drop (sf_seq fl) blocks)"
    by (simp flip: map_append)
  ultimately show ?thesis
    using st(2,3) unfolding pipe_inv_def by (metis append.assoc concat_append)
qed

theorem disk_is_prefix_witness:
  "\<exists>rest. checksummed (\<lambda>_. 9) (unat (40 :: u32)) (value_head ValueStore 40 @ written [] @ term_block (unat (40 :: u32))) =
     sf_disk (writer_start ValueStore 40 3 5) @ rest"
  using disk_is_prefix [OF exec_start [of ValueStore "\<lambda>_. 9" 2 "\<lambda>_. True" 40 3 5]] by simp

text \<open>
  C13. A value written to a file can be read back from it once it is closed: at the file offset that
  \<open>write\<close> gave its memory block plus its place in the block, for every reader that returns bytes under
  intact checksums.
\<close>

theorem written_value_read_back:
  assumes "checksummed_reader sum32 rd" "file_exec T sum32 n (\<lambda>_. False) ci fl ws" "32 \<le> unat ci"
    "\<And>xs. mset (sched xs) = mset xs" "k < length ws" "ws ! k = (mb, vs, off)"
    "32 + length (written ws) < 2 ^ 32" "unat i + unat len \<le> length vs"
    "timestampbits AND TSB_DELETION = 0"
  shows "\<exists>fl'. closeWriting sum32 n (\<lambda>_. False) (\<lambda>_. None) None sched ci fl = Some (None, fl') \<and>
    valueStoreFile_read rd ci fl' timestampbits (off + i) len val =
      (timestampbits, val @ take (unat len) (drop (unat i) vs), None)"
proof -
  note inv = file_exec_inv [OF assms(2,3)]
  have "\<not> sf_stopped fl" by (rule inv(3)) simp
  from closeWriting_inv [OF inv(1) this assms(3,4), of n]
  obtain fl' where fl': "closeWriting sum32 n (\<lambda>_. False) (\<lambda>_. None) None sched ci fl = Some (None, fl')"
    "sf_disk fl' = checksummed sum32 (unat ci) ((value_head T ci @ written ws) @ term_block (unat ci))" by blast
  let ?pre = "value_head T ci @ written (take k ws)" and ?post = "written (drop (Suc k) ws) @ term_block (unat ci)"
  have "written ws = written (take k ws) @ vs @ written (drop (Suc k) ws)"
    using id_take_nth_drop [OF assms(5)] assms(6) by (metis (no_types, lifting) concat.simps(2) concat_append fst_conv list.simps(9) map_append snd_conv)
  then have disk: "sf_disk fl' = checksummed sum32 (unat ci) (?pre @ vs @ ?post)"
    and total: "length ?pre + length vs < 2 ^ 32"
    using fl'(2) assms(7) by simp_all
  have lt: "length ?pre < 2 ^ 32" using total by linarith
  have "off = of_nat (length ?pre)" using inv(2) [OF assms(5)] assms(6) by simp
  then have "unat off = length ?pre" using unat_of_nat_small32 [OF lt] by (simp only:)
  then have "unat (off + i) = length ?pre + unat i"
    using unat_add_small32 [of off i] total assms(8) by simp
  from checksummed_reader.read_closed [OF assms(1) disk _ this assms(8) _ assms(9), of val] fl'(1) show ?thesis
    using assms(3) by simp
qed

theorem written_value_read_back_witness:
  "\<exists>fl'. closeWriting (\<lambda>_. 9) 2 (\<lambda>_. False) (\<lambda>_. None) None rev 40
      (snd (the (valueStoreFile_write 2 40 7 [1, 2, 3] (writer_start ValueStore 40 3 5)))) = Some (None, fl') \<and>
    valueStoreFile_read (block_read (\<lambda>_. 9)) 40 fl' 0x300 (32 + 1) 2 [] =
      (0x300, [] @ take (unat (2 :: u32)) (drop (unat (1 :: u32)) [1, 2, 3]), None)"
  using written_value_read_back [OF block_reader.checksummed_reader_axioms file_exec_example,
      of rev 0 7 "[1, 2, 3]" 32 1 2 "0x300" "\<lambda>_. 9" "[]"]
  by (simp add: TSB_DELETION_def)

text \<open>
  When the values of a memory block end exactly at a checksum interval, \<open>write\<close> hands the block
  to the memory clearers at once, although the buffer that holds its last bytes was only just queued:
  the clearer may redirect readers to the file before these bytes are on disk.
\<close>

theorem write_hands_on_before_disk:
  assumes "file_exec T sum32 n werr ci fl ws" "32 \<le> unat ci" "vs \<noteq> []"
    "(32 + length (written ws) + length vs) mod unat ci = 0"
  shows "\<exists>off fl'. valueStoreFile_write n ci mb vs fl = Some (off, fl') \<and>
    mb \<in> snd ` set (sf_freed fl') \<and> sf_disk fl' = sf_disk fl \<and>
    length (sf_disk fl') = sf_seq fl' * (unat ci + 4) \<and> sf_seq fl' * unat ci < 32 + length (written ws) + length vs"
proof -
  let ?stream = "value_head T ci @ written ws"
  note inv = file_exec_inv(1) [OF assms(1,2)]
  have pos: "0 < unat ci" using assms(2) by simp
  obtain cur where cur: "sf_cur fl = Some cur" using inv by (auto simp: file_inv_def)
  then have "file_inv sum32 ci ?stream (map fst ws) (fl\<lparr>sf_cur := Some cur\<rparr>)" using inv by (simp add: file_inv_def)
  from write_loop_inv [OF this pos, of vs] obtain fl1 cur1 where
    fl1: "write_loop (unat ci) cur vs fl = Some fl1" "sf_cur fl1 = Some cur1"
    "file_inv sum32 ci (?stream @ vs) (map fst ws) fl1" "sf_disk fl1 = sf_disk fl" "sf_seq fl1 = sf_seq fl" by blast
  have "(32 + length (written ws) + length vs) mod unat ci = length (wb_data cur1) mod unat ci"
    using file_inv_blocks(2) [OF fl1(3,2)] by (simp add: add.assoc)
  then have "wb_data cur1 = []"
    using write_loop_room [OF fl1(1,2)] assms(3,4) by simp
  then have "valueStoreFile_write n ci mb vs fl = Some (sf_writerOffset fl, freeMemBlock n fl1 mb)"
    using cur fl1 assms(3) by (simp add: valueStoreFile_write_def Let_def)
  moreover have "sf_seq fl * unat ci < 32 + length (written ws) + length vs"
    using file_inv_blocks(1) [OF inv cur] assms(3) by (cases vs) auto
  ultimately show ?thesis
    using fl1 file_inv_blocks(3) [OF inv cur] by (auto simp: freeMemBlock_def)
qed

theorem write_hands_on_before_disk_witness:
  "\<exists>off fl'. valueStoreFile_write 2 40 7 [1, 2, 3, 4, 5, 6, 7, 8] (writer_start ValueStore 40 3 5) = Some (off, fl') \<and>
    7 \<in> snd ` set (sf_freed fl') \<and> sf_disk fl' = sf_disk (writer_start ValueStore 40 3 5) \<and>
    length (sf_disk fl') = sf_seq fl' * (unat (40 :: u32) + 4) \<and>
    sf_seq fl' * unat (40 :: u32) < 32 + length (written []) + length [1, 2, 3, 4, 5, 6, 7, 8 :: u8]"
  using write_hands_on_before_disk [OF exec_start [of ValueStore "\<lambda>_. 9" 2 "\<lambda>_. False" 40 3 5], of "[1, 2, 3, 4, 5, 6, 7, 8]" 7]
  by (simp add: writer_start_def)

end
