(* ===== verification/LocMap.thy ===== *)
theory LocMap
  imports Layout
begin

unbundle bit_operations_syntax

text \<open>
  The interface of the location map, \<open>github.com/gholt/locmap\<close>.  Its code is not part
  of the repository, so the store is modelled over a record of its operations and what the store
  relies on is the locale \<open>locmap_contract\<close>, one law per sentence of that package's documentation.
  A key is \<open>keyA\<close> with the rest of it, of type \<open>'b\<close> (theory \<open>Layout\<close>): the interfaces
  \<open>ValueLocMap\<close> and \<open>GroupLocMap\<close> differ in that type only.
  A location is \<open>(timestampbits, blockID, offset, length)\<close>; a key the map does not hold gives four
  zeros.  The association-list map at the end satisfies the contract, so it can be met.
\<close>

type_synonym 'b key = "u64 \<times> 'b"
type_synonym loc = "u64 \<times> u32 \<times> u32 \<times> u32"
type_synonym 'b scan_item = "u64 \<times> 'b \<times> u64 \<times> u32"

abbreviation loc_none :: loc where
  "loc_none \<equiv> (0, 0, 0, 0)"

text \<open>
  \<open>lm_ScanCallback\<close> gives the items in the order of the callbacks, the key the scan stopped at and
  whether there may be more; a caller whose callback can return false takes a prefix of the items.
\<close>

record ('m, 'b) locmap_ops =
  lm_Get :: "'m \<Rightarrow> u64 \<Rightarrow> 'b \<Rightarrow> loc"
  lm_Set :: "'m \<Rightarrow> u64 \<Rightarrow> 'b \<Rightarrow> u64 \<Rightarrow> u32 \<Rightarrow> u32 \<Rightarrow> u32 \<Rightarrow> bool \<Rightarrow> u64 \<times> 'm"
  lm_Discard :: "'m \<Rightarrow> u64 \<Rightarrow> u64 \<Rightarrow> u64 \<Rightarrow> 'm"
  lm_ScanCallback :: "'m \<Rightarrow> u64 \<Rightarrow> u64 \<Rightarrow> u64 \<Rightarrow> u64 \<Rightarrow> u64 \<Rightarrow> u64 \<Rightarrow> 'b scan_item list \<times> u64 \<times> bool"
  lm_Clear :: "'m \<Rightarrow> 'm"

definition set_accepts :: "u64 \<Rightarrow> u64 \<Rightarrow> bool \<Rightarrow> bool" where
  "set_accepts prev ts same \<longleftrightarrow> prev < ts \<or> (same \<and> prev = ts)"

definition scan_match :: "u64 \<Rightarrow> u64 \<Rightarrow> u64 \<Rightarrow> u64 \<Rightarrow> bool" where
  "scan_match msk nmsk cutoff ts \<longleftrightarrow>
     (msk = 0 \<or> ts AND msk \<noteq> 0) \<and> ts AND nmsk = 0 \<and> ts \<le> cutoff"

lemma set_accepts_newer:
  assumes "ts1 < ts2"
  shows "set_accepts prev ts1 same1 \<Longrightarrow> set_accepts prev ts2 same2"
    and "set_accepts ts1 ts2 same" and "\<not> set_accepts ts2 ts1 same"
  using assms by (auto simp: set_accepts_def)

section \<open>The contract\<close>

locale locmap_contract =
  fixes L :: "('m, 'b) locmap_ops"
  assumes Set_prev: "fst (lm_Set L m a b ts i off len same) = fst (lm_Get L m a b)"
    and Set_get: "ts \<noteq> 0 \<Longrightarrow>
      lm_Get L (snd (lm_Set L m a b ts i off len same)) a' b' =
        (if a' = a \<and> b' = b \<and> set_accepts (fst (lm_Get L m a b)) ts same
         then (if i = 0 then loc_none else (ts, i, off, len))
         else lm_Get L m a' b')"
    and Get_missing: "fst (snd (lm_Get L m a b)) = 0 \<Longrightarrow> lm_Get L m a b = loc_none"
    and Discard_get: "lm_Get L (lm_Discard L m start stop msk) a b =
        (if start \<le> a \<and> a \<le> stop \<and> fst (lm_Get L m a b) AND msk \<noteq> 0
         then loc_none else lm_Get L m a b)"
    and Clear_get: "lm_Get L (lm_Clear L m) a b = loc_none"
    and Scan_sound: "lm_ScanCallback L m start stop msk nmsk cutoff mx = (items, at, again) \<Longrightarrow>
        (a, b, ts, len) \<in> set items \<Longrightarrow>
        start \<le> a \<and> a \<le> stop \<and> scan_match msk nmsk cutoff ts \<and>
        (\<exists>i off. lm_Get L m a b = (ts, i, off, len) \<and> i \<noteq> 0)"
    and Scan_complete: "lm_ScanCallback L m start stop msk nmsk cutoff mx = (items, at, again) \<Longrightarrow>
        lm_Get L m a b = (ts, i, off, len) \<Longrightarrow> i \<noteq> 0 \<Longrightarrow> start \<le> a \<Longrightarrow> a \<le> stop \<Longrightarrow>
        scan_match msk nmsk cutoff ts \<Longrightarrow> again \<longrightarrow> a < at \<Longrightarrow> (a, b, ts, len) \<in> set items"
    and Scan_max: "lm_ScanCallback L m start stop msk nmsk cutoff mx = (items, at, again) \<Longrightarrow>
        length items \<le> unat mx"
    and Scan_stops: "lm_ScanCallback L m start stop msk nmsk cutoff mx = (items, at, again) \<Longrightarrow>
        again \<Longrightarrow> start \<le> at \<and> at \<le> stop"
begin

text \<open>A location never goes back in time, unless it is removed.\<close>

lemma Set_mono:
  "ts \<noteq> 0 \<Longrightarrow> i \<noteq> 0 \<Longrightarrow>
   fst (lm_Get L m a b) \<le> fst (lm_Get L (snd (lm_Set L m a' b' ts i off len same)) a b)"
  by (auto simp: Set_get set_accepts_def)

lemma Set_other:
  "ts \<noteq> 0 \<Longrightarrow> (a', b') \<noteq> (a, b) \<Longrightarrow>
   lm_Get L (snd (lm_Set L m a b ts i off len same)) a' b' = lm_Get L m a' b'"
  by (auto simp: Set_get)

text \<open>Two updates with different timestamps commute: the newest one wins in either order.\<close>

lemma Set_Set_newer:
  assumes "ts1 \<noteq> 0" "ts2 \<noteq> 0" "i1 \<noteq> 0" "i2 \<noteq> 0" "ts1 < ts2"
  shows "lm_Get L (snd (lm_Set L (snd (lm_Set L m a b ts1 i1 o1 l1 s1)) a b ts2 i2 o2 l2 s2)) a b
      = (if set_accepts (fst (lm_Get L m a b)) ts2 s2 then (ts2, i2, o2, l2) else lm_Get L m a b)"
    and "lm_Get L (snd (lm_Set L (snd (lm_Set L m a b ts2 i2 o2 l2 s2)) a b ts1 i1 o1 l1 s1)) a b
      = (if set_accepts (fst (lm_Get L m a b)) ts2 s2 then (ts2, i2, o2, l2) else lm_Get L m a b)"
  using assms(1-4) set_accepts_newer [OF assms(5)] by (simp_all add: Set_get)

lemma Set_commute:
  assumes "ts1 \<noteq> 0" "ts2 \<noteq> 0" "i1 \<noteq> 0" "i2 \<noteq> 0" "(a1, b1) \<noteq> (a2, b2) \<or> ts1 \<noteq> ts2"
  shows "lm_Get L (snd (lm_Set L (snd (lm_Set L m a1 b1 ts1 i1 o1 l1 s1)) a2 b2 ts2 i2 o2 l2 s2)) a b
    = lm_Get L (snd (lm_Set L (snd (lm_Set L m a2 b2 ts2 i2 o2 l2 s2)) a1 b1 ts1 i1 o1 l1 s1)) a b"
proof -
  consider (none) "(a, b) \<noteq> (a1, b1)" "(a, b) \<noteq> (a2, b2)"
    | (first) "(a, b) = (a1, b1)" "(a1, b1) \<noteq> (a2, b2)"
    | (second) "(a, b) = (a2, b2)" "(a2, b2) \<noteq> (a1, b1)"
    | (older) "(a, b) = (a1, b1)" "(a1, b1) = (a2, b2)" "ts1 < ts2"
    | (newer) "(a, b) = (a1, b1)" "(a1, b1) = (a2, b2)" "ts2 < ts1"
    using assms(5) by (metis neq_iff)
  then show ?thesis
  proof cases
    case none
    then show ?thesis
      using assms(1,2) by (simp only: Set_other not_False_eq_True)
  next
    case first
    then show ?thesis
      using Set_get [OF assms(1)] Set_other [OF assms(2) first(2)] by simp
  next
    case second
    then show ?thesis
      using Set_get [OF assms(2)] Set_other [OF assms(1) second(2)] by simp
  next
    case older
    then show ?thesis
      using assms(1-4) by (simp add: Set_Set_newer)
  next
    case newer
    then show ?thesis
      using assms(1-4) by (simp add: Set_Set_newer)
  qed
qed

end

section \<open>An implementation of the contract\<close>

type_synonym 'b alm = "('b key \<times> loc) list"

definition alm_Get :: "'b alm \<Rightarrow> u64 \<Rightarrow> 'b \<Rightarrow> loc" where
  "alm_Get m a b = (case map_of m (a, b) of None \<Rightarrow> loc_none
     | Some l \<Rightarrow> if fst (snd l) = 0 then loc_none else l)"

definition alm_Set ::
  "'b alm \<Rightarrow> u64 \<Rightarrow> 'b \<Rightarrow> u64 \<Rightarrow> u32 \<Rightarrow> u32 \<Rightarrow> u32 \<Rightarrow> bool \<Rightarrow> u64 \<times> 'b alm" where
  "alm_Set m a b ts i off len same =
     (let prev = fst (alm_Get m a b);
          rest = filter (\<lambda>e. fst e \<noteq> (a, b)) m
      in (prev, if set_accepts prev ts same
                then (if i = 0 then rest else ((a, b), (ts, i, off, len)) # rest) else m))"

definition alm_Discard :: "'b alm \<Rightarrow> u64 \<Rightarrow> u64 \<Rightarrow> u64 \<Rightarrow> 'b alm" where
  "alm_Discard m start stop msk =
     filter (\<lambda>((a, b), _). \<not> (start \<le> a \<and> a \<le> stop \<and> fst (alm_Get m a b) AND msk \<noteq> 0)) m"

definition alm_items :: "'b alm \<Rightarrow> u64 \<Rightarrow> u64 \<Rightarrow> u64 \<Rightarrow> u64 \<Rightarrow> u64 \<Rightarrow> 'b scan_item list" where
  "alm_items m start stop msk nmsk cutoff =
     [(a, b, ts, len). (a, b) \<leftarrow> sort_key fst (remdups (map fst m)),
        (ts, i, off, len) \<leftarrow> [alm_Get m a b],
        i \<noteq> 0 \<and> start \<le> a \<and> a \<le> stop \<and> scan_match msk nmsk cutoff ts]"

definition alm_ScanCallback ::
  "'b alm \<Rightarrow> u64 \<Rightarrow> u64 \<Rightarrow> u64 \<Rightarrow> u64 \<Rightarrow> u64 \<Rightarrow> u64 \<Rightarrow> 'b scan_item list \<times> u64 \<times> bool" where
  "alm_ScanCallback m start stop msk nmsk cutoff mx =
     (let items = alm_items m start stop msk nmsk cutoff
      in if length items \<le> unat mx then (items, stop, False)
         else (take (unat mx) items, fst (items ! unat mx), True))"

definition alm_ops :: "('b alm, 'b) locmap_ops" where
  "alm_ops = \<lparr>lm_Get = alm_Get, lm_Set = alm_Set, lm_Discard = alm_Discard,
     lm_ScanCallback = alm_ScanCallback, lm_Clear = (\<lambda>_. [])\<rparr>"

lemma map_of_filter_key:
  "map_of (filter (\<lambda>e. P (fst e)) m) k = (if P k then map_of m k else None)"
  by (induction m) auto

lemma alm_Set_get:
  "ts \<noteq> 0 \<Longrightarrow> alm_Get (snd (alm_Set m a b ts i off len same)) a' b' =
     (if a' = a \<and> b' = b \<and> set_accepts (fst (alm_Get m a b)) ts same
      then (if i = 0 then loc_none else (ts, i, off, len)) else alm_Get m a' b')"
  using map_of_filter_key [of "\<lambda>k. k \<noteq> (a, b)" m]
  by (auto simp: alm_Get_def alm_Set_def Let_def)

lemma alm_Discard_get:
  "alm_Get (alm_Discard m start stop msk) a b =
     (if start \<le> a \<and> a \<le> stop \<and> fst (alm_Get m a b) AND msk \<noteq> 0 then loc_none else alm_Get m a b)"
proof -
  have "map_of (alm_Discard m start stop msk) (a, b) =
      (if start \<le> a \<and> a \<le> stop \<and> fst (alm_Get m a b) AND msk \<noteq> 0 then None else map_of m (a, b))"
    using map_of_filter_key [of "\<lambda>(a, b). \<not> (start \<le> a \<and> a \<le> stop \<and> fst (alm_Get m a b) AND msk \<noteq> 0)" m "(a, b)"]
    by (simp add: alm_Discard_def case_prod_unfold split: if_splits)
  then show ?thesis
    by (simp add: alm_Get_def)
qed

lemma set_alm_items:
  "(a, b, ts, len) \<in> set (alm_items m start stop msk nmsk cutoff) \<longleftrightarrow>
     start \<le> a \<and> a \<le> stop \<and> scan_match msk nmsk cutoff ts \<and>
     (\<exists>i off. alm_Get m a b = (ts, i, off, len) \<and> i \<noteq> 0)"
proof -
  have "alm_Get m a b = (ts, i, off, len) \<Longrightarrow> i \<noteq> 0 \<Longrightarrow> (a, b) \<in> fst ` set m" for i off
    using map_of_eq_None_iff [of m "(a, b)"] by (auto simp: alm_Get_def split: option.splits)
  then show ?thesis
    by (auto simp: alm_items_def) (metis)+
qed

lemma sorted_alm_items:
  fixes m :: "'b alm"
  shows "sorted (map fst (alm_items m start stop msk nmsk cutoff))"
proof -
  have "sorted (map fst [(a, b, ts, len). (a, b) \<leftarrow> ks, (ts, i, off, len) \<leftarrow> [alm_Get m a b],
        i \<noteq> 0 \<and> start \<le> a \<and> a \<le> stop \<and> scan_match msk nmsk cutoff ts])"
    if "sorted (map fst ks)" for ks :: "'b key list"
    using that by (induction ks) (auto simp: sorted_append split: prod.splits)
  then show ?thesis
    unfolding alm_items_def by simp
qed

lemma sorted_key_before:
  assumes "sorted (map f xs)" "x \<in> set xs" "n < length xs" "f x < f (xs ! n)"
  shows "x \<in> set (take n xs)"
proof -
  obtain k where k: "k < length xs" "x = xs ! k"
    using assms(2) by (auto simp: in_set_conv_nth)
  then have "k < n"
    using assms sorted_nth_mono [of "map f xs" n k] by (auto simp: not_less [symmetric])
  with k show ?thesis
    by (auto simp: in_set_conv_nth intro!: exI [of _ k])
qed

interpretation alm: locmap_contract alm_ops
proof unfold_locales
  fix m a b ts i off len same a' b' start stop msk nmsk cutoff mx items at again
  show "fst (lm_Set alm_ops m a b ts i off len same) = fst (lm_Get alm_ops m a b)"
    by (simp add: alm_ops_def alm_Set_def Let_def)
  show "fst (snd (lm_Get alm_ops m a b)) = 0 \<Longrightarrow> lm_Get alm_ops m a b = loc_none"
    by (auto simp: alm_ops_def alm_Get_def split: option.splits if_splits)
  show "lm_Get alm_ops (lm_Clear alm_ops m) a b = loc_none"
    by (simp add: alm_ops_def alm_Get_def)
  show "ts \<noteq> 0 \<Longrightarrow> lm_Get alm_ops (snd (lm_Set alm_ops m a b ts i off len same)) a' b' =
      (if a' = a \<and> b' = b \<and> set_accepts (fst (lm_Get alm_ops m a b)) ts same
       then (if i = 0 then loc_none else (ts, i, off, len)) else lm_Get alm_ops m a' b')"
    by (simp add: alm_ops_def alm_Set_get)
  show "lm_Get alm_ops (lm_Discard alm_ops m start stop msk) a b =
      (if start \<le> a \<and> a \<le> stop \<and> fst (lm_Get alm_ops m a b) AND msk \<noteq> 0
       then loc_none else lm_Get alm_ops m a b)"
    by (simp add: alm_ops_def alm_Discard_get)
  assume scan: "lm_ScanCallback alm_ops m start stop msk nmsk cutoff mx = (items, at, again)"
  let ?all = "alm_items m start stop msk nmsk cutoff"
  have sub: "set items \<subseteq> set ?all" and len: "length items \<le> unat mx"
    using scan by (auto simp: alm_ops_def alm_ScanCallback_def Let_def split: if_splits
        dest: in_set_takeD)
  show "length items \<le> unat mx" by (rule len)
  show "start \<le> at \<and> at \<le> stop" if again
  proof -
    have "unat mx < length ?all" "at = fst (?all ! unat mx)"
      using scan that by (auto simp: alm_ops_def alm_ScanCallback_def Let_def split: if_splits)
    moreover from this(1) have "?all ! unat mx \<in> set ?all" by (rule nth_mem)
    moreover obtain x y t l where "?all ! unat mx = (x, y, t, l)" by (metis prod_cases4)
    ultimately show ?thesis by (simp add: set_alm_items)
  qed
  show "(a, b, ts, len) \<in> set items \<Longrightarrow> start \<le> a \<and> a \<le> stop \<and> scan_match msk nmsk cutoff ts \<and>
      (\<exists>i off. lm_Get alm_ops m a b = (ts, i, off, len) \<and> i \<noteq> 0)"
    using sub by (auto simp: alm_ops_def set_alm_items)
  assume "lm_Get alm_ops m a b = (ts, i, off, len)" "i \<noteq> 0" "start \<le> a" "a \<le> stop"
    "scan_match msk nmsk cutoff ts" and before: "again \<longrightarrow> a < at"
  then have all: "(a, b, ts, len) \<in> set ?all"
    by (auto simp: alm_ops_def set_alm_items)
  show "(a, b, ts, len) \<in> set items"
    using scan before all sorted_key_before [OF sorted_alm_items all, of "unat mx"]
    by (auto simp: alm_ops_def alm_ScanCallback_def Let_def split: if_splits)
qed

end
