(* ===== verification/Store.thy ===== *)
theory Store
  imports StoreFile LocMap
begin

unbundle bit_operations_syntax

text \<open>
  The state of \<open>defaultValueStore\<close> (\<open>src/valuestore_GEN_.go\<close>) with its location blocks
  (\<open>src/valuememblock_GEN_.go\<close>), over a layout of keys, so that it is the state of \<open>defaultGroupStore\<close>
  too, and the operations clients call: \<open>Lookup\<close>, \<open>Read\<close>, \<open>Write\<close>,
  \<open>Delete\<close>, \<open>EnableWrites\<close>, \<open>DisableWrites\<close> and \<open>Flush\<close>, with the \<open>memWriter\<close> that serves the write
  requests.  A pointer to a memory block is the number of its location block; a channel is the list
  of what was sent and not yet received.  The other workers are in \<open>StoreWorkers\<close>.
\<close>

section \<open>Results of one turn of a goroutine\<close>

datatype 'a outcome = Done 'a | Blocked | Panic

fun bind_outcome :: "'a outcome \<Rightarrow> ('a \<Rightarrow> 'b outcome) \<Rightarrow> 'b outcome" where
  "bind_outcome (Done x) f = f x"
| "bind_outcome Blocked f = Blocked"
| "bind_outcome Panic f = Panic"

lemma bind_outcome_DoneE:
  assumes "bind_outcome x f = Done y"
  obtains z where "x = Done z" "f z = Done y"
  using assms by (cases x) auto

section \<open>Location blocks\<close>

record valueMemBlock =
  mb_id :: u32
  mb_fileID :: u32
  mb_fileOffset :: u32
  mb_toc :: bytes
  mb_values :: bytes

datatype valueLocBlock = MemBlock valueMemBlock | FileBlock valueStoreFile

definition MaxInt64 :: i64 where "MaxInt64 = drop_bit 1 (- 1)"

definition MaxUint16 :: nat where "MaxUint16 = 65535"

fun timestampnano :: "valueLocBlock \<Rightarrow> i64" where
  "timestampnano (MemBlock m) = MaxInt64"
| "timestampnano (FileBlock fl) = sf_nameTimestamp fl"

section \<open>Messages\<close>

record 'b valueWriteReq =
  wr_keyA :: u64
  wr_keyB :: 'b
  wr_timestampbits :: u64
  wr_value :: bytes
  wr_internal :: bool

datatype 'b writeMsg = WriteReq "'b valueWriteReq" | EnableReq | DisableReq | FlushReq | ShutdownReq

datatype memMsg = MB u32 | FlushMB | ShutdownMB

datatype tocMsg = TB bytes | FlushTB | ShutdownTB

section \<open>The state\<close>

text \<open>The resolved configuration the store keeps, with the layout of its keys.\<close>

record 'b store_cfg =
  c_layout :: "'b layout"
  c_workers :: nat
  c_recoveryBatchSize :: nat
  c_valueCap :: u32
  c_pageSize :: u32
  c_minValueAlloc :: nat
  c_writePagesPerWorker :: nat
  c_fileCap :: u32
  c_fileReaders :: nat
  c_checksumInterval :: u32
  c_replicationIgnoreRecent :: u64

text \<open>The locals of one \<open>memWriter\<close>, of one \<open>memClearer\<close>, of \<open>fileWriter\<close> and of \<open>tocWriter\<close>.\<close>

record memWriterState =
  mw_enabled :: bool
  mw_block :: "u32 option"
  mw_tocOffset :: nat
  mw_memOffset :: nat
  mw_running :: bool

text \<open>
  \<open>mc_cur\<close> is the block being cleared with its TOC offset; \<open>mc_tb\<close> is \<open>tb.data\<close>, whose length is
  \<open>tbOffset\<close>.
\<close>

record memClearerState =
  mc_cur :: "(u32 \<times> nat) option"
  mc_tb :: "bytes option"
  mc_tbTS :: i64
  mc_running :: bool

record fileWriterState =
  fw_fl :: "u32 option"
  fw_flushLeft :: nat
  fw_shutdownLeft :: nat
  fw_tocLen :: u64
  fw_valueLen :: u64
  fw_disabled :: "go_error option"
  fw_index :: nat
  fw_running :: bool

text \<open>A TOC file is known by the timestamp in its name.\<close>

record tocWriterState =
  tw_flushLeft :: nat
  tw_shutdownLeft :: nat
  tw_writerA :: "u64 option"
  tw_offsetA :: u64
  tw_writerB :: "u64 option"
  tw_offsetB :: u64
  tw_disabled :: bool
  tw_running :: bool

text \<open>The counters of the store, \<open>int32\<close> unless they count nanoseconds; the last six only a group store has.\<close>

record valueCounters =
  ct_lookups :: u32
  ct_lookupErrors :: u32
  ct_reads :: u32
  ct_readErrors :: u32
  ct_writes :: u32
  ct_writeErrors :: u32
  ct_writesOverridden :: u32
  ct_deletes :: u32
  ct_deleteErrors :: u32
  ct_deletesOverridden :: u32
  ct_outBulkSets :: u32
  ct_outBulkSetValues :: u32
  ct_outBulkSetPushes :: u32
  ct_outBulkSetPushValues :: u32
  ct_outPushReplicationNanoseconds :: i64
  ct_inBulkSets :: u32
  ct_inBulkSetDrops :: u32
  ct_inBulkSetInvalids :: u32
  ct_inBulkSetWrites :: u32
  ct_inBulkSetWriteErrors :: u32
  ct_inBulkSetWritesOverridden :: u32
  ct_outBulkSetAcks :: u32
  ct_inBulkSetAcks :: u32
  ct_inBulkSetAckDrops :: u32
  ct_inBulkSetAckInvalids :: u32
  ct_inBulkSetAckWrites :: u32
  ct_inBulkSetAckWriteErrors :: u32
  ct_inBulkSetAckWritesOverridden :: u32
  ct_outPullReplications :: u32
  ct_outPullReplicationNanoseconds :: i64
  ct_inPullReplications :: u32
  ct_inPullReplicationDrops :: u32
  ct_inPullReplicationInvalids :: u32
  ct_expiredDeletions :: u32
  ct_tombstoneDiscardNanoseconds :: i64
  ct_compactionNanoseconds :: i64
  ct_compactions :: u32
  ct_smallFileCompactions :: u32
  ct_auditNanoseconds :: i64
  ct_modifications :: u32
  ct_lookupGroups :: u32
  ct_lookupGroupItems :: u32
  ct_lookupGroupErrors :: u32
  ct_readGroups :: u32
  ct_readGroupItems :: u32
  ct_readGroupErrors :: u32

text \<open>
  \<open>st_locBlocks\<close> is the slice of length \<open>math.MaxUint16\<close> (\<open>None\<close> for nil); \<open>st_tocFiles\<close> is what was
  written to the TOC files; \<open>st_flushed\<close> and \<open>st_shutdown\<close> count the tokens in \<open>flushedChan\<close> and
  \<open>shutdownChan\<close>; \<open>st_restarts\<close> what was sent on \<open>restartChan\<close>.
\<close>

record 'm valueStore =
  st_running :: nat
  st_locmap :: 'm
  st_locBlocks :: "nat \<Rightarrow> valueLocBlock option"
  st_locBlockIDer :: u64
  st_freeMemBlockChan :: "u32 list"
  st_fileMemBlockChan :: "memMsg list"
  st_freeableMemBlockChans :: "memMsg list list"
  st_freeTOCBlocks :: nat
  st_pendingTOCBlockChan :: "tocMsg list"
  st_activeTOCA :: u64
  st_activeTOCB :: u64
  st_flushed :: nat
  st_shutdown :: nat
  st_readOnly :: bool
  st_userDisabled :: bool
  st_memWriters :: "memWriterState list"
  st_memClearers :: "memClearerState list"
  st_fileWriter :: fileWriterState
  st_tocWriter :: tocWriterState
  st_tocFiles :: "u64 \<Rightarrow> bytes option"
  st_counters :: valueCounters
  st_restarts :: "go_error list"

definition tally :: "(valueCounters \<Rightarrow> valueCounters) \<Rightarrow> 'm valueStore \<Rightarrow> 'm valueStore" where
  "tally f s = s\<lparr>st_counters := f (st_counters s)\<rparr>"

section \<open>Location blocks of the store\<close>

definition set_locBlock :: "u32 \<Rightarrow> valueLocBlock \<Rightarrow> 'm valueStore \<Rightarrow> 'm valueStore" where
  "set_locBlock i blk s = s\<lparr>st_locBlocks := (st_locBlocks s)(unat i := Some blk)\<rparr>"

text \<open>Indexing past the slice panics.\<close>

definition locBlock :: "u32 \<Rightarrow> 'm valueStore \<Rightarrow> valueLocBlock option outcome" where
  "locBlock i s = (if unat i < MaxUint16 then Done (st_locBlocks s (unat i)) else Panic)"

text \<open>The block is given its number: \<open>blk\<close> is the block as a function of it.\<close>

definition addLocBlock ::
  "(u32 \<Rightarrow> valueLocBlock) \<Rightarrow> 'm valueStore \<Rightarrow> ((u32 \<times> go_error option) \<times> 'm valueStore) outcome" where
  "addLocBlock blk s =
     (let i = st_locBlockIDer s + 1; s1 = s\<lparr>st_locBlockIDer := i\<rparr>
      in if ucast MaxUint32 \<le> i then Done ((0, Some (ErrOther ''too many loc blocks'')), s1)
         else if MaxUint16 \<le> unat i then Panic
         else Done ((ucast i, None), set_locBlock (ucast i) (blk (ucast i)) s1))"

function locBlockID_loop :: "nat \<Rightarrow> i64 \<Rightarrow> 'm valueStore \<Rightarrow> u32 outcome" where
  "locBlockID_loop i tsn s =
     (if MaxUint16 < i then Done 0
      else if i = MaxUint16 then Panic
      else case st_locBlocks s i of None \<Rightarrow> Done 0
           | Some blk \<Rightarrow> if tsn = timestampnano blk then Done (of_nat i) else locBlockID_loop (Suc i) tsn s)"
  by pat_completeness auto
termination
  by (relation "measure (\<lambda>(i, _). MaxUint16 - i)") auto

declare locBlockID_loop.simps [simp del]

definition locBlockIDFromTimestampnano :: "i64 \<Rightarrow> 'm valueStore \<Rightarrow> u32 outcome" where
  "locBlockIDFromTimestampnano tsn s = locBlockID_loop 1 tsn s"

section \<open>Looking up and reading\<close>

definition lookup :: "('m, 'b) locmap_ops \<Rightarrow> u64 \<Rightarrow> 'b \<Rightarrow> 'm valueStore \<Rightarrow> u64 \<times> u32 \<times> u32 \<times> go_error option" where
  "lookup L keyA keyB s =
     (case lm_Get L (st_locmap s) keyA keyB of (timestampbits, i, _, len) \<Rightarrow>
        if i = 0 \<or> timestampbits AND TSB_DELETION \<noteq> 0
        then (timestampbits, i, 0, Some ErrNotFound) else (timestampbits, i, len, None))"

definition Lookup ::
  "('m, 'b) locmap_ops \<Rightarrow> u64 \<Rightarrow> 'b \<Rightarrow> 'm valueStore \<Rightarrow> (i64 \<times> u32 \<times> go_error option) \<times> 'm valueStore" where
  "Lookup L keyA keyB s =
     (let s1 = tally (\<lambda>c. c\<lparr>ct_lookups := ct_lookups c + 1\<rparr>) s;
          (timestampbits, _, len, err) = lookup L keyA keyB s1;
          s2 = (if err \<noteq> None \<and> err \<noteq> Some ErrNotFound
                then tally (\<lambda>c. c\<lparr>ct_lookupErrors := ct_lookupErrors c + 1\<rparr>) s1 else s1)
      in ((drop_bit TSB_UTIL_BITS timestampbits, len, err), s2))"

text \<open>
  Reading a location block.  A memory block asks the location map again, under its lock, because the
  value may have moved since the caller looked: the location found then may name another block, whose
  \<open>read\<close> is called in turn, at most \<open>fuel\<close> times here.  Reading past the values of a memory block
  has no result.
\<close>

fun locBlock_read ::
  "nat \<Rightarrow> ('m, 'b) locmap_ops \<Rightarrow> checksummed_read \<Rightarrow> 'b store_cfg \<Rightarrow> 'm valueStore \<Rightarrow> u32 \<Rightarrow>
   u64 \<Rightarrow> 'b \<Rightarrow> u64 \<Rightarrow> u32 \<Rightarrow> u32 \<Rightarrow> bytes \<Rightarrow> (u64 \<times> bytes \<times> go_error option) outcome" where
  "locBlock_read 0 L rd cfg s i keyA keyB timestampbits offset len value = Blocked"
| "locBlock_read (Suc fuel) L rd cfg s i keyA keyB timestampbits offset len value =
     bind_outcome (locBlock i s) (\<lambda>blk. case blk of
       None \<Rightarrow> Panic
     | Some (FileBlock fl) \<Rightarrow>
         Done (valueStoreFile_read rd (sf_interval fl) fl timestampbits offset len value)
     | Some (MemBlock m) \<Rightarrow>
         (case lm_Get L (st_locmap s) keyA keyB of (timestampbits, i', offset, len) \<Rightarrow>
            if i' = 0 \<or> timestampbits AND TSB_DELETION \<noteq> 0
            then Done (timestampbits, value, Some ErrNotFound)
            else if i' \<noteq> mb_id m
            then locBlock_read fuel L rd cfg s i' keyA keyB timestampbits offset len value
            else if unat offset + unat len \<le> length (mb_values m)
            then Done (timestampbits, value @ take (unat len) (drop (unat offset) (mb_values m)), None)
            else Panic))"

definition read_fuel :: nat where "read_fuel = 2"

definition store_read ::
  "('m, 'b) locmap_ops \<Rightarrow> checksummed_read \<Rightarrow> 'b store_cfg \<Rightarrow> u64 \<Rightarrow> 'b \<Rightarrow> bytes \<Rightarrow> 'm valueStore \<Rightarrow>
   (u64 \<times> bytes \<times> go_error option) outcome" where
  "store_read L rd cfg keyA keyB value s =
     (case lm_Get L (st_locmap s) keyA keyB of (timestampbits, i, offset, len) \<Rightarrow>
        if i = 0 \<or> timestampbits AND TSB_DELETION \<noteq> 0 \<or> timestampbits AND TSB_LOCAL_REMOVAL \<noteq> 0
        then Done (timestampbits, value, Some ErrNotFound)
        else locBlock_read read_fuel L rd cfg s i keyA keyB timestampbits offset len value)"

definition Read ::
  "('m, 'b) locmap_ops \<Rightarrow> checksummed_read \<Rightarrow> 'b store_cfg \<Rightarrow> u64 \<Rightarrow> 'b \<Rightarrow> bytes \<Rightarrow> 'm valueStore \<Rightarrow>
   ((i64 \<times> bytes \<times> go_error option) \<times> 'm valueStore) outcome" where
  "Read L rd cfg keyA keyB value s =
     (let s1 = tally (\<lambda>c. c\<lparr>ct_reads := ct_reads c + 1\<rparr>) s
      in bind_outcome (store_read L rd cfg keyA keyB value s1) (\<lambda>(timestampbits, value', err).
           let s2 = (if err \<noteq> None \<and> err \<noteq> Some ErrNotFound
                     then tally (\<lambda>c. c\<lparr>ct_readErrors := ct_readErrors c + 1\<rparr>) s1 else s1)
           in Done ((drop_bit TSB_UTIL_BITS timestampbits, value', err), s2)))"

section \<open>The memory writers\<close>

definition set_memWriter :: "nat \<Rightarrow> memWriterState \<Rightarrow> 'm valueStore \<Rightarrow> 'm valueStore" where
  "set_memWriter w mw s = s\<lparr>st_memWriters := (st_memWriters s)[w := mw]\<rparr>"

text \<open>Send the current block to the file writer.\<close>

definition memWriter_send :: "nat \<Rightarrow> u32 \<Rightarrow> 'm valueStore \<Rightarrow> 'm valueStore" where
  "memWriter_send w i s =
     set_memWriter w ((st_memWriters s ! w)\<lparr>mw_block := None\<rparr>)
       (s\<lparr>st_fileMemBlockChan := st_fileMemBlockChan s @ [MB i]\<rparr>)"

text \<open>On a flush or shutdown a block with entries goes to the file writer; an empty one is kept.\<close>

definition memWriter_flush :: "nat \<Rightarrow> 'm valueStore \<Rightarrow> 'm valueStore" where
  "memWriter_flush w s =
     (case mw_block (st_memWriters s ! w) of None \<Rightarrow> s
      | Some i \<Rightarrow>
        (case st_locBlocks s (unat i) of
           Some (MemBlock m) \<Rightarrow> if mb_toc m \<noteq> [] then memWriter_send w i s else s
         | _ \<Rightarrow> s))"

text \<open>Put the value in the current block \<open>i\<close>, offer the location to the map, keep a TOC entry if it is newer.\<close>

definition memWriter_put ::
  "('m, 'b) locmap_ops \<Rightarrow> 'b store_cfg \<Rightarrow> nat \<Rightarrow> u32 \<Rightarrow> 'b valueWriteReq \<Rightarrow> nat \<Rightarrow> 'm valueStore \<Rightarrow>
   ((go_error option \<times> u64) option \<times> 'm valueStore) outcome" where
  "memWriter_put L cfg w i r alloc s =
     (let mw = st_memWriters s ! w; len = length (wr_value r); ts = wr_timestampbits r;
          tsb = ts AND NOT TSB_COMPACTION_REWRITE;
          memOffset = mw_memOffset mw; tocOffset = mw_tocOffset mw
      in case st_locBlocks s (unat i) of
        Some (MemBlock m) \<Rightarrow>
          if unat (c_pageSize cfg) < memOffset + alloc then Panic
          else
            let vals = take memOffset (mb_values m) @ wr_value r @ replicate (alloc - len) 0;
                (pts, lm) = lm_Set L (st_locmap s) (wr_keyA r) (wr_keyB r) tsb (mb_id m)
                  (of_nat memOffset) (of_nat len) (ts AND TSB_COMPACTION_REWRITE \<noteq> 0)
            in if pts < ts
               then if unat (c_pageSize cfg) < tocOffset + FILE_ENTRY_SIZE (c_layout cfg) then Panic
                    else Done (Some (None, pts),
                      set_memWriter w (mw\<lparr>mw_tocOffset := tocOffset + FILE_ENTRY_SIZE (c_layout cfg),
                                         mw_memOffset := memOffset + alloc\<rparr>)
                        (set_locBlock i (MemBlock (m\<lparr>mb_values := vals,
                             mb_toc := take tocOffset (mb_toc m) @
                               putTOCEntry (c_layout cfg) (wr_keyA r) (wr_keyB r) tsb (of_nat memOffset) (of_nat len)\<rparr>))
                          (s\<lparr>st_locmap := lm\<rparr>)))
               else Done (Some (None, pts),
                      set_locBlock i (MemBlock (m\<lparr>mb_values := take memOffset vals\<rparr>)) (s\<lparr>st_locmap := lm\<rparr>))
      | _ \<Rightarrow> Panic)"

text \<open>
  One turn of \<open>memWriter\<close> \<open>w\<close> on a message.  The answer to a write request is the error sent on its
  \<open>errChan\<close> and the timestamp left in the request.  It waits when it needs a free block and there is
  none.
\<close>

definition memWriter ::
  "('m, 'b) locmap_ops \<Rightarrow> 'b store_cfg \<Rightarrow> nat \<Rightarrow> 'b writeMsg \<Rightarrow> 'm valueStore \<Rightarrow>
   ((go_error option \<times> u64) option \<times> 'm valueStore) outcome" where
  "memWriter L cfg w msg s =
     (let mw = st_memWriters s ! w
      in case msg of
        EnableReq \<Rightarrow> Done (None, set_memWriter w (mw\<lparr>mw_enabled := True\<rparr>) s)
      | DisableReq \<Rightarrow> Done (None, set_memWriter w (mw\<lparr>mw_enabled := False\<rparr>) s)
      | FlushReq \<Rightarrow>
          let s1 = memWriter_flush w s
          in Done (None, s1\<lparr>st_fileMemBlockChan := st_fileMemBlockChan s1 @ [FlushMB]\<rparr>)
      | ShutdownReq \<Rightarrow>
          let s1 = memWriter_flush w s
          in Done (None, set_memWriter w ((st_memWriters s1 ! w)\<lparr>mw_running := False\<rparr>)
               (s1\<lparr>st_fileMemBlockChan := st_fileMemBlockChan s1 @ [ShutdownMB]\<rparr>))
      | WriteReq r \<Rightarrow>
          if \<not> mw_enabled mw \<and> \<not> wr_internal r then Done (Some (Some ErrDisabled, wr_timestampbits r), s)
          else let len = length (wr_value r)
          in if unat (c_valueCap cfg) < len
             then Done (Some (Some (ErrValueLength len (c_valueCap cfg)), wr_timestampbits r), s)
             else
               let alloc = max len (c_minValueAlloc cfg);
                   s1 = (case mw_block mw of None \<Rightarrow> s
                         | Some i \<Rightarrow>
                           if unat (c_pageSize cfg) < mw_tocOffset mw + FILE_ENTRY_SIZE (c_layout cfg) \<or>
                              unat (c_pageSize cfg) < mw_memOffset mw + alloc
                           then memWriter_send w i s else s)
               in case mw_block (st_memWriters s1 ! w) of
                    Some i \<Rightarrow> memWriter_put L cfg w i r alloc s1
                  | None \<Rightarrow>
                    (case st_freeMemBlockChan s1 of [] \<Rightarrow> Blocked
                     | i # rest \<Rightarrow>
                       memWriter_put L cfg w i r alloc
                         (set_memWriter w ((st_memWriters s1 ! w)\<lparr>mw_block := Some i, mw_tocOffset := 0,
                              mw_memOffset := 0\<rparr>)
                            (s1\<lparr>st_freeMemBlockChan := rest\<rparr>))))"

section \<open>Writing and deleting\<close>

text \<open>
  \<open>write\<close> sends a request to the memory writer of the key and waits for the answer: the previous
  timestamp bits, or the given ones with an error.
\<close>

definition writer_of :: "u64 \<Rightarrow> 'm valueStore \<Rightarrow> nat" where
  "writer_of keyA s = unat (drop_bit 1 keyA) mod length (st_memWriters s)"

definition store_write ::
  "('m, 'b) locmap_ops \<Rightarrow> 'b store_cfg \<Rightarrow> u64 \<Rightarrow> 'b \<Rightarrow> u64 \<Rightarrow> bytes \<Rightarrow> bool \<Rightarrow> 'm valueStore \<Rightarrow>
   ((u64 \<times> go_error option) \<times> 'm valueStore) outcome" where
  "store_write L cfg keyA keyB timestampbits value internal s =
     (if st_memWriters s = [] then Panic
      else bind_outcome
        (memWriter L cfg (writer_of keyA s)
           (WriteReq \<lparr>wr_keyA = keyA, wr_keyB = keyB, wr_timestampbits = timestampbits,
              wr_value = value, wr_internal = internal\<rparr>) s)
        (\<lambda>(ans, s1). case ans of
           None \<Rightarrow> Blocked
         | Some (err, pts) \<Rightarrow>
             Done ((pts, err), if err = None \<and> pts < timestampbits
               then tally (\<lambda>c. c\<lparr>ct_modifications := ct_modifications c + 1\<rparr>) s1 else s1)))"

definition Write ::
  "('m, 'b) locmap_ops \<Rightarrow> 'b store_cfg \<Rightarrow> u64 \<Rightarrow> 'b \<Rightarrow> i64 \<Rightarrow> bytes \<Rightarrow> 'm valueStore \<Rightarrow>
   ((i64 \<times> go_error option) \<times> 'm valueStore) outcome" where
  "Write L cfg keyA keyB timestampmicro value s =
     (let s1 = tally (\<lambda>c. c\<lparr>ct_writes := ct_writes c + 1\<rparr>) s;
          werr = tally (\<lambda>c. c\<lparr>ct_writeErrors := ct_writeErrors c + 1\<rparr>)
      in if sint timestampmicro < sint TIMESTAMPMICRO_MIN
         then Done ((0, Some (ErrTimestampLow timestampmicro)), werr s1)
         else if sint TIMESTAMPMICRO_MAX < sint timestampmicro
         then Done ((0, Some (ErrTimestampHigh timestampmicro)), werr s1)
         else bind_outcome (store_write L cfg keyA keyB (push_bit TSB_UTIL_BITS timestampmicro) value False s1)
           (\<lambda>((timestampbits, err), s2).
              let prev = drop_bit TSB_UTIL_BITS timestampbits;
                  s3 = (if err \<noteq> None then werr s2
                        else if sint timestampmicro \<le> sint prev
                        then tally (\<lambda>c. c\<lparr>ct_writesOverridden := ct_writesOverridden c + 1\<rparr>) s2 else s2)
              in Done ((prev, err), s3)))"

definition Delete ::
  "('m, 'b) locmap_ops \<Rightarrow> 'b store_cfg \<Rightarrow> u64 \<Rightarrow> 'b \<Rightarrow> i64 \<Rightarrow> 'm valueStore \<Rightarrow>
   ((i64 \<times> go_error option) \<times> 'm valueStore) outcome" where
  "Delete L cfg keyA keyB timestampmicro s =
     (let s1 = tally (\<lambda>c. c\<lparr>ct_deletes := ct_deletes c + 1\<rparr>) s;
          derr = tally (\<lambda>c. c\<lparr>ct_deleteErrors := ct_deleteErrors c + 1\<rparr>)
      in if sint timestampmicro < sint TIMESTAMPMICRO_MIN
         then Done ((0, Some (ErrTimestampLow timestampmicro)), derr s1)
         else if sint TIMESTAMPMICRO_MAX < sint timestampmicro
         then Done ((0, Some (ErrTimestampHigh timestampmicro)), derr s1)
         else bind_outcome
           (store_write L cfg keyA keyB (push_bit TSB_UTIL_BITS timestampmicro OR TSB_DELETION) [] True s1)
           (\<lambda>((timestampbits, err), s2).
              let prev = drop_bit TSB_UTIL_BITS timestampbits;
                  s3 = (if err \<noteq> None then derr s2
                        else if sint timestampmicro \<le> sint prev
                        then tally (\<lambda>c. c\<lparr>ct_deletesOverridden := ct_deletesOverridden c + 1\<rparr>) s2 else s2)
              in Done ((prev, err), s3)))"

section \<open>Enabling, disabling, flushing\<close>

text \<open>Send a control message to every memory writer.\<close>

fun broadcast :: "('m, 'b) locmap_ops \<Rightarrow> 'b store_cfg \<Rightarrow> 'b writeMsg \<Rightarrow> nat list \<Rightarrow> 'm valueStore \<Rightarrow> 'm valueStore outcome" where
  "broadcast L cfg msg [] s = Done s"
| "broadcast L cfg msg (w # ws) s =
     bind_outcome (memWriter L cfg w msg s) (\<lambda>(_, s1). broadcast L cfg msg ws s1)"

definition broadcast_all :: "('m, 'b) locmap_ops \<Rightarrow> 'b store_cfg \<Rightarrow> 'b writeMsg \<Rightarrow> 'm valueStore \<Rightarrow> 'm valueStore outcome" where
  "broadcast_all L cfg msg s = broadcast L cfg msg [0..<length (st_memWriters s)] s"

definition enableWrites :: "('m, 'b) locmap_ops \<Rightarrow> 'b store_cfg \<Rightarrow> bool \<Rightarrow> 'm valueStore \<Rightarrow> 'm valueStore outcome" where
  "enableWrites L cfg userCall s =
     (let s1 = s\<lparr>st_readOnly := False\<rparr>
      in if userCall \<or> \<not> st_userDisabled s
         then broadcast_all L cfg EnableReq (s1\<lparr>st_userDisabled := False\<rparr>)
         else Done s1)"

definition EnableWrites :: "('m, 'b) locmap_ops \<Rightarrow> 'b store_cfg \<Rightarrow> 'm valueStore \<Rightarrow> 'm valueStore outcome" where
  "EnableWrites L cfg s = enableWrites L cfg True s"

definition disableWrites :: "('m, 'b) locmap_ops \<Rightarrow> 'b store_cfg \<Rightarrow> bool \<Rightarrow> 'm valueStore \<Rightarrow> 'm valueStore outcome" where
  "disableWrites L cfg userCall s =
     broadcast_all L cfg DisableReq
       (s\<lparr>st_readOnly := True, st_userDisabled := (if userCall then True else st_userDisabled s)\<rparr>)"

definition DisableWrites :: "('m, 'b) locmap_ops \<Rightarrow> 'b store_cfg \<Rightarrow> 'm valueStore \<Rightarrow> 'm valueStore outcome" where
  "DisableWrites L cfg s = disableWrites L cfg True s"

text \<open>\<open>Flush\<close> sends the requests and then waits for a token on \<open>flushedChan\<close>.\<close>

definition Flush_send :: "('m, 'b) locmap_ops \<Rightarrow> 'b store_cfg \<Rightarrow> 'm valueStore \<Rightarrow> 'm valueStore outcome" where
  "Flush_send L cfg s = broadcast_all L cfg FlushReq s"

definition Flush_wait :: "'m valueStore \<Rightarrow> 'm valueStore outcome" where
  "Flush_wait s = (if 0 < st_flushed s then Done (s\<lparr>st_flushed := st_flushed s - 1\<rparr>) else Blocked)"

end
