(* ===== verification/StoreWorkers.thy ===== *)
theory StoreWorkers
  imports Store
begin

unbundle bit_operations_syntax

text \<open>
  The goroutines behind the store, \<open>memClearer\<close>, \<open>fileWriter\<close> and \<open>tocWriter\<close> of
  \<open>src/valuestore_GEN_.go\<close>, one definition per turn of their loops (the memory clearer, whose turn
  makes many updates of the location map, one per entry), the creation of value files and the state
  \<open>Startup\<close> builds.  What the operating system decides is in the record \<open>file_env\<close>.
\<close>

section \<open>The environment\<close>

text \<open>
  The current time; errors of creating the file, opening each reader, writing a buffer, writing the
  terminator, closing; the order in which the last buffers reach the writer of a file.
\<close>

record file_env =
  fe_now :: i64
  fe_create :: "go_error option"
  fe_open :: "nat \<Rightarrow> go_error option"
  fe_werr :: "nat \<Rightarrow> bool"
  fe_terr :: "nat \<Rightarrow> go_error option"
  fe_cerr :: "go_error option"
  fe_sched :: "writeBuf list \<Rightarrow> writeBuf list"

section \<open>Files of the store\<close>

definition createValueReadWriteFile ::
  "'b store_cfg \<Rightarrow> file_env \<Rightarrow> 'm valueStore \<Rightarrow> ((u32 + go_error) \<times> 'm valueStore) outcome" where
  "createValueReadWriteFile cfg env s =
     (case fe_create env of Some err \<Rightarrow> Done (Inr err, s)
      | None \<Rightarrow>
        case List.find (\<lambda>i. fe_open env i \<noteq> None) [0..<c_fileReaders cfg] of
          Some i \<Rightarrow> Done (Inr (the (fe_open env i)), s)
        | None \<Rightarrow>
          bind_outcome (addLocBlock (\<lambda>i. FileBlock (writer_start (ly_template (c_layout cfg)) (c_checksumInterval cfg) i (fe_now env))) s)
            (\<lambda>((i, err), s1). case err of Some e \<Rightarrow> Done (Inr e, s1) | None \<Rightarrow> Done (Inl i, s1)))"

text \<open>A file opened for reading; \<open>opened i\<close> is the content the \<open>i\<close>-th open gives, or its error.\<close>

definition newValueReadFile ::
  "'b store_cfg \<Rightarrow> (nat \<Rightarrow> bytes + go_error) \<Rightarrow> i64 \<Rightarrow> 'm valueStore \<Rightarrow> ((u32 + go_error) \<times> 'm valueStore) outcome" where
  "newValueReadFile cfg opened nameTimestamp s =
     (case List.find (\<lambda>i. case opened i of Inr _ \<Rightarrow> True
              | Inl disk \<Rightarrow> i = 0 \<and> snd (snd (readValueHeader (ly_template (c_layout cfg)) disk)) \<noteq> None) [0..<c_fileReaders cfg] of
        Some i \<Rightarrow> Done (Inr (case opened i of Inr err \<Rightarrow> err
                             | Inl disk \<Rightarrow> the (snd (snd (readValueHeader (ly_template (c_layout cfg)) disk)))), s)
      | None \<Rightarrow>
          bind_outcome (addLocBlock (\<lambda>i. FileBlock ((writer_start (ly_template (c_layout cfg)) (c_checksumInterval cfg) i nameTimestamp)
             \<lparr>sf_cur := None, sf_writerOffset := 0,
              sf_interval := (case opened 0 of Inl disk \<Rightarrow> fst (snd (readValueHeader (ly_template (c_layout cfg)) disk)) | Inr _ \<Rightarrow> 0),
              sf_disk := (case opened 0 of Inl disk \<Rightarrow> disk | Inr _ \<Rightarrow> [])\<rparr>)) s)
            (\<lambda>((i, err), s1). case err of Some e \<Rightarrow> Done (Inr e, s1) | None \<Rightarrow> Done (Inl i, s1)))"

text \<open>What a file handed on is put in the channels of the memory clearers.\<close>

definition send_freeable :: "nat \<Rightarrow> memMsg \<Rightarrow> 'm valueStore \<Rightarrow> 'm valueStore" where
  "send_freeable k msg s =
     s\<lparr>st_freeableMemBlockChans := (st_freeableMemBlockChans s)[k := st_freeableMemBlockChans s ! k @ [msg]]\<rparr>"

definition put_file :: "u32 \<Rightarrow> valueStoreFile \<Rightarrow> 'm valueStore \<Rightarrow> 'm valueStore" where
  "put_file i fl s =
     foldl (\<lambda>s (k, mb). send_freeable k (MB mb) s)
       (set_locBlock i (FileBlock (fl\<lparr>sf_freed := []\<rparr>)) s) (sf_freed fl)"

definition get_file :: "u32 \<Rightarrow> 'm valueStore \<Rightarrow> valueStoreFile option" where
  "get_file i s = (case st_locBlocks s (unat i) of Some (FileBlock fl) \<Rightarrow> Some fl | _ \<Rightarrow> None)"

definition get_mem :: "u32 \<Rightarrow> 'm valueStore \<Rightarrow> valueMemBlock option" where
  "get_mem i s = (case st_locBlocks s (unat i) of Some (MemBlock m) \<Rightarrow> Some m | _ \<Rightarrow> None)"

section \<open>The file writer\<close>

text \<open>Close the current file, if there is one; an error is only logged.\<close>

definition fileWriter_close ::
  "(bytes \<Rightarrow> u32) \<Rightarrow> 'b store_cfg \<Rightarrow> file_env \<Rightarrow> 'm valueStore \<Rightarrow> 'm valueStore outcome" where
  "fileWriter_close sum32 cfg env s =
     (case fw_fl (st_fileWriter s) of None \<Rightarrow> Done s
      | Some i \<Rightarrow>
        case get_file i s of None \<Rightarrow> Panic
        | Some fl \<Rightarrow>
          case closeWriting sum32 (length (st_freeableMemBlockChans s)) (fe_werr env) (fe_terr env)
                 (fe_cerr env) (fe_sched env) (c_checksumInterval cfg) fl of
            None \<Rightarrow> Panic
          | Some (_, fl') \<Rightarrow>
              Done (put_file i fl' (s\<lparr>st_fileWriter := (st_fileWriter s)\<lparr>fw_fl := None\<rparr>\<rparr>)))"

text \<open>Write a block to the current file \<open>i\<close>.\<close>

definition fileWriter_write ::
  "'b store_cfg \<Rightarrow> u32 \<Rightarrow> u32 \<Rightarrow> 'm valueStore \<Rightarrow> 'm valueStore outcome" where
  "fileWriter_write cfg i mb s =
     (case (get_file i s, get_mem mb s) of
        (Some fl, Some m) \<Rightarrow>
          (case valueStoreFile_write (length (st_freeableMemBlockChans s)) (c_checksumInterval cfg) mb
                  (mb_values m) fl of
             None \<Rightarrow> Panic
           | Some (off, fl') \<Rightarrow>
               let fw = st_fileWriter s
               in Done (put_file i fl'
                    (set_locBlock mb (MemBlock (m\<lparr>mb_fileID := sf_id fl, mb_fileOffset := off\<rparr>))
                      (s\<lparr>st_fileWriter := fw\<lparr>fw_tocLen := fw_tocLen fw + of_nat (length (mb_toc m)),
                         fw_valueLen := fw_valueLen fw + of_nat (length (mb_values m))\<rparr>\<rparr>))))
      | _ \<Rightarrow> Panic)"

text \<open>
  The rotation of the file: it is closed when the block would take it past the cap, a new one is
  created when there is none.  If that fails the nil file is used all the same, which panics.
\<close>

definition fileWriter_block ::
  "(bytes \<Rightarrow> u32) \<Rightarrow> 'b store_cfg \<Rightarrow> file_env \<Rightarrow> u32 \<Rightarrow> 'm valueStore \<Rightarrow> 'm valueStore outcome" where
  "fileWriter_block sum32 cfg env mb s =
     (case get_mem mb s of None \<Rightarrow> Panic
      | Some m \<Rightarrow>
        let fw = st_fileWriter s;
            full = (ucast (c_fileCap cfg) \<le> fw_tocLen fw + of_nat (length (mb_toc m)) \<or>
                    ucast (c_fileCap cfg) < fw_valueLen fw + of_nat (length (mb_values m)))
        in bind_outcome (if fw_fl fw \<noteq> None \<and> full then fileWriter_close sum32 cfg env s else Done s) (\<lambda>s1.
             case fw_fl (st_fileWriter s1) of
               Some i \<Rightarrow> fileWriter_write cfg i mb s1
             | None \<Rightarrow>
                 bind_outcome (createValueReadWriteFile cfg env s1) (\<lambda>(r, s2). case r of
                   Inr err \<Rightarrow> Panic
                 | Inl i \<Rightarrow>
                     fileWriter_write cfg i mb
                       (s2\<lparr>st_fileWriter := (st_fileWriter s2)\<lparr>fw_fl := Some i, fw_tocLen := 32, fw_valueLen := 32\<rparr>\<rparr>))))"

text \<open>One turn of \<open>fileWriter\<close>.\<close>

definition fileWriter ::
  "(bytes \<Rightarrow> u32) \<Rightarrow> 'b store_cfg \<Rightarrow> file_env \<Rightarrow> 'm valueStore \<Rightarrow> 'm valueStore outcome" where
  "fileWriter sum32 cfg env s =
     (case st_fileMemBlockChan s of [] \<Rightarrow> Blocked
      | msg # rest \<Rightarrow>
        let s0 = s\<lparr>st_fileMemBlockChan := rest\<rparr>; fw = st_fileWriter s;
            n = length (st_freeableMemBlockChans s)
        in case msg of
          FlushMB \<Rightarrow>
            let s1 = s0\<lparr>st_fileWriter := fw\<lparr>fw_flushLeft := fw_flushLeft fw - 1\<rparr>\<rparr>
            in if 0 < fw_flushLeft fw - 1 then Done s1
               else bind_outcome (fileWriter_close sum32 cfg env s1) (\<lambda>s2.
                      let s3 = foldl (\<lambda>s k. send_freeable k FlushMB s) s2 [0..<n]
                      in Done (s3\<lparr>st_fileWriter := (st_fileWriter s3)\<lparr>fw_flushLeft := length (st_memWriters s)\<rparr>\<rparr>))
        | ShutdownMB \<Rightarrow>
            let s1 = s0\<lparr>st_fileWriter := fw\<lparr>fw_shutdownLeft := fw_shutdownLeft fw - 1\<rparr>\<rparr>
            in if 0 < fw_shutdownLeft fw - 1 then Done s1
               else bind_outcome (fileWriter_close sum32 cfg env s1) (\<lambda>s2.
                      let s3 = foldl (\<lambda>s k. send_freeable k ShutdownMB s) s2 (rev [0..<n])
                      in Done (s3\<lparr>st_fileWriter := (st_fileWriter s3)\<lparr>fw_running := False\<rparr>\<rparr>))
        | MB mb \<Rightarrow>
            if fw_disabled fw \<noteq> None
            then Done (send_freeable (fw_index fw) (MB mb)
                   (s0\<lparr>st_fileWriter := fw\<lparr>fw_index := if n \<le> fw_index fw + 1 then 0 else fw_index fw + 1\<rparr>\<rparr>))
            else fileWriter_block sum32 cfg env mb s0)"

text \<open>A step of the goroutines of the file being written.\<close>

inductive file_pipe :: "(bytes \<Rightarrow> u32) \<Rightarrow> file_env \<Rightarrow> 'm valueStore \<Rightarrow> 'm valueStore \<Rightarrow> bool"
  for sum32 env where
  "fw_fl (st_fileWriter s) = Some i \<Longrightarrow> get_file i s = Some fl \<Longrightarrow>
   pipe_step sum32 (length (st_freeableMemBlockChans s)) (fe_werr env) fl fl' \<Longrightarrow>
   file_pipe sum32 env s (put_file i fl' s)"

section \<open>The memory clearers\<close>

definition set_memClearer :: "nat \<Rightarrow> memClearerState \<Rightarrow> 'm valueStore \<Rightarrow> 'm valueStore" where
  "set_memClearer k mc s = s\<lparr>st_memClearers := (st_memClearers s)[k := mc]\<rparr>"

text \<open>Send the TOC block being filled, if there is one.\<close>

definition send_tb :: "nat \<Rightarrow> 'm valueStore \<Rightarrow> 'm valueStore" where
  "send_tb k s =
     (case mc_tb (st_memClearers s ! k) of None \<Rightarrow> s
      | Some tb \<Rightarrow> set_memClearer k ((st_memClearers s ! k)\<lparr>mc_tb := None\<rparr>)
                     (s\<lparr>st_pendingTOCBlockChan := st_pendingTOCBlockChan s @ [TB tb]\<rparr>))"

definition memClearer_recv :: "nat \<Rightarrow> 'm valueStore \<Rightarrow> 'm valueStore outcome" where
  "memClearer_recv k s =
     (case st_freeableMemBlockChans s ! k of [] \<Rightarrow> Blocked
      | msg # rest \<Rightarrow>
        let s0 = s\<lparr>st_freeableMemBlockChans := (st_freeableMemBlockChans s)[k := rest]\<rparr>
        in case msg of
          FlushMB \<Rightarrow>
            let s1 = send_tb k s0
            in Done (s1\<lparr>st_pendingTOCBlockChan := st_pendingTOCBlockChan s1 @ [FlushTB]\<rparr>)
        | ShutdownMB \<Rightarrow>
            let s1 = send_tb k s0
            in Done (set_memClearer k ((st_memClearers s1 ! k)\<lparr>mc_running := False\<rparr>)
                 (s1\<lparr>st_pendingTOCBlockChan := st_pendingTOCBlockChan s1 @ [ShutdownTB]\<rparr>))
        | MB mb \<Rightarrow>
            case get_mem mb s of None \<Rightarrow> Panic
            | Some m \<Rightarrow>
              bind_outcome (locBlock (mb_fileID m) s0) (\<lambda>fl.
                let mc = st_memClearers s ! k in
                if mc_tb mc \<noteq> None \<and> fl = None then Panic
                else let s1 = (if mc_tb mc \<noteq> None \<and> mc_tbTS mc \<noteq> timestampnano (the fl) then send_tb k s0 else s0)
                     in Done (set_memClearer k ((st_memClearers s1 ! k)\<lparr>mc_cur := Some (mb, 0)\<rparr>) s1)))"

text \<open>
  Append an entry to the TOC block: a full one is sent first, a new one starts with the timestamp of
  the file.
\<close>

definition tb_append ::
  "'b store_cfg \<Rightarrow> nat \<Rightarrow> valueLocBlock option \<Rightarrow> bytes \<Rightarrow> 'm valueStore \<Rightarrow> 'm valueStore outcome" where
  "tb_append cfg k fl entry s =
     (let mc = st_memClearers s ! k;
          s1 = (case mc_tb mc of
                  Some tb \<Rightarrow> if unat (c_pageSize cfg) < length tb + FILE_ENTRY_SIZE (c_layout cfg) then send_tb k s else s
                | None \<Rightarrow> s)
      in case mc_tb (st_memClearers s1 ! k) of
           Some tb \<Rightarrow> Done (set_memClearer k ((st_memClearers s1 ! k)\<lparr>mc_tb := Some (tb @ entry)\<rparr>) s1)
         | None \<Rightarrow>
           if st_freeTOCBlocks s1 = 0 then Blocked
           else case fl of None \<Rightarrow> Panic
           | Some blk \<Rightarrow>
             if unat (c_pageSize cfg) < 8 + FILE_ENTRY_SIZE (c_layout cfg) then Panic
             else Done (set_memClearer k ((st_memClearers s1 ! k)\<lparr>mc_tbTS := timestampnano blk,
                      mc_tb := Some (putU64 (timestampnano blk) @ entry)\<rparr>)
                    (s1\<lparr>st_freeTOCBlocks := st_freeTOCBlocks s1 - 1\<rparr>)))"

text \<open>
  One entry of the block being cleared: the location is moved to the file, unless a newer one is
  known.  A local removal is written with no location.
\<close>

definition memClearer_entry ::
  "('m, 'b) locmap_ops \<Rightarrow> 'b store_cfg \<Rightarrow> nat \<Rightarrow> 'm valueStore \<Rightarrow> 'm valueStore outcome" where
  "memClearer_entry L cfg k s =
     (case mc_cur (st_memClearers s ! k) of None \<Rightarrow> Blocked
      | Some (mb, pos) \<Rightarrow>
        case get_mem mb s of None \<Rightarrow> Panic
        | Some m \<Rightarrow>
          if length (mb_toc m) \<le> pos then Blocked
          else if length (mb_toc m) < pos + FILE_ENTRY_SIZE (c_layout cfg) then Panic
          else
            let e = getTOCEntry (c_layout cfg) (mb_fileID m) (take (FILE_ENTRY_SIZE (c_layout cfg)) (drop pos (mb_toc m)));
                tsb = TimestampBits e;
                (blockID, offset, len) =
                  (if tsb AND TSB_LOCAL_REMOVAL = 0
                   then (mb_fileID m, mb_fileOffset m + Offset e, Length e) else (0, 0, 0));
                (prev, lm) = lm_Set L (st_locmap s) (KeyA e) (KeyB e) tsb blockID offset len True;
                s1 = set_memClearer k ((st_memClearers s ! k)\<lparr>mc_cur := Some (mb, pos + FILE_ENTRY_SIZE (c_layout cfg))\<rparr>)
                       (s\<lparr>st_locmap := lm\<rparr>)
            in if tsb < prev then Done s1
               else bind_outcome (locBlock (mb_fileID m) s) (\<lambda>fl.
                      tb_append cfg k fl (putTOCEntry (c_layout cfg) (KeyA e) (KeyB e) tsb offset len) s1))"

text \<open>When all entries are done the block is reset and free again.\<close>

definition memClearer_done :: "nat \<Rightarrow> 'm valueStore \<Rightarrow> 'm valueStore outcome" where
  "memClearer_done k s =
     (case mc_cur (st_memClearers s ! k) of None \<Rightarrow> Blocked
      | Some (mb, pos) \<Rightarrow>
        case get_mem mb s of None \<Rightarrow> Panic
        | Some m \<Rightarrow>
          if pos < length (mb_toc m) then Blocked
          else Done (set_memClearer k ((st_memClearers s ! k)\<lparr>mc_cur := None\<rparr>)
                 (set_locBlock mb (MemBlock (m\<lparr>mb_fileID := 0, mb_fileOffset := 0, mb_toc := [], mb_values := []\<rparr>))
                   (s\<lparr>st_freeMemBlockChan := st_freeMemBlockChan s @ [mb]\<rparr>))))"

section \<open>The TOC writer\<close>

text \<open>
  \<open>brimio.NewMultiCoreChecksummedWriter\<close> is third-party code; what is written to it is kept, in
  \<open>st_tocFiles\<close>, without the checksums it adds.  \<open>err p\<close> is the error at point \<open>p\<close> of the code.
\<close>

definition toc_write :: "u64 \<Rightarrow> bytes \<Rightarrow> 'm valueStore \<Rightarrow> 'm valueStore" where
  "toc_write bts bs s =
     s\<lparr>st_tocFiles := (st_tocFiles s)(bts := map_option (\<lambda>c. c @ bs) (st_tocFiles s bts))\<rparr>"

definition toc_fatal :: "'m valueStore \<Rightarrow> 'm valueStore" where
  "toc_fatal s =
     s\<lparr>st_tocWriter := (st_tocWriter s)\<lparr>tw_disabled := True\<rparr>,
       st_restarts := st_restarts s @ [ErrOther ''tocWriter encountered a fatal error; restart required'']\<rparr>"

text \<open>Terminate and close writer B, then A; \<open>Inl\<close> is the state after a fatal error.\<close>

definition tocWriter_closeB :: "'b store_cfg \<Rightarrow> (nat \<Rightarrow> bool) \<Rightarrow> 'm valueStore \<Rightarrow> 'm valueStore + 'm valueStore" where
  "tocWriter_closeB cfg err s =
     (case tw_writerB (st_tocWriter s) of None \<Rightarrow> Inr s
      | Some b \<Rightarrow>
        if err 1 then Inl (toc_fatal s)
        else let s1 = toc_write b (term_block (unat (c_checksumInterval cfg))) s
             in if err 2 then Inl (toc_fatal s1)
                else Inr (s1\<lparr>st_tocWriter := (st_tocWriter s1)\<lparr>tw_writerB := None, tw_offsetB := 0\<rparr>,
                             st_activeTOCB := 0\<rparr>))"

definition tocWriter_closeA :: "'b store_cfg \<Rightarrow> (nat \<Rightarrow> bool) \<Rightarrow> 'm valueStore \<Rightarrow> 'm valueStore + 'm valueStore" where
  "tocWriter_closeA cfg err s =
     (case tw_writerA (st_tocWriter s) of None \<Rightarrow> Inr s
      | Some a \<Rightarrow>
        if err 3 then Inl (toc_fatal s)
        else let s1 = toc_write a (term_block (unat (c_checksumInterval cfg))) s
             in if err 4 then Inl (toc_fatal s1)
                else Inr (s1\<lparr>st_tocWriter := (st_tocWriter s1)\<lparr>tw_writerA := None, tw_offsetA := 0\<rparr>,
                             st_activeTOCA := 0\<rparr>))"

definition tocWriter_close_both :: "'b store_cfg \<Rightarrow> (nat \<Rightarrow> bool) \<Rightarrow> 'm valueStore \<Rightarrow> 'm valueStore + 'm valueStore" where
  "tocWriter_close_both cfg err s =
     (case tocWriter_closeB cfg err s of Inl s1 \<Rightarrow> Inl s1 | Inr s1 \<Rightarrow> tocWriter_closeA cfg err s1)"

text \<open>A TOC block of a file that is not one of the two last seen: B is closed, A becomes B, A is new.\<close>

definition tocWriter_rotate ::
  "'b store_cfg \<Rightarrow> (nat \<Rightarrow> bool) \<Rightarrow> u64 \<Rightarrow> bytes \<Rightarrow> 'm valueStore \<Rightarrow> 'm valueStore + 'm valueStore" where
  "tocWriter_rotate cfg err bts entries s =
     (let tw = st_tocWriter s;
          closed = (case tw_writerB tw of None \<Rightarrow> Inr s
            | Some b \<Rightarrow>
              if err 7 then Inl (toc_fatal s)
              else let s1 = toc_write b (term_block (unat (c_checksumInterval cfg))) s
                   in if err 8 then Inl (toc_fatal s1) else Inr s1)
      in case closed of Inl s1 \<Rightarrow> Inl s1
         | Inr s1 \<Rightarrow>
           let s2 = s1\<lparr>st_activeTOCB := st_activeTOCA s1, st_activeTOCA := bts,
                 st_tocWriter := (st_tocWriter s1)\<lparr>tw_writerB := tw_writerA tw, tw_offsetB := tw_offsetA tw\<rparr>\<rparr>
           in if err 9 then Inl (toc_fatal s2)
              else let s3 = s2\<lparr>st_tocFiles := (st_tocFiles s2)(bts := Some []),
                         st_tocWriter := (st_tocWriter s2)\<lparr>tw_writerA := Some bts\<rparr>\<rparr>
                   in if err 10 then Inl (toc_fatal s3)
                      else let s4 = toc_write bts (value_head_toc (ly_template (c_layout cfg)) (c_checksumInterval cfg)) s3
                           in if err 11 then Inl (toc_fatal s4)
                              else let s5 = toc_write bts entries s4
                                   in Inr (s5\<lparr>st_tocWriter := (st_tocWriter s5)
                                        \<lparr>tw_offsetA := 32 + of_nat (length entries)\<rparr>\<rparr>))"

text \<open>The entries of a TOC block go to the file its timestamp names.\<close>

definition tocWriter_block ::
  "'b store_cfg \<Rightarrow> (nat \<Rightarrow> bool) \<Rightarrow> bytes \<Rightarrow> 'm valueStore \<Rightarrow> ('m valueStore + 'm valueStore) outcome" where
  "tocWriter_block cfg err t s =
     (let bts = getU64 t 0; entries = drop 8 t; tw = st_tocWriter s
      in if bts = st_activeTOCA s
         then (case tw_writerA tw of None \<Rightarrow> Panic
               | Some a \<Rightarrow>
                 if err 5 then Done (Inl (toc_fatal s))
                 else let s1 = toc_write a entries s
                      in Done (Inr (s1\<lparr>st_tocWriter := tw\<lparr>tw_offsetA := tw_offsetA tw + of_nat (length entries)\<rparr>\<rparr>)))
         else if bts = st_activeTOCB s
         then (case tw_writerB tw of None \<Rightarrow> Panic
               | Some b \<Rightarrow>
                 if err 6 then Done (Inl (toc_fatal s))
                 else let s1 = toc_write b entries s
                      in Done (Inr (s1\<lparr>st_tocWriter := tw\<lparr>tw_offsetB := tw_offsetB tw + of_nat (length entries)\<rparr>\<rparr>)))
         else Done (tocWriter_rotate cfg err bts entries s))"

text \<open>One turn of \<open>tocWriter\<close>.\<close>

definition tocWriter :: "'b store_cfg \<Rightarrow> (nat \<Rightarrow> bool) \<Rightarrow> 'm valueStore \<Rightarrow> 'm valueStore outcome" where
  "tocWriter cfg err s =
     (case st_pendingTOCBlockChan s of [] \<Rightarrow> Blocked
      | msg # rest \<Rightarrow>
        let s0 = s\<lparr>st_pendingTOCBlockChan := rest\<rparr>; tw = st_tocWriter s
        in case msg of
          FlushTB \<Rightarrow>
            let s1 = s0\<lparr>st_tocWriter := tw\<lparr>tw_flushLeft := tw_flushLeft tw - 1\<rparr>\<rparr>
            in if 0 < tw_flushLeft tw - 1 then Done s1
               else (case tocWriter_close_both cfg err s1 of Inl s2 \<Rightarrow> Done s2
                     | Inr s2 \<Rightarrow> Done (s2\<lparr>st_flushed := st_flushed s2 + 1,
                         st_tocWriter := (st_tocWriter s2)\<lparr>tw_flushLeft := length (st_freeableMemBlockChans s)\<rparr>\<rparr>))
        | ShutdownTB \<Rightarrow>
            let s1 = s0\<lparr>st_tocWriter := tw\<lparr>tw_shutdownLeft := tw_shutdownLeft tw - 1\<rparr>\<rparr>
            in if 0 < tw_shutdownLeft tw - 1 then Done s1
               else (case tocWriter_close_both cfg err s1 of Inl s2 \<Rightarrow> Done s2
                     | Inr s2 \<Rightarrow> Done (s2\<lparr>st_shutdown := st_shutdown s2 + 1,
                         st_tocWriter := (st_tocWriter s2)\<lparr>tw_running := False\<rparr>\<rparr>))
        | TB t \<Rightarrow>
            if tw_disabled tw then Done (s0\<lparr>st_freeTOCBlocks := st_freeTOCBlocks s0 + 1\<rparr>)
            else if 8 < length t
            then bind_outcome (tocWriter_block cfg err t s0) (\<lambda>r. case r of
                   Inl s1 \<Rightarrow> Done s1
                 | Inr s1 \<Rightarrow> Done (s1\<lparr>st_freeTOCBlocks := st_freeTOCBlocks s1 + 1\<rparr>))
            else Done (s0\<lparr>st_freeTOCBlocks := st_freeTOCBlocks s0 + 1\<rparr>))"

section \<open>Starting\<close>

text \<open>
  The first part of \<open>Startup\<close>: new channels, no location blocks, the goroutines at the start of their
  loops.
\<close>

definition startup_reset :: "'b store_cfg \<Rightarrow> 'm valueStore \<Rightarrow> 'm valueStore" where
  "startup_reset cfg s =
     s\<lparr>st_locBlocks := (\<lambda>_. None), st_locBlockIDer := 0,
       st_freeMemBlockChan := [], st_fileMemBlockChan := [],
       st_freeableMemBlockChans := replicate (c_workers cfg) [],
       st_freeTOCBlocks := c_workers cfg * 2, st_pendingTOCBlockChan := [],
       st_activeTOCA := 0, st_activeTOCB := 0, st_flushed := 0, st_shutdown := 0,
       st_memWriters := replicate (c_workers cfg)
         \<lparr>mw_enabled = False, mw_block = None, mw_tocOffset = 0, mw_memOffset = 0, mw_running = True\<rparr>,
       st_memClearers := replicate (c_workers cfg)
         \<lparr>mc_cur = None, mc_tb = None, mc_tbTS = 0, mc_running = True\<rparr>,
       st_fileWriter := \<lparr>fw_fl = None, fw_flushLeft = c_workers cfg, fw_shutdownLeft = c_workers cfg,
         fw_tocLen = 0, fw_valueLen = 0, fw_disabled = None, fw_index = 0, fw_running = True\<rparr>,
       st_tocWriter := \<lparr>tw_flushLeft = c_workers cfg, tw_shutdownLeft = c_workers cfg, tw_writerA = None,
         tw_offsetA = 0, tw_writerB = None, tw_offsetB = 0, tw_disabled = False, tw_running = True\<rparr>\<rparr>"

text \<open>The memory blocks are registered and put in the list of free ones.\<close>

fun startup_blocks :: "nat \<Rightarrow> 'm valueStore \<Rightarrow> (go_error option \<times> 'm valueStore) outcome" where
  "startup_blocks 0 s = Done (None, s)"
| "startup_blocks (Suc k) s =
     bind_outcome (addLocBlock (\<lambda>i. MemBlock \<lparr>mb_id = i, mb_fileID = 0, mb_fileOffset = 0, mb_toc = [], mb_values = []\<rparr>) s)
       (\<lambda>((i, err), s1). case err of
          Some e \<Rightarrow> Done (Some e, s1)
        | None \<Rightarrow> startup_blocks k (s1\<lparr>st_freeMemBlockChan := st_freeMemBlockChan s1 @ [i]\<rparr>))"

definition startup_store :: "'b store_cfg \<Rightarrow> 'm valueStore \<Rightarrow> (go_error option \<times> 'm valueStore) outcome" where
  "startup_store cfg s = startup_blocks (c_workers cfg * c_writePagesPerWorker cfg) (startup_reset cfg s)"

end
