(* ===== verification/StoreInv.thy ===== *)
theory StoreInv
  imports StoreWorkers
begin

unbundle bit_operations_syntax

text \<open>
  The invariant of the running store.  Its parts are predicates on the components of the state: the
  location map as its lookup function \<open>G\<close>, the location blocks \<open>B\<close>, the bytes \<open>S\<close> each value file has
  accepted, and for each memory block how much of its TOC a memory clearer has worked off, \<open>C\<close>.
  \<open>P\<close> are the memory blocks on their way through the file being written.
\<close>

section \<open>Where values are\<close>

definition value_at :: "u32 \<Rightarrow> u32 \<Rightarrow> bytes \<Rightarrow> bytes option" where
  "value_at off len bs =
     (if unat off + unat len \<le> length bs then Some (take (unat len) (drop (unat off) bs)) else None)"

lemma value_at_append: "value_at off len bs = Some v \<Longrightarrow> value_at off len (bs @ cs) = Some v"
  by (auto simp: value_at_def split: if_splits)

lemma value_at_at_end:
  "unat off = length bs \<Longrightarrow> unat len = length v \<Longrightarrow> value_at off len (bs @ v @ cs) = Some v"
  by (simp add: value_at_def)

text \<open>A slice of values that lie in a file at \<open>fo\<close> is the slice of the file shifted by \<open>fo\<close>.\<close>

lemma value_at_shift:
  assumes "value_at off len vs = Some v" "take (length vs) (drop (unat fo) bs) = vs"
    "unat fo + length vs \<le> length bs" "length bs < 2 ^ 32"
  shows "value_at (fo + off) len bs = Some v"
proof -
  have o: "unat off + unat len \<le> length vs" and v: "v = take (unat len) (drop (unat off) vs)"
    using assms(1) by (auto simp: value_at_def split: if_splits)
  then have "unat (fo + off) = unat fo + unat off"
    using assms(3,4) by (intro unat_add_small32) simp
  moreover have "v = take (unat len) (drop (unat fo + unat off) bs)"
    using o unfolding v by (subst assms(2) [symmetric]) (simp add: drop_take min_def add.commute)
  ultimately show ?thesis
    using o assms(3) by (simp add: value_at_def)
qed

definition content :: "(nat \<Rightarrow> bytes) \<Rightarrow> (nat \<Rightarrow> valueLocBlock option) \<Rightarrow> u32 \<Rightarrow> u32 \<Rightarrow> u32 \<Rightarrow> bytes option" where
  "content S B i off len =
     (case B (unat i) of None \<Rightarrow> None
      | Some (MemBlock m) \<Rightarrow> value_at off len (mb_values m)
      | Some (FileBlock fl) \<Rightarrow> value_at off len (S (unat i)))"

definition entry_list :: "'b layout \<Rightarrow> bytes \<Rightarrow> 'b valueTOCEntry list" where
  "entry_list Y toc = map (getTOCEntry Y 0) (chunks (FILE_ENTRY_SIZE Y) toc)"

text \<open>An entry of the TOC for this key and timestamp at this place of the values.\<close>

definition listed :: "'b layout \<Rightarrow> u64 \<Rightarrow> 'b \<Rightarrow> u64 \<Rightarrow> u32 \<Rightarrow> u32 \<Rightarrow> bytes \<Rightarrow> bool" where
  "listed Y a b ts off len toc \<longleftrightarrow>
     \<lparr>KeyA = a, KeyB = b, TimestampBits = ts, BlockID = 0, Offset = off, Length = len\<rparr> \<in> set (entry_list Y toc)"

lemma entry_list_Nil [simp]: "entry_list Y [] = []"
  by (simp add: entry_list_def)

context key_layout
begin

lemma entry_list_append:
  "length toc mod FILE_ENTRY_SIZE Y = 0 \<Longrightarrow> entry_list Y (toc @ putTOCEntry Y a b ts off len) =
     entry_list Y toc @ [\<lparr>KeyA = a, KeyB = b, TimestampBits = ts, BlockID = 0, Offset = off, Length = len\<rparr>]"
proof -
  assume len: "length toc mod FILE_ENTRY_SIZE Y = 0"
  have "chunks (FILE_ENTRY_SIZE Y) (toc @ putTOCEntry Y a b ts off len) = chunks (FILE_ENTRY_SIZE Y) toc @ [putTOCEntry Y a b ts off len]"
    using chunks_drop_prefix [of "FILE_ENTRY_SIZE Y" "length toc div FILE_ENTRY_SIZE Y" "toc @ putTOCEntry Y a b ts off len"] len
      chunks_append [of "putTOCEntry Y a b ts off len" "FILE_ENTRY_SIZE Y" "[]"]
    by (auto simp: minus_mod_eq_mult_div [symmetric] mult.commute)
  then show ?thesis by (simp add: entry_list_def)
qed

end

lemma entry_list_next:
  assumes "pos + FILE_ENTRY_SIZE Y \<le> length toc"
  shows "entry_list Y (drop pos toc) =
    getTOCEntry Y 0 (take (FILE_ENTRY_SIZE Y) (drop pos toc)) # entry_list Y (drop (pos + FILE_ENTRY_SIZE Y) toc)"
  using assms chunks.simps [of "FILE_ENTRY_SIZE Y" "drop pos toc"] by (simp add: entry_list_def add.commute)

lemma entry_list_suffix:
  assumes "pos mod FILE_ENTRY_SIZE Y = 0" "pos \<le> length toc"
  shows "set (entry_list Y (drop pos toc)) \<subseteq> set (entry_list Y toc)"
  using chunks_drop_prefix [of "FILE_ENTRY_SIZE Y" "pos div FILE_ENTRY_SIZE Y" toc] assms by (auto simp: entry_list_def)

section \<open>The parts of the invariant\<close>

definition loc_ok ::
  "'b layout \<Rightarrow> (nat \<Rightarrow> bytes) \<Rightarrow> (nat \<Rightarrow> valueLocBlock option) \<Rightarrow> (u32 \<Rightarrow> nat) \<Rightarrow> u64 \<Rightarrow> 'b \<Rightarrow> loc \<Rightarrow> bool" where
  "loc_ok Y S B C a b l \<longleftrightarrow>
     (case l of (ts, i, off, len) \<Rightarrow> i \<noteq> 0 \<longrightarrow>
        ts \<noteq> 0 \<and> content S B i off len \<noteq> None \<and>
        (\<forall>m. B (unat i) = Some (MemBlock m) \<longrightarrow> listed Y a b ts off len (drop (C i) (mb_toc m))))"

definition locs_ok where
  "locs_ok Y G B S C \<longleftrightarrow> (\<forall>a b. loc_ok Y S B C a b (G a b))"

text \<open>
  An entry of a memory block: its value is in the block and it is not newer than the location map; if
  it is as new, then the map leads to the same value.
\<close>

definition entry_ok where
  "entry_ok G B S m e \<longleftrightarrow>
     TimestampBits e \<noteq> 0 \<and> TimestampBits e AND TSB_LOCAL_REMOVAL = 0 \<and>
     value_at (Offset e) (Length e) (mb_values m) \<noteq> None \<and>
     (case G (KeyA e) (KeyB e) of (ts, i, off, len) \<Rightarrow>
        TimestampBits e \<le> ts \<and>
        (TimestampBits e = ts \<longrightarrow> content S B i off len = value_at (Offset e) (Length e) (mb_values m)))"

definition entries_ok where
  "entries_ok Y G B S \<longleftrightarrow>
     (\<forall>j m. B j = Some (MemBlock m) \<longrightarrow>
        length (mb_toc m) mod FILE_ENTRY_SIZE Y = 0 \<and> (\<forall>e \<in> set (entry_list Y (mb_toc m)). entry_ok G B S m e))"

text \<open>The blocks know their numbers.\<close>

definition blocks_ok :: "u64 \<Rightarrow> (nat \<Rightarrow> valueLocBlock option) \<Rightarrow> bool" where
  "blocks_ok ider B \<longleftrightarrow>
     B 0 = None \<and> unat ider < MaxUint16 \<and>
     (\<forall>j. unat ider < j \<longrightarrow> B j = None) \<and>
     (\<forall>j m. B j = Some (MemBlock m) \<longrightarrow> unat (mb_id m) = j) \<and>
     (\<forall>j fl. B j = Some (FileBlock fl) \<longrightarrow> unat (sf_id fl) = j)"

text \<open>A memory block whose values the file named in it has accepted.\<close>

definition in_file :: "(nat \<Rightarrow> bytes) \<Rightarrow> (nat \<Rightarrow> valueLocBlock option) \<Rightarrow> valueMemBlock \<Rightarrow> bool" where
  "in_file S B m \<longleftrightarrow>
     (\<exists>fl. B (unat (mb_fileID m)) = Some (FileBlock fl)) \<and>
     unat (mb_fileOffset m) + length (mb_values m) \<le> length (S (unat (mb_fileID m))) \<and>
     length (S (unat (mb_fileID m))) < 2 ^ 32 \<and>
     take (length (mb_values m)) (drop (unat (mb_fileOffset m)) (S (unat (mb_fileID m)))) = mb_values m"

section \<open>Updates of one block\<close>

text \<open>A memory block that only grows keeps every content.\<close>

lemma content_grow:
  assumes "B (unat j) = Some (MemBlock m)" "mb_values m' = mb_values m @ ext"
    "content S B i off len = Some v"
  shows "content S (B(unat j := Some (MemBlock m'))) i off len = Some v"
  using assms by (auto simp: content_def value_at_append split: option.splits)

lemma content_same_values:
  assumes "B (unat j) = Some (MemBlock m)" "mb_values m' = mb_values m"
  shows "content S (B(unat j := Some (MemBlock m'))) i off len = content S B i off len"
  using assms by (auto simp: content_def)

lemma content_file_update:
  assumes "B (unat j) = Some (FileBlock fl)"
  shows "content S (B(unat j := Some (FileBlock fl'))) i off len = content S B i off len"
  using assms by (auto simp: content_def)

lemma content_stream_grow:
  "content S B i off len = Some v \<Longrightarrow> content (S(j := S j @ ext)) B i off len = Some v"
  by (auto simp: content_def value_at_append split: option.splits valueLocBlock.splits)

lemma loc_ok_mono:
  assumes "loc_ok Y S B C a b l"
    and "\<And>ts i off len v. l = (ts, i, off, len) \<Longrightarrow> i \<noteq> 0 \<Longrightarrow> content S B i off len = Some v \<Longrightarrow>
      content S' B' i off len \<noteq> None"
    and "\<And>ts i off len m'. l = (ts, i, off, len) \<Longrightarrow> i \<noteq> 0 \<Longrightarrow> B' (unat i) = Some (MemBlock m') \<Longrightarrow>
      \<exists>m. B (unat i) = Some (MemBlock m) \<and>
        (listed Y a b ts off len (drop (C i) (mb_toc m)) \<longrightarrow> listed Y a b ts off len (drop (C' i) (mb_toc m')))"
  shows "loc_ok Y S' B' C' a b l"
proof -
  obtain ts i off len where l: "l = (ts, i, off, len)" by (cases l)
  show ?thesis
    using assms(1) assms(2) [OF l] assms(3) [OF l] unfolding loc_ok_def l by fastforce
qed

definition upd_loc :: "(u64 \<Rightarrow> 'b \<Rightarrow> loc) \<Rightarrow> u64 \<Rightarrow> 'b \<Rightarrow> loc \<Rightarrow> u64 \<Rightarrow> 'b \<Rightarrow> loc" where
  "upd_loc G a b l = (\<lambda>x y. if x = a \<and> y = b then l else G x y)"

lemma upd_loc_simps [simp]:
  "upd_loc G a b l a b = l" "x \<noteq> a \<or> y \<noteq> b \<Longrightarrow> upd_loc G a b l x y = G x y"
  by (auto simp: upd_loc_def)

section \<open>Accepting a newer value\<close>

text \<open>A newer value, appended to the memory block \<open>i\<close>, with its TOC entry: \<open>m\<close> becomes \<open>m'\<close>.\<close>

definition appended :: "'b layout \<Rightarrow> valueMemBlock \<Rightarrow> u64 \<Rightarrow> 'b \<Rightarrow> u64 \<Rightarrow> bytes \<Rightarrow> bytes \<Rightarrow> valueMemBlock \<Rightarrow> bool" where
  "appended Y m a b tsb v pad m' \<longleftrightarrow>
     mb_values m' = mb_values m @ v @ pad \<and>
     mb_toc m' = mb_toc m @ putTOCEntry Y a b tsb (of_nat (length (mb_values m))) (of_nat (length v)) \<and>
     length (mb_values m) + length v < 2 ^ 32"

definition newer_value where
  "newer_value G B S a b tsb v \<longleftrightarrow>
     tsb \<noteq> 0 \<and> tsb AND TSB_LOCAL_REMOVAL = 0 \<and>
     (case G a b of (ts, j, off, len) \<Rightarrow> ts \<le> tsb \<and> (ts = tsb \<longrightarrow> content S B j off len = Some v))"

abbreviation mem_loc :: "u64 \<Rightarrow> u32 \<Rightarrow> valueMemBlock \<Rightarrow> bytes \<Rightarrow> loc" where
  "mem_loc tsb i m v \<equiv> (tsb, i, of_nat (length (mb_values m)), of_nat (length v))"

abbreviation mem_entry :: "u64 \<Rightarrow> 'b \<Rightarrow> u64 \<Rightarrow> valueMemBlock \<Rightarrow> bytes \<Rightarrow> 'b valueTOCEntry" where
  "mem_entry a b tsb m v \<equiv> \<lparr>KeyA = a, KeyB = b, TimestampBits = tsb, BlockID = 0,
     Offset = of_nat (length (mb_values m)), Length = of_nat (length v)\<rparr>"

lemma appended_value_at:
  "appended Y m a b tsb v pad m' \<Longrightarrow> value_at (of_nat (length (mb_values m))) (of_nat (length v)) (mb_values m') = Some v"
  unfolding appended_def by (elim conjE) (simp add: value_at_at_end unat_of_nat_small32)

lemma appended_content:
  "appended Y m a b tsb v pad m' \<Longrightarrow>
   content S (B(unat i := Some (MemBlock m'))) i (of_nat (length (mb_values m))) (of_nat (length v)) = Some v"
  by (simp add: content_def appended_value_at)

lemma appended_old_content:
  assumes "appended Y m a b tsb v pad m'" "B (unat i) = Some (MemBlock m)" "content S B j off len = Some w"
  shows "content S (B(unat i := Some (MemBlock m'))) j off len = Some w"
  by (rule content_grow [where ext = "v @ pad"]) (use assms in \<open>simp_all add: appended_def\<close>)

context key_layout
begin

lemma appended_entries:
  "appended Y m a b tsb v pad m' \<Longrightarrow> length (mb_toc m) mod FILE_ENTRY_SIZE Y = 0 \<Longrightarrow>
   entry_list Y (mb_toc m') = entry_list Y (mb_toc m) @ [mem_entry a b tsb m v]"
  by (simp add: appended_def entry_list_append)

lemma append_locs_ok:
  assumes ap: "appended Y m a b tsb v pad m'" and i: "B (unat i) = Some (MemBlock m)" "C i = 0"
    and tsb: "newer_value G B S a b tsb v" and locs: "locs_ok Y G B S C" and entries: "entries_ok Y G B S"
  shows "locs_ok Y (upd_loc G a b (mem_loc tsb i m v)) (B(unat i := Some (MemBlock m'))) S C"
  unfolding locs_ok_def
proof (intro allI)
  fix x y
  let ?B = "B(unat i := Some (MemBlock m'))"
  have "length (mb_toc m) mod FILE_ENTRY_SIZE Y = 0" using entries i by (simp add: entries_ok_def)
  note new = appended_entries [OF ap this]
  show "loc_ok Y S ?B C x y (upd_loc G a b (mem_loc tsb i m v) x y)"
  proof (cases "x = a \<and> y = b")
    case True
    have "listed Y a b tsb (of_nat (length (mb_values m))) (of_nat (length v)) (drop (C i) (mb_toc m'))"
      using new i(2) by (simp add: listed_def)
    then show ?thesis
      using True appended_content [OF ap] tsb by (simp add: loc_ok_def newer_value_def)
  next
    case False
    have "loc_ok Y S B C x y (G x y)" using locs by (simp add: locs_ok_def)
    then have "loc_ok Y S ?B C x y (G x y)"
    proof (rule loc_ok_mono)
      fix ts j off len w
      assume "content S B j off len = Some w"
      then show "content S ?B j off len \<noteq> None" using appended_old_content [OF ap, of B i, OF i(1)] by fastforce
    next
      fix ts off len mj and j :: u32
      assume "?B (unat j) = Some (MemBlock mj)"
      then show "\<exists>m. B (unat j) = Some (MemBlock m) \<and>
          (listed Y x y ts off len (drop (C j) (mb_toc m)) \<longrightarrow> listed Y x y ts off len (drop (C j) (mb_toc mj)))"
        using i new by (cases "j = i") (auto simp: listed_def)
    qed
    then show ?thesis using False by auto
  qed
qed

lemma append_old_entry_ok:
  assumes ap: "appended Y m a b tsb v pad m'" and i: "B (unat i) = Some (MemBlock m)"
    and tsb: "newer_value G B S a b tsb v" and e: "entry_ok G B S mj e"
    and mj: "\<And>w. value_at (Offset e) (Length e) (mb_values mj) = Some w \<Longrightarrow>
      value_at (Offset e) (Length e) (mb_values mj') = Some w"
  shows "entry_ok (upd_loc G a b (mem_loc tsb i m v)) (B(unat i := Some (MemBlock m'))) S mj' e"
proof -
  obtain w where w: "value_at (Offset e) (Length e) (mb_values mj) = Some w"
    using e by (auto simp: entry_ok_def)
  obtain ts j off len where G: "G (KeyA e) (KeyB e) = (ts, j, off, len)" by (metis prod_cases4)
  have le: "TimestampBits e \<le> ts" and eq: "TimestampBits e = ts \<Longrightarrow> content S B j off len = Some w"
    using e w G by (auto simp: entry_ok_def)
  show ?thesis
  proof (cases "KeyA e = a \<and> KeyB e = b")
    case True
    then have ts: "ts \<le> tsb" "ts = tsb \<Longrightarrow> content S B j off len = Some v"
      using tsb G by (auto simp: newer_value_def)
    then have "TimestampBits e = tsb \<Longrightarrow> w = v"
      using le eq by (metis antisym option.inject)
    then show ?thesis
      using e True le ts(1) mj [OF w] appended_content [OF ap, of S B i] by (simp add: entry_ok_def)
  next
    case False
    then have "upd_loc G a b (mem_loc tsb i m v) (KeyA e) (KeyB e) = (ts, j, off, len)"
      using G by (auto simp: upd_loc_def)
    moreover have "TimestampBits e = ts \<Longrightarrow> content S (B(unat i := Some (MemBlock m'))) j off len = Some w"
      by (rule appended_old_content [OF ap, of B i, OF i eq])
    ultimately show ?thesis
      using e mj [OF w] le by (simp add: entry_ok_def)
  qed
qed

lemma append_entries_ok:
  assumes ap: "appended Y m a b tsb v pad m'" and i: "B (unat i) = Some (MemBlock m)"
    and tsb: "newer_value G B S a b tsb v" and entries: "entries_ok Y G B S"
  shows "entries_ok Y (upd_loc G a b (mem_loc tsb i m v)) (B(unat i := Some (MemBlock m'))) S"
  unfolding entries_ok_def
proof (intro allI impI)
  let ?G = "upd_loc G a b (mem_loc tsb i m v)" and ?B = "B(unat i := Some (MemBlock m'))"
  fix j mj assume j: "?B j = Some (MemBlock mj)"
  show "length (mb_toc mj) mod FILE_ENTRY_SIZE Y = 0 \<and> (\<forall>e \<in> set (entry_list Y (mb_toc mj)). entry_ok ?G ?B S mj e)"
  proof (cases "j = unat i")
    case True
    then have mj: "mj = m'" using j by simp
    have mod: "length (mb_toc m) mod FILE_ENTRY_SIZE Y = 0" using entries i by (simp add: entries_ok_def)
    have "entry_ok ?G ?B S m' e" if "e \<in> set (entry_list Y (mb_toc m))" for e
      using that entries i ap append_old_entry_ok [OF ap i tsb, of m e m'] value_at_append
      by (auto simp: entries_ok_def appended_def)
    moreover have "entry_ok ?G ?B S m' (mem_entry a b tsb m v)"
      using appended_value_at [OF ap] appended_content [OF ap, of S B i] tsb
      by (simp add: entry_ok_def newer_value_def)
    ultimately show ?thesis
      using mod appended_entries [OF ap mod] ap unfolding mj by (auto simp: appended_def)
  next
    case False
    then have "B j = Some (MemBlock mj)" using j by simp
    then show ?thesis using entries append_old_entry_ok [OF ap i tsb, of mj _ mj] by (auto simp: entries_ok_def)
  qed
qed

end

section \<open>What a client sees\<close>

text \<open>The timestamp and value of each key; \<open>(0, [])\<close> for a key the store does not hold.\<close>

type_synonym 'b amap = "'b key \<Rightarrow> u64 \<times> bytes"

definition abs_map :: "(u64 \<Rightarrow> 'b \<Rightarrow> loc) \<Rightarrow> (nat \<Rightarrow> valueLocBlock option) \<Rightarrow> (nat \<Rightarrow> bytes) \<Rightarrow> 'b amap" where
  "abs_map G B S = (\<lambda>(a, b). case G a b of (ts, i, off, len) \<Rightarrow>
     if i = 0 then (0, []) else (ts, the (content S B i off len)))"

lemma abs_map_write:
  assumes "appended Y m a b tsb v pad m'" "B (unat i) = Some (MemBlock m)" "i \<noteq> 0" "locs_ok Y G B S C"
  shows "abs_map (upd_loc G a b (mem_loc tsb i m v)) (B(unat i := Some (MemBlock m'))) S =
    (abs_map G B S)((a, b) := (tsb, v))"
proof (rule ext, clarify)
  fix x y
  obtain ts j off len where G: "G x y = (ts, j, off, len)" by (metis prod_cases4)
  show "abs_map (upd_loc G a b (mem_loc tsb i m v)) (B(unat i := Some (MemBlock m'))) S (x, y) =
    ((abs_map G B S)((a, b) := (tsb, v))) (x, y)"
  proof (cases "x = a \<and> y = b")
    case True
    then show ?thesis
      using appended_content [OF assms(1), of S B i] assms(3) by (simp add: abs_map_def)
  next
    case False
    have "loc_ok Y S B C x y (ts, j, off, len)" using assms(4) G by (metis locs_ok_def)
    then have "j \<noteq> 0 \<Longrightarrow> \<exists>w. content S B j off len = Some w" by (auto simp: loc_ok_def)
    then have "j \<noteq> 0 \<Longrightarrow> content S (B(unat i := Some (MemBlock m'))) j off len = content S B j off len"
      using appended_old_content [OF assms(1), of B i, OF assms(2)] by fastforce
    moreover have "upd_loc G a b (mem_loc tsb i m v) x y = (ts, j, off, len)"
      using False G by (auto simp: upd_loc_def)
    ultimately show ?thesis using False G by (auto simp: abs_map_def)
  qed
qed

section \<open>Changes that keep every content\<close>

lemma frame_ok:
  assumes locs: "locs_ok Y G B S C" and entries: "entries_ok Y G B S"
    and pres: "\<And>i off len v. content S B i off len = Some v \<Longrightarrow> content S' B' i off len = Some v"
    and blk: "\<And>j m'. B' j = Some (MemBlock m') \<Longrightarrow>
      (\<exists>m. B j = Some (MemBlock m) \<and> mb_toc m' = mb_toc m \<and> mb_values m' = mb_values m) \<or>
      (B j = None \<and> mb_toc m' = [])"
  shows "locs_ok Y G B' S' C" and "entries_ok Y G B' S'" and "abs_map G B' S' = abs_map G B S"
proof -
  have loc: "loc_ok Y S B C a b (G a b)" for a b using locs by (simp add: locs_ok_def)
  have keep: "G a b = (ts, i, off, len) \<Longrightarrow> i \<noteq> 0 \<Longrightarrow>
      content S B i off len \<noteq> None \<and> content S' B' i off len = content S B i off len" for a b ts i off len
    using loc [of a b] pres by (auto simp: loc_ok_def)
  show "locs_ok Y G B' S' C"
    unfolding locs_ok_def
  proof (intro allI)
    fix a b
    show "loc_ok Y S' B' C a b (G a b)"
    proof (rule loc_ok_mono [OF loc])
      fix ts i off len v
      assume "content S B i off len = Some v"
      then show "content S' B' i off len \<noteq> None" using pres by fastforce
    next
      fix ts i off len m'
      assume G: "G a b = (ts, i, off, len)" "i \<noteq> 0" and "B' (unat i) = Some (MemBlock m')"
      moreover have "B (unat i) \<noteq> None" using keep [OF G] by (cases "B (unat i)") (simp_all add: content_def)
      ultimately show "\<exists>m. B (unat i) = Some (MemBlock m) \<and>
          (listed Y a b ts off len (drop (C i) (mb_toc m)) \<longrightarrow> listed Y a b ts off len (drop (C i) (mb_toc m')))"
        using blk by fastforce
    qed
  qed
  show "abs_map G B' S' = abs_map G B S"
    using keep by (auto simp: abs_map_def fun_eq_iff split: prod.splits)
  show "entries_ok Y G B' S'"
    unfolding entries_ok_def
  proof (intro allI impI)
    fix j m' assume "B' j = Some (MemBlock m')"
    from blk [OF this] show "length (mb_toc m') mod FILE_ENTRY_SIZE Y = 0 \<and> (\<forall>e \<in> set (entry_list Y (mb_toc m')). entry_ok G B' S' m' e)"
    proof (elim disjE exE conjE)
      fix m assume m: "B j = Some (MemBlock m)" "mb_toc m' = mb_toc m" "mb_values m' = mb_values m"
      have "entry_ok G B' S' m' e" if "entry_ok G B S m e" for e
        using that pres m(3) by (fastforce simp: entry_ok_def split: prod.splits)
      with entries m show ?thesis by (auto simp: entries_ok_def)
    qed simp
  qed
qed

section \<open>Clearing a memory block\<close>

text \<open>The location of an entry is moved to the file; whoever looks up the key sees the same value.\<close>

lemma clear_entry_ok:
  assumes locs: "locs_ok Y G B S C" and entries: "entries_ok Y G B S"
    and m: "B (unat i) = Some (MemBlock m)" "in_file S B m" "mb_fileID m \<noteq> 0" and B0: "B 0 = None"
    and pos: "C i mod FILE_ENTRY_SIZE Y = 0" "C i + FILE_ENTRY_SIZE Y \<le> length (mb_toc m)"
    and e: "e = getTOCEntry Y 0 (take (FILE_ENTRY_SIZE Y) (drop (C i) (mb_toc m)))"
    and G': "G' = (if fst (G (KeyA e) (KeyB e)) \<le> TimestampBits e
      then upd_loc G (KeyA e) (KeyB e) (TimestampBits e, mb_fileID m, mb_fileOffset m + Offset e, Length e) else G)"
  shows "locs_ok Y G' B S (C(i := C i + FILE_ENTRY_SIZE Y))" and "entries_ok Y G' B S" and "abs_map G' B S = abs_map G B S"
proof -
  have next_e: "entry_list Y (drop (C i) (mb_toc m)) = e # entry_list Y (drop (C i + FILE_ENTRY_SIZE Y) (mb_toc m))"
    using entry_list_next [OF pos(2)] e by simp
  have "e \<in> set (entry_list Y (mb_toc m))"
    using next_e entry_list_suffix [OF pos(1), of "mb_toc m"] pos(2) by auto
  then have ok: "entry_ok G B S m e" using entries m(1) by (auto simp: entries_ok_def)
  obtain ts j off len where G: "G (KeyA e) (KeyB e) = (ts, j, off, len)" by (metis prod_cases4)
  obtain w where w: "value_at (Offset e) (Length e) (mb_values m) = Some w" "TimestampBits e \<noteq> 0"
    "TimestampBits e \<le> ts" "TimestampBits e = ts \<Longrightarrow> content S B j off len = Some w"
    using ok G by (auto simp: entry_ok_def)
  let ?new = "(TimestampBits e, mb_fileID m, mb_fileOffset m + Offset e, Length e)"
  obtain fl where fl: "B (unat (mb_fileID m)) = Some (FileBlock fl)" using m(2) by (auto simp: in_file_def)
  have new: "content S B (mb_fileID m) (mb_fileOffset m + Offset e) (Length e) = Some w"
    using value_at_shift [OF w(1)] m(2) fl by (simp add: content_def in_file_def)
  have G'_eq: "G' = (if ts = TimestampBits e then upd_loc G (KeyA e) (KeyB e) ?new else G)"
    using w(3) G unfolding G' by auto
  have keep: "G' x y = G x y \<or> (x = KeyA e \<and> y = KeyB e \<and> ts = TimestampBits e \<and> G' x y = ?new)" for x y
    unfolding G'_eq by (auto simp: upd_loc_def)
  show "abs_map G' B S = abs_map G B S"
  proof (rule ext, clarify)
    fix x y
    have "j = 0 \<Longrightarrow> ts \<noteq> TimestampBits e"
      using w(4) B0 by (auto simp: content_def)
    then show "abs_map G' B S (x, y) = abs_map G B S (x, y)"
      using keep [of x y] G new w(4) m(3) by (auto simp: abs_map_def)
  qed
  show "locs_ok Y G' B S (C(i := C i + FILE_ENTRY_SIZE Y))"
    unfolding locs_ok_def
  proof (intro allI)
    fix x y
    have old: "loc_ok Y S B C x y (G x y)" using locs by (simp add: locs_ok_def)
    from keep [of x y] show "loc_ok Y S B (C(i := C i + FILE_ENTRY_SIZE Y)) x y (G' x y)"
    proof
      assume same: "G' x y = G x y"
      obtain tx jx ox lx where Gx: "G x y = (tx, jx, ox, lx)" by (metis prod_cases4)
      have "jx = i \<Longrightarrow> i \<noteq> 0 \<Longrightarrow> listed Y x y tx ox lx (drop (C i) (mb_toc m)) \<Longrightarrow>
          listed Y x y tx ox lx (drop (C i + FILE_ENTRY_SIZE Y) (mb_toc m))"
        using next_e same Gx G keep [of x y] fl m(1) unfolding listed_def G'_eq by (auto simp: upd_loc_def split: if_splits)
      then show ?thesis
        using old m(1) unfolding same Gx loc_ok_def by auto
    next
      assume "x = KeyA e \<and> y = KeyB e \<and> ts = TimestampBits e \<and> G' x y = ?new"
      then have "G' x y = ?new" by blast
      then show ?thesis using new w(2) fl by (simp add: loc_ok_def)
    qed
  qed
  show "entries_ok Y G' B S"
    using entries G new w(4) unfolding G'_eq
    by (auto simp: entries_ok_def entry_ok_def upd_loc_def split: prod.splits)
qed

text \<open>A block whose entries are all worked off is not the location of any key.\<close>

lemma reset_block_ok:
  assumes locs: "locs_ok Y G B S C" and entries: "entries_ok Y G B S"
    and m: "B (unat i) = Some (MemBlock m)" "i \<noteq> 0" "length (mb_toc m) \<le> C i"
    and m': "mb_toc m' = []"
  shows "locs_ok Y G (B(unat i := Some (MemBlock m'))) S (C(i := 0))"
    and "entries_ok Y G (B(unat i := Some (MemBlock m'))) S"
    and "abs_map G (B(unat i := Some (MemBlock m'))) S = abs_map G B S"
proof -
  let ?B = "B(unat i := Some (MemBlock m'))"
  have loc: "loc_ok Y S B C a b (G a b)" for a b using locs by (simp add: locs_ok_def)
  have ne: "G a b = (ts, j, off, len) \<Longrightarrow> j \<noteq> i" for a b ts j off len
    using loc [of a b] m by (auto simp: loc_ok_def listed_def)
  have same: "j \<noteq> i \<Longrightarrow> content S ?B j off len = content S B j off len" for j off len
    by (simp add: content_def)
  show "locs_ok Y G ?B S (C(i := 0))"
    unfolding locs_ok_def
  proof (intro allI)
    fix a b
    show "loc_ok Y S ?B (C(i := 0)) a b (G a b)"
      using loc [of a b] ne [of a b] same by (auto simp: loc_ok_def split: prod.splits)
  qed
  show "entries_ok Y G ?B S"
    using entries m' ne same by (fastforce simp: entries_ok_def entry_ok_def split: prod.splits)
  show "abs_map G ?B S = abs_map G B S"
    using ne same by (auto simp: abs_map_def fun_eq_iff split: prod.splits)
qed

end
