(* ===== verification/StoreSim.thy ===== *)
theory StoreSim
  imports StoreInv
begin

unbundle bit_operations_syntax

text \<open>
  The invariant of the whole store and its preservation by every turn of every goroutine.  Every
  memory block has one owner: the list of free blocks, a memory writer, a channel, the file being
  written or a memory clearer.  \<open>owned\<close> is the multiset of all owned blocks; every step keeps it.
\<close>

section \<open>Owners\<close>

definition opt_mset :: "'a option \<Rightarrow> 'a multiset" where
  "opt_mset x = (case x of None \<Rightarrow> {#} | Some y \<Rightarrow> {#y#})"

lemma opt_mset_simps [simp]: "opt_mset None = {#}" "opt_mset (Some y) = {#y#}"
  by (simp_all add: opt_mset_def)

text \<open>The sum of the shares of the elements of a list.\<close>

definition shares :: "('a \<Rightarrow> 'b multiset) \<Rightarrow> 'a list \<Rightarrow> 'b multiset" where
  "shares f xs = sum_list (map f xs)"

lemma shares_simps [simp]:
  "shares f [] = {#}" "shares f (x # xs) = f x + shares f xs" "shares f (xs @ ys) = shares f xs + shares f ys"
  by (simp_all add: shares_def)

lemma shares_update:
  "k < length xs \<Longrightarrow> shares f (xs[k := x]) + f (xs ! k) = shares f xs + f x"
proof (induction xs arbitrary: k)
  case (Cons y ys)
  then show ?case by (cases k) (auto simp: ac_simps)
qed simp

lemma shares_update_eq:
  "k < length xs \<Longrightarrow> f x = f (xs ! k) \<Longrightarrow> shares f (xs[k := x]) = shares f xs"
  using shares_update [of k xs f x] by simp

lemma shares_member: "x \<in> set xs \<Longrightarrow> y \<in># f x \<Longrightarrow> y \<in># shares f xs"
  by (induction xs) auto

lemma shares_memberE:
  assumes "y \<in># shares f xs"
  obtains x where "x \<in> set xs" "y \<in># f x"
  using assms by (induction xs) auto

lemma shares_nth: "k < length xs \<Longrightarrow> f (xs ! k) \<subseteq># shares f xs"
proof (induction xs arbitrary: k)
  case (Cons y ys)
  then show ?case
    by (cases k) (auto intro: subset_mset.order_trans [OF _ mset_subset_eq_add_right])
qed simp

definition mem_id :: "memMsg \<Rightarrow> u32 multiset" where
  "mem_id msg = (case msg of MB i \<Rightarrow> {#i#} | _ \<Rightarrow> {#})"

lemma mem_id_simps [simp]: "mem_id (MB i) = {#i#}" "mem_id FlushMB = {#}" "mem_id ShutdownMB = {#}"
  by (simp_all add: mem_id_def)

definition clearing :: "memClearerState \<Rightarrow> u32 multiset" where
  "clearing mc = opt_mset (map_option fst (mc_cur mc))"

definition owned :: "u32 list \<Rightarrow> 'm valueStore \<Rightarrow> u32 multiset" where
  "owned P s =
     mset (st_freeMemBlockChan s) + shares (opt_mset \<circ> mw_block) (st_memWriters s) +
     shares mem_id (st_fileMemBlockChan s) + mset P +
     shares (shares mem_id) (st_freeableMemBlockChans s) + shares clearing (st_memClearers s)"

definition unique :: "'a multiset \<Rightarrow> bool" where
  "unique M \<longleftrightarrow> (\<forall>i. Multiset.count M i \<le> 1)"

lemma unique_disjoint: "unique (M + N) \<Longrightarrow> i \<in># M \<Longrightarrow> i \<notin># N"
proof
  assume "unique (M + N)" "i \<in># M" "i \<in># N"
  then have "0 < Multiset.count M i" "0 < Multiset.count N i" "Multiset.count M i + Multiset.count N i \<le> 1"
    by (simp_all add: unique_def)
  then show False by linarith
qed

lemma unique_subset: "unique N \<Longrightarrow> M \<subseteq># N \<Longrightarrow> unique M"
  unfolding unique_def by (meson mset_subset_eq_count order_trans)

text \<open>How much of its TOC has been worked off.\<close>

definition clear_pos :: "memClearerState list \<Rightarrow> u32 \<Rightarrow> nat" where
  "clear_pos mcs i = (case map_of (List.map_filter mc_cur mcs) i of None \<Rightarrow> 0 | Some pos \<Rightarrow> pos)"

lemma clear_pos_none: "i \<notin># shares clearing mcs \<Longrightarrow> clear_pos mcs i = 0"
proof -
  have "i \<notin># shares clearing mcs \<Longrightarrow> map_of (List.map_filter mc_cur mcs) i = None"
    by (induction mcs) (auto simp: List.map_filter_def clearing_def opt_mset_def split: option.splits)
  then show "i \<notin># shares clearing mcs \<Longrightarrow> clear_pos mcs i = 0" by (simp add: clear_pos_def)
qed

lemma clear_pos_at:
  assumes "unique (shares clearing mcs)" "k < length mcs" "mc_cur (mcs ! k) = Some (i, pos)"
  shows "clear_pos mcs i = pos"
  using assms
proof (induction mcs arbitrary: k)
  case (Cons mc mcs)
  show ?case
  proof (cases k)
    case 0
    with Cons show ?thesis by (simp add: clear_pos_def List.map_filter_def)
  next
    case (Suc k')
    then have mem: "i \<in># shares clearing mcs"
      using Cons(3,4) by (intro shares_member [of "mcs ! k'"]) (auto simp: clearing_def)
    have u: "unique (clearing mc + shares clearing mcs)" using Cons(2) by simp
    then have "i \<notin># clearing mc" using mem unique_disjoint [of "shares clearing mcs" "clearing mc" i] by (simp add: add.commute)
    then have "clear_pos (mc # mcs) i = clear_pos mcs i"
      by (auto simp: clear_pos_def List.map_filter_def clearing_def split: option.splits)
    moreover have "unique (shares clearing mcs)"
      using u by (rule unique_subset) simp
    ultimately show ?thesis using Cons Suc by simp
  qed
qed simp

text \<open>Setting one clearer changes the position of its block only.\<close>

lemma clear_pos_update:
  assumes "unique (shares clearing mcs)" "k < length mcs" "clearing mc = clearing (mcs ! k)"
    "mc_cur mc = Some (i, pos)"
  shows "clear_pos (mcs[k := mc]) = (clear_pos mcs)(i := pos)"
proof (rule ext)
  fix j
  have sh: "shares clearing (mcs[k := mc]) = shares clearing mcs"
    using assms(2,3) by (rule shares_update_eq)
  have fst: "map fst (List.map_filter mc_cur (mcs[k := mc])) = map fst (List.map_filter mc_cur mcs) \<and>
     (j \<noteq> i \<longrightarrow> map_of (List.map_filter mc_cur (mcs[k := mc])) j = map_of (List.map_filter mc_cur mcs) j)"
    using assms(2-4)
  proof (induction mcs arbitrary: k)
    case (Cons x xs)
    then show ?case
      by (cases k) (auto simp: List.map_filter_def clearing_def opt_mset_def split: option.splits)
  qed simp
  show "clear_pos (mcs[k := mc]) j = ((clear_pos mcs)(i := pos)) j"
  proof (cases "j = i")
    case True
    then show ?thesis
      using clear_pos_at [of "mcs[k := mc]" k i pos] assms sh by simp
  next
    case False
    then show ?thesis using fst by (simp add: clear_pos_def)
  qed
qed

lemma clear_pos_start:
  assumes "k < length mcs" "mc_cur (mcs ! k) = None" "mc_cur mc = Some (i, 0)" "i \<notin># shares clearing mcs"
  shows "clear_pos (mcs[k := mc]) = clear_pos mcs"
proof (rule ext)
  fix j
  have "map_of (List.map_filter mc_cur (mcs[k := mc])) j =
      (if j = i then Some 0 else map_of (List.map_filter mc_cur mcs) j)"
    using assms
  proof (induction mcs arbitrary: k)
    case (Cons x xs)
    then show ?case
      by (cases k) (auto simp: List.map_filter_def clearing_def opt_mset_def split: option.splits)
  qed simp
  then show "clear_pos (mcs[k := mc]) j = clear_pos mcs j"
    using clear_pos_none [OF assms(4)] by (simp add: clear_pos_def)
qed

lemma clear_pos_stop:
  assumes "unique (shares clearing mcs)" "k < length mcs" "mc_cur (mcs ! k) = Some (i, pos)" "mc_cur mc = None"
  shows "clear_pos (mcs[k := mc]) = (clear_pos mcs)(i := 0)"
proof (rule ext)
  fix j
  have other: "j \<noteq> i \<Longrightarrow> map_of (List.map_filter mc_cur (mcs[k := mc])) j = map_of (List.map_filter mc_cur mcs) j"
    using assms(2-4)
  proof (induction mcs arbitrary: k)
    case (Cons x xs)
    then show ?case by (cases k) (auto simp: List.map_filter_def split: option.splits)
  qed simp
  have eq: "shares clearing (mcs[k := mc]) + {#i#} = shares clearing mcs"
    using shares_update [OF assms(2), of clearing mc] assms(3,4) by (simp add: clearing_def)
  then have "i \<notin># shares clearing (mcs[k := mc])"
    using assms(1) unique_disjoint [of "{#i#}" "shares clearing (mcs[k := mc])" i] by (simp add: add.commute)
  then show "clear_pos (mcs[k := mc]) j = ((clear_pos mcs)(i := 0)) j"
    using other clear_pos_none by (cases "j = i") (auto simp: clear_pos_def)
qed

section \<open>The invariant\<close>

text \<open>What holds of a block in the hands of each owner.\<close>

definition free_ok :: "(nat \<Rightarrow> valueLocBlock option) \<Rightarrow> u32 \<Rightarrow> bool" where
  "free_ok B i \<longleftrightarrow> (\<exists>m. B (unat i) = Some (MemBlock m) \<and> mb_toc m = [] \<and> mb_values m = [])"

definition writer_ok :: "(nat \<Rightarrow> valueLocBlock option) \<Rightarrow> memWriterState \<Rightarrow> bool" where
  "writer_ok B mw \<longleftrightarrow>
     (\<forall>i. mw_block mw = Some i \<longrightarrow> (\<exists>m. B (unat i) = Some (MemBlock m) \<and>
        length (mb_toc m) = mw_tocOffset mw \<and> length (mb_values m) = mw_memOffset mw))"

definition mem_ok :: "(nat \<Rightarrow> valueLocBlock option) \<Rightarrow> u32 \<Rightarrow> bool" where
  "mem_ok B i \<longleftrightarrow> (\<exists>m. B (unat i) = Some (MemBlock m))"

definition filed_ok :: "(nat \<Rightarrow> bytes) \<Rightarrow> (nat \<Rightarrow> valueLocBlock option) \<Rightarrow> u32 \<Rightarrow> bool" where
  "filed_ok S B i \<longleftrightarrow> (\<exists>m. B (unat i) = Some (MemBlock m) \<and> mb_fileID m \<noteq> 0 \<and> in_file S B m)"

definition clearer_ok :: "'b layout \<Rightarrow> (nat \<Rightarrow> valueLocBlock option) \<Rightarrow> memClearerState \<Rightarrow> bool" where
  "clearer_ok Y B mc \<longleftrightarrow>
     (\<forall>i pos. mc_cur mc = Some (i, pos) \<longrightarrow>
        pos mod FILE_ENTRY_SIZE Y = 0 \<and> (\<exists>m. B (unat i) = Some (MemBlock m) \<and> pos \<le> length (mb_toc m)))"

text \<open>The blocks that were given to a file: in its buffers, in the channels of the clearers, being cleared.\<close>

definition filed :: "u32 list \<Rightarrow> 'm valueStore \<Rightarrow> u32 multiset" where
  "filed P s = mset P + shares (shares mem_id) (st_freeableMemBlockChans s) + shares clearing (st_memClearers s)"

definition places_ok where
  "places_ok Y S P s \<longleftrightarrow>
     (let B = st_locBlocks s in
        (\<forall>i \<in> set (st_freeMemBlockChan s). free_ok B i) \<and>
        (\<forall>mw \<in> set (st_memWriters s). writer_ok B mw) \<and>
        (\<forall>i. i \<in># shares mem_id (st_fileMemBlockChan s) \<longrightarrow> mem_ok B i) \<and>
        (\<forall>i. i \<in># filed P s \<longrightarrow> filed_ok S B i) \<and>
        (\<forall>mc \<in> set (st_memClearers s). clearer_ok Y B mc))"

definition sizes_ok :: "'b store_cfg \<Rightarrow> (nat \<Rightarrow> valueLocBlock option) \<Rightarrow> bool" where
  "sizes_ok cfg B \<longleftrightarrow> (\<forall>j m. B j = Some (MemBlock m) \<longrightarrow> length (mb_values m) \<le> unat (c_pageSize cfg))"

text \<open>The channel numbers a file uses exist.\<close>

definition index_ok :: "nat \<Rightarrow> valueStoreFile \<Rightarrow> bool" where
  "index_ok n fl \<longleftrightarrow> sf_index fl < n \<and> (\<forall>x \<in> set (sf_freed fl). fst x < n)"

text \<open>
  The file being written has accepted \<open>S\<close> of its number; any other file is closed and its content is
  \<open>S\<close> with the terminator.
\<close>

definition closed_ok :: "(bytes \<Rightarrow> u32) \<Rightarrow> 'b store_cfg \<Rightarrow> bytes \<Rightarrow> valueStoreFile \<Rightarrow> bool" where
  "closed_ok sum32 cfg stream fl \<longleftrightarrow>
     sf_cur fl = None \<and>
     sf_disk fl = checksummed sum32 (unat (c_checksumInterval cfg))
       (stream @ term_block (unat (c_checksumInterval cfg))) \<and>
     sf_interval fl = c_checksumInterval cfg"

definition open_ok where
  "open_ok sum32 cfg stream P n fl \<longleftrightarrow>
     file_inv sum32 (c_checksumInterval cfg) stream P fl \<and> sf_freed fl = [] \<and> \<not> sf_stopped fl \<and>
     index_ok n fl \<and> length stream < 2 ^ 32"

definition files_ok where
  "files_ok sum32 cfg S P s \<longleftrightarrow>
     (let fw = st_fileWriter s in
        fw_disabled fw = None \<and> (fw_fl fw = None \<longrightarrow> P = []) \<and>
        (\<forall>i. fw_fl fw = Some i \<longrightarrow> unat (fw_valueLen fw) = length (S (unat i)) \<and>
           (\<exists>fl. get_file i s = Some fl \<and>
              open_ok sum32 cfg (S (unat i)) P (length (st_freeableMemBlockChans s)) fl)) \<and>
        (\<forall>j fl. st_locBlocks s j = Some (FileBlock fl) \<longrightarrow> fw_fl fw \<noteq> Some (sf_id fl) \<longrightarrow>
           closed_ok sum32 cfg (S j) fl))"

definition store_inv where
  "store_inv L sum32 cfg S P s \<longleftrightarrow>
     locs_ok (c_layout cfg) (lm_Get L (st_locmap s)) (st_locBlocks s) S (clear_pos (st_memClearers s)) \<and>
     entries_ok (c_layout cfg) (lm_Get L (st_locmap s)) (st_locBlocks s) S \<and>
     blocks_ok (st_locBlockIDer s) (st_locBlocks s) \<and> sizes_ok cfg (st_locBlocks s) \<and>
     unique (owned P s) \<and> places_ok (c_layout cfg) S P s \<and> files_ok sum32 cfg S P s \<and>
     0 < length (st_freeableMemBlockChans s) \<and>
     length (st_memClearers s) = length (st_freeableMemBlockChans s)"

definition view :: "('m, 'b) locmap_ops \<Rightarrow> (nat \<Rightarrow> bytes) \<Rightarrow> 'm valueStore \<Rightarrow> 'b amap" where
  "view L S s = abs_map (lm_Get L (st_locmap s)) (st_locBlocks s) S"

section \<open>The rewrite bit\<close>

text \<open>The map accepts a request exactly when the memory writer then records it.\<close>

lemma accepts_iff_less:
  "set_accepts p (ts AND NOT TSB_COMPACTION_REWRITE) (ts AND TSB_COMPACTION_REWRITE \<noteq> 0) \<longleftrightarrow> p < ts"
proof -
  have split: "(ts AND NOT 1) + (ts AND 1) = ts"
  proof -
    have "(ts AND NOT 1) AND (ts AND 1) = 0" by (rule bit_word_eqI) (auto simp: bit_simps)
    then have "(ts AND NOT 1) + (ts AND 1) = (ts AND NOT 1) OR (ts AND 1)" by (rule disjunctive_add_eq_or)
    also have "\<dots> = ts" by (rule bit_word_eqI) (auto simp: bit_simps)
    finally show ?thesis .
  qed
  have one: "ts AND 1 = of_bool (odd ts)" by (simp add: and_one_eq odd_iff_mod_2_eq_one)
  show ?thesis
  proof (cases "odd ts")
    case True
    then have "ts \<noteq> 0" by auto
    moreover have "ts AND NOT 1 = ts - 1" using split one True by (simp add: algebra_simps)
    moreover from \<open>ts \<noteq> 0\<close> have "p \<le> ts - 1 \<longleftrightarrow> p < ts"
      by (simp add: word_le_nat_alt word_less_nat_alt unat_minus_one) (metis Suc_pred le_imp_less_Suc less_Suc_eq_le unat_gt_0)
    ultimately show ?thesis
      using True one by (auto simp: set_accepts_def TSB_COMPACTION_REWRITE_def)
  next
    case False
    then show ?thesis
      using split one by (simp add: set_accepts_def TSB_COMPACTION_REWRITE_def)
  qed
qed

section \<open>Consequences of having one owner\<close>

lemma shares_two:
  "k < length xs \<Longrightarrow> k' < length xs \<Longrightarrow> k \<noteq> k' \<Longrightarrow> f (xs ! k) + f (xs ! k') \<subseteq># shares f xs"
proof (induction xs arbitrary: k k')
  case (Cons x xs)
  show ?case
  proof (cases k)
    case 0
    then obtain j where "k' = Suc j" "j < length xs" using Cons(3,4) by (cases k') auto
    then show ?thesis using 0 shares_nth [of j xs f] by simp
  next
    case (Suc n)
    show ?thesis
    proof (cases k')
      case 0
      then show ?thesis using Suc Cons(2) shares_nth [of n xs f] by (simp add: add.commute)
    next
      case (Suc n')
      then have "f (xs ! n) + f (xs ! n') \<subseteq># shares f xs" using \<open>k = Suc n\<close> Cons by simp
      then show ?thesis
        using \<open>k = Suc n\<close> Suc subset_mset.order_trans [OF _ mset_subset_eq_add_right [of "shares f xs" "f x"]] by simp
    qed
  qed
qed simp

lemma unique_two_places:
  "unique (shares f xs) \<Longrightarrow> k < length xs \<Longrightarrow> k' < length xs \<Longrightarrow> k \<noteq> k' \<Longrightarrow> i \<in># f (xs ! k) \<Longrightarrow> i \<notin># f (xs ! k')"
  using unique_disjoint [OF unique_subset [OF _ shares_two [of k xs k' f]]] by blast

lemma owned_split:
  "owned P s = mset (st_freeMemBlockChan s) + shares (opt_mset \<circ> mw_block) (st_memWriters s) +
     shares mem_id (st_fileMemBlockChan s) + filed P s"
  by (simp add: owned_def filed_def ac_simps)

lemma writer_owns:
  assumes "unique (owned P s)" "w < length (st_memWriters s)" "mw_block (st_memWriters s ! w) = Some i"
  shows "i \<notin> set (st_freeMemBlockChan s)" "i \<notin># shares mem_id (st_fileMemBlockChan s)" "i \<notin># filed P s"
    "\<And>k. k < length (st_memWriters s) \<Longrightarrow> k \<noteq> w \<Longrightarrow> mw_block (st_memWriters s ! k) \<noteq> Some i"
proof -
  let ?W = "shares (opt_mset \<circ> mw_block) (st_memWriters s)"
  let ?R = "mset (st_freeMemBlockChan s) + shares mem_id (st_fileMemBlockChan s) + filed P s"
  have i: "i \<in># ?W" by (rule shares_member [of "st_memWriters s ! w"]) (use assms in auto)
  have u: "unique (?W + ?R)" using assms(1) by (simp add: owned_split ac_simps)
  have "i \<notin># ?R" by (rule unique_disjoint [OF u i])
  then show "i \<notin> set (st_freeMemBlockChan s)" "i \<notin># shares mem_id (st_fileMemBlockChan s)" "i \<notin># filed P s"
    by simp_all
  fix k assume k: "k < length (st_memWriters s)" "k \<noteq> w"
  have "unique ?W" using u by (rule unique_subset) simp
  from unique_two_places [OF this assms(2) k(1) k(2) [symmetric]] show "mw_block (st_memWriters s ! k) \<noteq> Some i"
    using assms(3) by auto
qed

lemma filed_ok_mem_update:
  "j \<noteq> i \<Longrightarrow> B (unat i) = Some (MemBlock m) \<Longrightarrow> filed_ok S B j \<Longrightarrow> filed_ok S (B(unat i := Some (MemBlock m'))) j"
proof -
  assume j: "j \<noteq> i" "B (unat i) = Some (MemBlock m)" "filed_ok S B j"
  then obtain mj fl where mj: "B (unat j) = Some (MemBlock mj)" "mb_fileID mj \<noteq> 0" "in_file S B mj"
    "B (unat (mb_fileID mj)) = Some (FileBlock fl)"
    by (auto simp: filed_ok_def in_file_def)
  moreover have "mb_fileID mj \<noteq> i" using mj(4) j(2) by auto
  ultimately show ?thesis using j(1) by (simp add: filed_ok_def in_file_def)
qed

lemma place_ok_update:
  "j \<noteq> i \<Longrightarrow> free_ok B j \<Longrightarrow> free_ok (B(unat i := blk)) j"
  "j \<noteq> i \<Longrightarrow> mem_ok B j \<Longrightarrow> mem_ok (B(unat i := blk)) j"
  "mw_block mw \<noteq> Some i \<Longrightarrow> writer_ok B mw \<Longrightarrow> writer_ok (B(unat i := blk)) mw"
  "i \<notin># clearing mc \<Longrightarrow> clearer_ok Y B mc \<Longrightarrow> clearer_ok Y (B(unat i := blk)) mc"
  by (auto simp: free_ok_def mem_ok_def writer_ok_def clearer_ok_def clearing_def)

lemma filed_clearing: "mc \<in> set (st_memClearers s) \<Longrightarrow> i \<in># clearing mc \<Longrightarrow> i \<in># filed P s"
  by (auto simp: filed_def intro: shares_member)

text \<open>A memory writer changes its own block.\<close>

lemma places_writer_update:
  assumes "places_ok Y S P s" "unique (owned P s)" "w < length (st_memWriters s)"
    "mw_block (st_memWriters s ! w) = Some i" "st_locBlocks s (unat i) = Some (MemBlock m)"
    "mw_block mw = Some i" "length (mb_toc m') = mw_tocOffset mw" "length (mb_values m') = mw_memOffset mw"
    "st_locBlocks s' = (st_locBlocks s)(unat i := Some (MemBlock m'))"
    "st_memWriters s' = (st_memWriters s)[w := mw]" "st_freeMemBlockChan s' = st_freeMemBlockChan s"
    "st_fileMemBlockChan s' = st_fileMemBlockChan s"
    "st_freeableMemBlockChans s' = st_freeableMemBlockChans s" "st_memClearers s' = st_memClearers s"
  shows "places_ok Y S P s'"
proof -
  let ?B = "st_locBlocks s" and ?B' = "st_locBlocks s'"
  note own = writer_owns [OF assms(2-4)]
  have "writer_ok ?B' x" if x: "x \<in> set (st_memWriters s')" for x
  proof (cases "x = mw")
    case True
    then show ?thesis using assms(6-9) by (simp add: writer_ok_def)
  next
    case False
    then obtain k where k: "k < length (st_memWriters s)" "k \<noteq> w" "x = st_memWriters s ! k"
      using x assms(3,10) by (auto simp: in_set_conv_nth nth_list_update split: if_splits)
    then have "writer_ok ?B x" using assms(1) by (auto simp: places_ok_def Let_def)
    then show ?thesis using own(4) [OF k(1,2)] k(3) place_ok_update(3) assms(9) by metis
  qed
  moreover have "filed P s' = filed P s" using assms(13,14) by (simp add: filed_def)
  ultimately show ?thesis
    using assms(1,5) own(1-3) unfolding places_ok_def Let_def assms(9,11,12,14)
    by (auto intro!: place_ok_update(1,2,4) filed_ok_mem_update dest: filed_clearing)
qed

text \<open>Only memory blocks change.\<close>

lemma files_ok_mem_update:
  assumes "files_ok sum32 cfg S P s" "st_locBlocks s (unat i) = Some (MemBlock m)"
    "st_locBlocks s' = (st_locBlocks s)(unat i := Some (MemBlock m'))" "st_fileWriter s' = st_fileWriter s"
    "length (st_freeableMemBlockChans s') = length (st_freeableMemBlockChans s)"
  shows "files_ok sum32 cfg S P s'"
proof -
  have "get_file j s' = get_file j s" for j
    using assms(2,3) by (auto simp: get_file_def)
  then show ?thesis using assms unfolding files_ok_def Let_def by (auto split: if_splits)
qed

lemma blocks_ok_id:
  "blocks_ok ider B \<Longrightarrow> B (unat i) = Some (MemBlock m) \<Longrightarrow> mb_id m = i"
  "blocks_ok ider B \<Longrightarrow> B (unat i) = Some (FileBlock fl) \<Longrightarrow> sf_id fl = i"
  unfolding blocks_ok_def by (metis unat_inject)+

lemma blocks_ok_mem_update:
  assumes "blocks_ok ider B" "B (unat i) = Some (MemBlock m)" "mb_id m' = mb_id m"
  shows "blocks_ok ider (B(unat i := Some (MemBlock m')))"
proof -
  have "unat i \<noteq> 0" using assms(1,2) by (metis blocks_ok_def option.distinct(1))
  moreover have "\<not> unat ider < unat i" using assms(1,2) by (metis blocks_ok_def option.distinct(1))
  moreover have "unat (mb_id m) = unat i" using assms(1,2) by (simp add: blocks_ok_def)
  ultimately show ?thesis using assms(1,3) unfolding blocks_ok_def by auto
qed

section \<open>The memory writer\<close>

definition cfg_ok :: "'b store_cfg \<Rightarrow> bool" where
  "cfg_ok cfg \<longleftrightarrow> key_layout (c_layout cfg) \<and> 32 \<le> unat (c_checksumInterval cfg) \<and> 32 + unat (c_pageSize cfg) < 2 ^ 32"

text \<open>
  A request the theorems are about: a timestamp, no local removal; a rewrite, which compaction sends,
  carries the value the store already has for that timestamp.
\<close>

definition req_ok :: "'b amap \<Rightarrow> 'b valueWriteReq \<Rightarrow> bool" where
  "req_ok A r \<longleftrightarrow>
     (let tsb = wr_timestampbits r AND NOT TSB_COMPACTION_REWRITE
      in tsb \<noteq> 0 \<and> tsb AND TSB_LOCAL_REMOVAL = 0 \<and>
         (wr_timestampbits r AND TSB_COMPACTION_REWRITE \<noteq> 0 \<longrightarrow>
            fst (A (wr_keyA r, wr_keyB r)) = tsb \<longrightarrow> snd (A (wr_keyA r, wr_keyB r)) = wr_value r))"

text \<open>The effect a write has on what clients see: the newest timestamp wins.\<close>

definition spec_write :: "'b valueWriteReq \<Rightarrow> 'b amap \<Rightarrow> 'b amap" where
  "spec_write r A =
     (if fst (A (wr_keyA r, wr_keyB r)) < wr_timestampbits r
      then A((wr_keyA r, wr_keyB r) :=
             (wr_timestampbits r AND NOT TSB_COMPACTION_REWRITE, wr_value r)) else A)"

lemma store_inv_places:
  assumes "store_inv L sum32 cfg S P s" "st_locmap s' = st_locmap s" "st_locBlocks s' = st_locBlocks s"
    "st_locBlockIDer s' = st_locBlockIDer s" "st_memClearers s' = st_memClearers s"
    "length (st_freeableMemBlockChans s') = length (st_freeableMemBlockChans s)"
    "st_fileWriter s' = st_fileWriter s" "owned P s' = owned P s" "places_ok (c_layout cfg) S P s'"
  shows "store_inv L sum32 cfg S P s'" and "view L S s' = view L S s"
proof -
  have "files_ok sum32 cfg S P s' = files_ok sum32 cfg S P s"
    using assms(3,6,7) by (simp add: files_ok_def get_file_def)
  with assms show "store_inv L sum32 cfg S P s'" by (simp add: store_inv_def)
  show "view L S s' = view L S s" using assms(2,3) by (simp add: view_def)
qed

lemma places_writer_state:
  assumes "places_ok Y S P s" "st_locBlocks s' = st_locBlocks s" "st_memWriters s' = (st_memWriters s)[w := mw]"
    "writer_ok (st_locBlocks s) mw" "set (st_freeMemBlockChan s') \<subseteq> set (st_freeMemBlockChan s)"
    "\<And>i. i \<in># shares mem_id (st_fileMemBlockChan s') \<Longrightarrow>
       i \<in># shares mem_id (st_fileMemBlockChan s) \<or> mem_ok (st_locBlocks s) i"
    "st_freeableMemBlockChans s' = st_freeableMemBlockChans s" "st_memClearers s' = st_memClearers s"
  shows "places_ok Y S P s'"
proof -
  have "set ((st_memWriters s)[w := mw]) \<subseteq> insert mw (set (st_memWriters s))" by (rule set_update_subset_insert)
  moreover have "filed P s' = filed P s" using assms(7,8) by (simp add: filed_def)
  moreover have "\<forall>i. i \<in># shares mem_id (st_fileMemBlockChan s') \<longrightarrow> mem_ok (st_locBlocks s) i"
    using assms(1,6) unfolding places_ok_def Let_def by blast
  ultimately show ?thesis
    using assms(1,4,5) unfolding places_ok_def Let_def assms(2,3,8) by auto
qed

lemma store_inv_frame:
  assumes "store_inv L sum32 cfg S P s" "st_locmap s' = st_locmap s" "st_locBlocks s' = st_locBlocks s"
    "st_locBlockIDer s' = st_locBlockIDer s" "st_freeMemBlockChan s' = st_freeMemBlockChan s"
    "st_memWriters s' = st_memWriters s" "shares mem_id (st_fileMemBlockChan s') = shares mem_id (st_fileMemBlockChan s)"
    "map (shares mem_id) (st_freeableMemBlockChans s') = map (shares mem_id) (st_freeableMemBlockChans s)"
    "st_memClearers s' = st_memClearers s"
    "fw_fl (st_fileWriter s') = fw_fl (st_fileWriter s)" "fw_disabled (st_fileWriter s') = fw_disabled (st_fileWriter s)"
    "fw_valueLen (st_fileWriter s') = fw_valueLen (st_fileWriter s)"
  shows "store_inv L sum32 cfg S P s'" and "view L S s' = view L S s"
proof -
  have len: "length (st_freeableMemBlockChans s') = length (st_freeableMemBlockChans s)"
    using assms(8) by (metis length_map)
  have sh: "shares (shares mem_id) (st_freeableMemBlockChans s') = shares (shares mem_id) (st_freeableMemBlockChans s)"
    using assms(8) by (simp add: shares_def [of "shares mem_id"])
  have filed: "filed P s' = filed P s" using assms(9) sh by (simp add: filed_def)
  have "owned P s' = owned P s" using assms(5-7) filed by (simp add: owned_split)
  moreover have "places_ok (c_layout cfg) S P s' = places_ok (c_layout cfg) S P s"
    using assms(3,5-7,9) filed by (simp add: places_ok_def)
  moreover have "files_ok sum32 cfg S P s' = files_ok sum32 cfg S P s"
    using assms(3,10-12) len by (simp add: files_ok_def get_file_def Let_def)
  ultimately show "store_inv L sum32 cfg S P s'"
    using assms(1-4,9) len by (simp add: store_inv_def)
  show "view L S s' = view L S s" using assms(2,3) by (simp add: view_def)
qed

lemma set_simps [simp]:
  "st_locmap (set_memWriter w mw s) = st_locmap s" "st_locBlocks (set_memWriter w mw s) = st_locBlocks s"
  "st_locBlockIDer (set_memWriter w mw s) = st_locBlockIDer s"
  "st_freeMemBlockChan (set_memWriter w mw s) = st_freeMemBlockChan s"
  "st_memWriters (set_memWriter w mw s) = (st_memWriters s)[w := mw]"
  "st_fileMemBlockChan (set_memWriter w mw s) = st_fileMemBlockChan s"
  "st_freeableMemBlockChans (set_memWriter w mw s) = st_freeableMemBlockChans s"
  "st_memClearers (set_memWriter w mw s) = st_memClearers s"
  "st_fileWriter (set_memWriter w mw s) = st_fileWriter s"
  "st_locmap (set_locBlock i blk s) = st_locmap s"
  "st_locBlocks (set_locBlock i blk s) = (st_locBlocks s)(unat i := Some blk)"
  "st_locBlockIDer (set_locBlock i blk s) = st_locBlockIDer s"
  "st_freeMemBlockChan (set_locBlock i blk s) = st_freeMemBlockChan s"
  "st_memWriters (set_locBlock i blk s) = st_memWriters s"
  "st_fileMemBlockChan (set_locBlock i blk s) = st_fileMemBlockChan s"
  "st_freeableMemBlockChans (set_locBlock i blk s) = st_freeableMemBlockChans s"
  "st_memClearers (set_locBlock i blk s) = st_memClearers s"
  "st_fileWriter (set_locBlock i blk s) = st_fileWriter s"
  by (simp_all add: set_memWriter_def set_locBlock_def)

context locmap_contract
begin

lemma view_ts: "fst (view L S s (a, b)) = fst (lm_Get L (st_locmap s) a b)"
  using Get_missing [of "st_locmap s" a b] by (auto simp: view_def abs_map_def split: prod.splits)

lemma Set_upd_loc:
  assumes "ts \<noteq> 0" "i \<noteq> 0"
  shows "lm_Get L (snd (lm_Set L m a b ts i off len same)) =
    (if set_accepts (fst (lm_Get L m a b)) ts same then upd_loc (lm_Get L m) a b (ts, i, off, len) else lm_Get L m)"
  using Set_get [OF assms(1)] assms(2) by (auto simp: fun_eq_iff upd_loc_def)

lemma req_newer:
  assumes "req_ok (view L S s) r" "fst (lm_Get L (st_locmap s) (wr_keyA r) (wr_keyB r)) < wr_timestampbits r"
    "blocks_ok ider (st_locBlocks s)" "locs_ok Y (lm_Get L (st_locmap s)) (st_locBlocks s) S C"
  shows "newer_value (lm_Get L (st_locmap s)) (st_locBlocks s) S (wr_keyA r) (wr_keyB r)
    (wr_timestampbits r AND NOT TSB_COMPACTION_REWRITE) (wr_value r)"
proof -
  let ?tsb = "wr_timestampbits r AND NOT TSB_COMPACTION_REWRITE"
  obtain ts j off len where G: "lm_Get L (st_locmap s) (wr_keyA r) (wr_keyB r) = (ts, j, off, len)"
    by (metis prod_cases4)
  have acc: "set_accepts ts ?tsb (wr_timestampbits r AND TSB_COMPACTION_REWRITE \<noteq> 0)"
    using assms(2) G accepts_iff_less by simp
  have "content S (st_locBlocks s) j off len = Some (wr_value r)" if eq: "ts = ?tsb"
  proof -
    have rw: "wr_timestampbits r AND TSB_COMPACTION_REWRITE \<noteq> 0" using acc eq by (auto simp: set_accepts_def)
    have "j \<noteq> 0"
      using Get_missing [of "st_locmap s" "wr_keyA r" "wr_keyB r"] G assms(1) eq by (auto simp: req_ok_def Let_def)
    moreover have "loc_ok Y S (st_locBlocks s) C (wr_keyA r) (wr_keyB r) (ts, j, off, len)"
      using assms(4) G by (metis locs_ok_def)
    ultimately obtain v where v: "content S (st_locBlocks s) j off len = Some v" by (auto simp: loc_ok_def)
    have "view L S s (wr_keyA r, wr_keyB r) = (ts, v)" using G v \<open>j \<noteq> 0\<close> by (simp add: view_def abs_map_def)
    then show ?thesis using assms(1) rw eq v by (auto simp: req_ok_def Let_def)
  qed
  then show ?thesis
    using assms(1) acc G by (auto simp: newer_value_def req_ok_def Let_def set_accepts_def)
qed

lemma memWriter_put_ok:
  assumes inv: "store_inv L sum32 cfg S P s" and cfg: "cfg_ok cfg" and w: "w < length (st_memWriters s)"
    and blk: "mw_block (st_memWriters s ! w) = Some i" and alloc: "length (wr_value r) \<le> alloc"
    and req: "req_ok (view L S s) r" and res: "memWriter_put L cfg w i r alloc s = Done (ans, s')"
  shows "store_inv L sum32 cfg S P s'" and "view L S s' = spec_write r (view L S s)"
    and "ans = Some (None, fst (view L S s (wr_keyA r, wr_keyB r)))"
proof -
  let ?B = "st_locBlocks s" and ?G = "lm_Get L (st_locmap s)" and ?mw = "st_memWriters s ! w"
    and ?C = "clear_pos (st_memClearers s)"
  let ?a = "wr_keyA r" and ?b = "wr_keyB r" and ?v = "wr_value r" and ?ts = "wr_timestampbits r"
  let ?tsb = "?ts AND NOT TSB_COMPACTION_REWRITE" and ?mo = "mw_memOffset ?mw" and ?to = "mw_tocOffset ?mw"
  let ?pad = "replicate (alloc - length ?v) 0 :: bytes"
  have lay: "key_layout (c_layout cfg)" using cfg by (simp add: cfg_ok_def)
  have locs: "locs_ok (c_layout cfg) ?G ?B S ?C" and entries: "entries_ok (c_layout cfg) ?G ?B S"
    and blocks: "blocks_ok (st_locBlockIDer s) ?B" and sizes: "sizes_ok cfg ?B"
    and uni: "unique (owned P s)" and places: "places_ok (c_layout cfg) S P s" and files: "files_ok sum32 cfg S P s"
    using inv by (simp_all add: store_inv_def)
  have "writer_ok ?B ?mw" using places w by (simp add: places_ok_def Let_def)
  then obtain m where m: "?B (unat i) = Some (MemBlock m)" "length (mb_toc m) = ?to" "length (mb_values m) = ?mo"
    using blk by (auto simp: writer_ok_def)
  have id: "mb_id m = i" by (rule blocks_ok_id(1) [OF blocks m(1)])
  have i0: "i \<noteq> 0" using blocks m(1) by (auto simp: blocks_ok_def)
  have C: "?C i = 0" by (rule clear_pos_none) (use writer_owns(3) [OF uni w blk] in \<open>simp add: filed_def\<close>)
  have tsb0: "?tsb \<noteq> 0" using req by (simp add: req_ok_def Let_def)
  obtain pts lm where set: "lm_Set L (st_locmap s) ?a ?b ?tsb i (of_nat ?mo) (of_nat (length ?v))
      (?ts AND TSB_COMPACTION_REWRITE \<noteq> 0) = (pts, lm)" by fastforce
  have pts: "pts = fst (?G ?a ?b)"
    using Set_prev [of "st_locmap s" ?a ?b ?tsb i] set by (metis fst_conv)
  have G': "lm_Get L lm = (if pts < ?ts then upd_loc ?G ?a ?b (?tsb, i, of_nat ?mo, of_nat (length ?v)) else ?G)"
    using Set_upd_loc [OF tsb0 i0, of "st_locmap s" ?a ?b "of_nat ?mo" "of_nat (length ?v)"
        "?ts AND TSB_COMPACTION_REWRITE \<noteq> 0"] set pts accepts_iff_less by simp
  have fits: "\<not> unat (c_pageSize cfg) < ?mo + alloc" using res m(1) by (auto simp: memWriter_put_def Let_def)
  have "store_inv L sum32 cfg S P s' \<and> view L S s' = spec_write r (view L S s) \<and> ans = Some (None, pts)"
  proof (cases "pts < ?ts")
    case True
    let ?m = "m\<lparr>mb_values := mb_values m @ ?v @ ?pad,
        mb_toc := mb_toc m @ putTOCEntry (c_layout cfg) ?a ?b ?tsb (of_nat ?mo) (of_nat (length ?v))\<rparr>"
    let ?mw' = "?mw\<lparr>mw_tocOffset := ?to + FILE_ENTRY_SIZE (c_layout cfg), mw_memOffset := ?mo + alloc\<rparr>"
    have s': "s' = set_memWriter w ?mw' (set_locBlock i (MemBlock ?m) (s\<lparr>st_locmap := lm\<rparr>))"
      and ans: "ans = Some (None, pts)"
      using res m id set True by (auto simp: memWriter_put_def Let_def split: if_splits)
    have ap: "appended (c_layout cfg) m ?a ?b ?tsb ?v ?pad ?m"
      using fits alloc cfg m(3) by (auto simp: appended_def cfg_ok_def)
    have nv: "newer_value ?G ?B S ?a ?b ?tsb ?v"
      by (rule req_newer [OF req _ blocks locs]) (use True pts in simp)
    note upd = G' [unfolded if_P [OF True], folded m(3)]
    have "locs_ok (c_layout cfg) (lm_Get L lm) (?B(unat i := Some (MemBlock ?m))) S ?C"
      and "entries_ok (c_layout cfg) (lm_Get L lm) (?B(unat i := Some (MemBlock ?m))) S"
      and view: "abs_map (lm_Get L lm) (?B(unat i := Some (MemBlock ?m))) S = (view L S s)((?a, ?b) := (?tsb, ?v))"
      unfolding upd view_def
      by (rule key_layout.append_locs_ok [OF lay ap, of ?B i, OF m(1) C nv locs entries]
          key_layout.append_entries_ok [OF lay ap, of ?B i, OF m(1) nv entries]
          abs_map_write [OF ap, of ?B i, OF m(1) i0 locs])+
    moreover have "places_ok (c_layout cfg) S P s'"
      by (rule places_writer_update [OF places uni w blk m(1), where mw = ?mw' and m' = ?m])
        (use m blk alloc in \<open>simp_all add: s' key_layout.length_putTOCEntry [OF lay]\<close>)
    moreover have "files_ok sum32 cfg S P s'"
      by (rule files_ok_mem_update [where s = s and s' = s' and i = i and m' = ?m, OF files m(1)]) (simp_all add: s')
    moreover have "owned P s' = owned P s"
      using w blk by (simp add: s' owned_def shares_update_eq)
    moreover have "blocks_ok (st_locBlockIDer s) (?B(unat i := Some (MemBlock ?m)))"
      by (rule blocks_ok_mem_update [where B = ?B and i = i, OF blocks m(1)]) simp
    moreover have "sizes_ok cfg (?B(unat i := Some (MemBlock ?m)))"
      using sizes fits alloc m(3) by (auto simp: sizes_ok_def)
    moreover have comps: "st_locmap s' = lm" "st_locBlocks s' = ?B(unat i := Some (MemBlock ?m))"
      "st_locBlockIDer s' = st_locBlockIDer s" "st_memClearers s' = st_memClearers s"
      "st_freeableMemBlockChans s' = st_freeableMemBlockChans s"
      by (simp_all add: s')
    ultimately have "store_inv L sum32 cfg S P s'"
      using inv uni unfolding store_inv_def comps by metis
    moreover have "view L S s' = spec_write r (view L S s)"
      using view True pts view_ts [of S s ?a ?b] unfolding view_def [of L S s'] comps spec_write_def by simp
    ultimately show ?thesis using ans by blast
  next
    case False
    have s': "s' = set_locBlock i (MemBlock (m\<lparr>mb_values := take ?mo (mb_values m)\<rparr>)) (s\<lparr>st_locmap := lm\<rparr>)"
      and ans: "ans = Some (None, pts)"
      using res m id set False by (auto simp: memWriter_put_def Let_def split: if_splits)
    have "m\<lparr>mb_values := take ?mo (mb_values m)\<rparr> = m" using m(3) by simp
    then have B': "st_locBlocks s' = ?B" unfolding s' using m(1) by (auto simp: fun_eq_iff)
    have G: "lm_Get L (st_locmap s') = ?G" using G' False by (simp add: s')
    have "store_inv L sum32 cfg S P s'"
      using inv B' unfolding store_inv_def G
      by (simp add: s' owned_def places_ok_def filed_def files_ok_def get_file_def)
    then show ?thesis
      using False pts ans view_ts [of S s ?a ?b] B' G by (simp add: spec_write_def view_def)
  qed
  then show "store_inv L sum32 cfg S P s'" and "view L S s' = spec_write r (view L S s)"
    and "ans = Some (None, fst (view L S s (wr_keyA r, wr_keyB r)))"
    using view_ts [of S s ?a ?b] pts by simp_all
qed

lemma memWriter_send_ok:
  assumes inv: "store_inv L sum32 cfg S P s" and w: "w < length (st_memWriters s)"
    and blk: "mw_block (st_memWriters s ! w) = Some i"
  shows "store_inv L sum32 cfg S P (memWriter_send w i s)" and "view L S (memWriter_send w i s) = view L S s"
proof -
  let ?s = "memWriter_send w i s"
  have "writer_ok (st_locBlocks s) (st_memWriters s ! w)" "places_ok (c_layout cfg) S P s"
    using inv w by (simp_all add: store_inv_def places_ok_def Let_def)
  then have "mem_ok (st_locBlocks s) i" using blk by (auto simp: writer_ok_def mem_ok_def)
  then have "places_ok (c_layout cfg) S P ?s"
    by (intro places_writer_state [OF \<open>places_ok (c_layout cfg) S P s\<close>])
      (auto simp: memWriter_send_def writer_ok_def)
  moreover have "shares (opt_mset \<circ> mw_block) ((st_memWriters s)[w := (st_memWriters s ! w)\<lparr>mw_block := None\<rparr>]) + {#i#} =
      shares (opt_mset \<circ> mw_block) (st_memWriters s)"
    using shares_update [OF w, of "opt_mset \<circ> mw_block" "(st_memWriters s ! w)\<lparr>mw_block := None\<rparr>"] blk by simp
  then have "owned P ?s = owned P s"
    by (simp add: memWriter_send_def owned_def)
  ultimately show "store_inv L sum32 cfg S P ?s" "view L S ?s = view L S s"
    using store_inv_places [OF inv, of ?s] by (simp_all add: memWriter_send_def)
qed

lemma memWriter_flush_ok:
  assumes "store_inv L sum32 cfg S P s" "w < length (st_memWriters s)"
  shows "store_inv L sum32 cfg S P (memWriter_flush w s)" and "view L S (memWriter_flush w s) = view L S s"
  using memWriter_send_ok [OF assms] assms(1)
  by (auto simp: memWriter_flush_def split: option.splits valueLocBlock.splits)

text \<open>Taking a free block.\<close>

lemma memWriter_take_ok:
  assumes inv: "store_inv L sum32 cfg S P s" and w: "w < length (st_memWriters s)"
    and blk: "mw_block (st_memWriters s ! w) = None" and free: "st_freeMemBlockChan s = i # rest"
    and mw: "mw = (st_memWriters s ! w)\<lparr>mw_block := Some i, mw_tocOffset := 0, mw_memOffset := 0\<rparr>"
    and s': "s' = set_memWriter w mw (s\<lparr>st_freeMemBlockChan := rest\<rparr>)"
  shows "store_inv L sum32 cfg S P s'" and "view L S s' = view L S s"
proof -
  have places: "places_ok (c_layout cfg) S P s" using inv by (simp add: store_inv_def)
  then have "free_ok (st_locBlocks s) i" using free by (simp add: places_ok_def Let_def)
  then have "writer_ok (st_locBlocks s) mw" by (auto simp: free_ok_def writer_ok_def mw)
  then have "places_ok (c_layout cfg) S P s'"
    by (intro places_writer_state [OF places]) (auto simp: s' free)
  moreover have "shares (opt_mset \<circ> mw_block) ((st_memWriters s)[w := mw]) =
      shares (opt_mset \<circ> mw_block) (st_memWriters s) + {#i#}"
    using shares_update [OF w, of "opt_mset \<circ> mw_block" mw] blk by (simp add: mw)
  then have "owned P s' = owned P s" by (simp add: s' owned_def free)
  ultimately show "store_inv L sum32 cfg S P s'" "view L S s' = view L S s"
    using store_inv_places [OF inv, of s'] by (simp_all add: s')
qed

lemma memWriter_state_ok:
  assumes "store_inv L sum32 cfg S P s" "w < length (st_memWriters s)"
    "mw_block mw = mw_block (st_memWriters s ! w)" "mw_tocOffset mw = mw_tocOffset (st_memWriters s ! w)"
    "mw_memOffset mw = mw_memOffset (st_memWriters s ! w)"
  shows "store_inv L sum32 cfg S P (set_memWriter w mw s)" and "view L S (set_memWriter w mw s) = view L S s"
proof -
  have places: "places_ok (c_layout cfg) S P s" "writer_ok (st_locBlocks s) (st_memWriters s ! w)"
    using assms(1,2) by (simp_all add: store_inv_def places_ok_def Let_def)
  then have "places_ok (c_layout cfg) S P (set_memWriter w mw s)"
    using assms(3-5) by (intro places_writer_state [OF places(1), where w = w and mw = mw]) (auto simp: writer_ok_def)
  moreover have "owned P (set_memWriter w mw s) = owned P s"
    using assms(2,3) by (simp add: owned_def shares_update_eq)
  ultimately show "store_inv L sum32 cfg S P (set_memWriter w mw s)" "view L S (set_memWriter w mw s) = view L S s"
    using store_inv_places [OF assms(1), of "set_memWriter w mw s"] by simp_all
qed

text \<open>A turn of a memory writer: a request it answers without error has the specified effect.\<close>

definition turn_effect :: "'b writeMsg \<Rightarrow> (go_error option \<times> u64) option \<Rightarrow> 'b amap \<Rightarrow> 'b amap" where
  "turn_effect msg ans A =
     (case (msg, ans) of (WriteReq r, Some (None, _)) \<Rightarrow> spec_write r A | _ \<Rightarrow> A)"

lemma memWriter_write_ok:
  assumes inv: "store_inv L sum32 cfg S P s" and cfg: "cfg_ok cfg" and w: "w < length (st_memWriters s)"
    and req: "req_ok (view L S s) r" and res: "memWriter L cfg w (WriteReq r) s = Done (ans, s')"
  shows "store_inv L sum32 cfg S P s' \<and> view L S s' = turn_effect (WriteReq r) ans (view L S s) \<and>
    (\<forall>pts. ans = Some (None, pts) \<longrightarrow> pts = fst (view L S s (wr_keyA r, wr_keyB r)))"
proof -
  let ?mw = "st_memWriters s ! w" and ?alloc = "max (length (wr_value r)) (c_minValueAlloc cfg)"
  consider (disabled) "\<not> mw_enabled ?mw \<and> \<not> wr_internal r"
    | (long) "\<not> (\<not> mw_enabled ?mw \<and> \<not> wr_internal r)" "unat (c_valueCap cfg) < length (wr_value r)"
    | (ok) "\<not> (\<not> mw_enabled ?mw \<and> \<not> wr_internal r)" "\<not> unat (c_valueCap cfg) < length (wr_value r)"
    by blast
  then show ?thesis
  proof cases
    case disabled
    then show ?thesis using res inv by (auto simp: memWriter_def Let_def turn_effect_def)
  next
    case long
    then show ?thesis using res inv by (auto simp: memWriter_def Let_def turn_effect_def)
  next
    case ok
    define s1 where "s1 = (case mw_block ?mw of None \<Rightarrow> s
       | Some i \<Rightarrow> if unat (c_pageSize cfg) < mw_tocOffset ?mw + FILE_ENTRY_SIZE (c_layout cfg) \<or> unat (c_pageSize cfg) < mw_memOffset ?mw + ?alloc
                   then memWriter_send w i s else s)"
    have s1: "store_inv L sum32 cfg S P s1" "view L S s1 = view L S s" "w < length (st_memWriters s1)"
      using memWriter_send_ok [OF inv w] inv w
      by (auto simp: s1_def memWriter_send_def split: option.splits)
    have put: "store_inv L sum32 cfg S P s' \<and> view L S s' = turn_effect (WriteReq r) ans (view L S s) \<and>
        (\<forall>pts. ans = Some (None, pts) \<longrightarrow> pts = fst (view L S s (wr_keyA r, wr_keyB r)))"
      if "store_inv L sum32 cfg S P s2" "view L S s2 = view L S s" "w < length (st_memWriters s2)"
        "mw_block (st_memWriters s2 ! w) = Some i" "memWriter_put L cfg w i r ?alloc s2 = Done (ans, s')" for s2 i
      using memWriter_put_ok [OF that(1) cfg that(3,4) _ _ that(5)] that(2) req
      by (simp add: turn_effect_def)
    have res1: "(case mw_block (st_memWriters s1 ! w) of Some i \<Rightarrow> memWriter_put L cfg w i r ?alloc s1
        | None \<Rightarrow> (case st_freeMemBlockChan s1 of [] \<Rightarrow> Blocked
          | i # rest \<Rightarrow> memWriter_put L cfg w i r ?alloc
              (set_memWriter w ((st_memWriters s1 ! w)\<lparr>mw_block := Some i, mw_tocOffset := 0, mw_memOffset := 0\<rparr>)
                 (s1\<lparr>st_freeMemBlockChan := rest\<rparr>)))) = Done (ans, s')"
      using res unfolding memWriter_def Let_def s1_def
      by (simp only: writeMsg.case if_not_P [OF ok(1)] if_not_P [OF ok(2)])
    show ?thesis
    proof (cases "mw_block (st_memWriters s1 ! w)")
      case (Some i)
      then show ?thesis using put [OF s1 Some] res1 by simp
    next
      case None
      then obtain i rest where free: "st_freeMemBlockChan s1 = i # rest"
        using res1 by (auto split: list.splits)
      note tk = memWriter_take_ok [OF s1(1,3) None free refl refl]
      show ?thesis
        by (rule put [OF tk(1)]) (use tk(2) s1 None free res1 in simp_all)
    qed
  qed
qed

lemma memWriter_ok:
  assumes inv: "store_inv L sum32 cfg S P s" and cfg: "cfg_ok cfg" and w: "w < length (st_memWriters s)"
    and req: "\<And>r. msg = WriteReq r \<Longrightarrow> req_ok (view L S s) r" and res: "memWriter L cfg w msg s = Done (ans, s')"
  shows "store_inv L sum32 cfg S P s'" and "view L S s' = turn_effect msg ans (view L S s)"
proof -
  let ?f = "memWriter_flush w s"
  have wf: "w < length (st_memWriters ?f)"
    using w by (auto simp: memWriter_flush_def memWriter_send_def split: option.splits valueLocBlock.splits)
  note fl = memWriter_flush_ok [OF inv w]
  have "store_inv L sum32 cfg S P s' \<and> view L S s' = turn_effect msg ans (view L S s)"
  proof (cases msg)
    case (WriteReq r)
    with memWriter_write_ok [OF inv cfg w req] res show ?thesis by blast
  next
    case EnableReq
    with res memWriter_state_ok [OF inv w] show ?thesis by (auto simp: memWriter_def Let_def turn_effect_def)
  next
    case DisableReq
    with res memWriter_state_ok [OF inv w] show ?thesis by (auto simp: memWriter_def Let_def turn_effect_def)
  next
    case FlushReq
    then have s': "s' = ?f\<lparr>st_fileMemBlockChan := st_fileMemBlockChan ?f @ [FlushMB]\<rparr>"
      using res by (simp add: memWriter_def Let_def)
    show ?thesis
      using store_inv_frame [OF fl(1), of s'] fl(2) FlushReq by (simp add: s' turn_effect_def)
  next
    case ShutdownReq
    let ?s = "?f\<lparr>st_fileMemBlockChan := st_fileMemBlockChan ?f @ [ShutdownMB]\<rparr>"
    have s': "s' = set_memWriter w ((st_memWriters ?s ! w)\<lparr>mw_running := False\<rparr>) ?s"
      using res ShutdownReq by (simp add: memWriter_def Let_def)
    have "store_inv L sum32 cfg S P ?s" "view L S ?s = view L S ?f"
      using store_inv_frame [OF fl(1), of ?s] by simp_all
    from memWriter_state_ok [OF this(1), of w "(st_memWriters ?s ! w)\<lparr>mw_running := False\<rparr>"] this(2) fl(2) wf
    show ?thesis using ShutdownReq by (simp add: s' turn_effect_def)
  qed
  then show "store_inv L sum32 cfg S P s'" and "view L S s' = turn_effect msg ans (view L S s)" by auto
qed

end

end
