(* ===== verification/StoreDisk.thy ===== *)
theory StoreDisk
  imports StoreSim
begin

unbundle bit_operations_syntax

text \<open>
  The file writer and the goroutines of the file being written keep the invariant and what clients
  see.  A block taken from a channel belongs to nobody while it is handled: \<open>mb\<close> is then an owner
  short of the invariant.
\<close>

section \<open>Handing blocks on\<close>

lemma send_freeable_simps [simp]:
  "st_locmap (send_freeable k msg s) = st_locmap s" "st_locBlocks (send_freeable k msg s) = st_locBlocks s"
  "st_locBlockIDer (send_freeable k msg s) = st_locBlockIDer s"
  "st_freeMemBlockChan (send_freeable k msg s) = st_freeMemBlockChan s"
  "st_memWriters (send_freeable k msg s) = st_memWriters s"
  "st_fileMemBlockChan (send_freeable k msg s) = st_fileMemBlockChan s"
  "st_memClearers (send_freeable k msg s) = st_memClearers s"
  "st_fileWriter (send_freeable k msg s) = st_fileWriter s"
  "length (st_freeableMemBlockChans (send_freeable k msg s)) = length (st_freeableMemBlockChans s)"
  by (simp_all add: send_freeable_def)

lemma send_freeable_shares:
  "k < length (st_freeableMemBlockChans s) \<Longrightarrow>
   shares (shares mem_id) (st_freeableMemBlockChans (send_freeable k msg s)) =
     shares (shares mem_id) (st_freeableMemBlockChans s) + mem_id msg"
  using shares_update [of k "st_freeableMemBlockChans s" "shares mem_id" "st_freeableMemBlockChans s ! k @ [msg]"]
  by (simp add: send_freeable_def ac_simps)

abbreviation deliver :: "(nat \<times> u32) list \<Rightarrow> 'm valueStore \<Rightarrow> 'm valueStore" where
  "deliver freed s \<equiv> foldl (\<lambda>s (k, mb). send_freeable k (MB mb) s) s freed"

lemma deliver_simps [simp]:
  "st_locmap (deliver freed s) = st_locmap s" "st_locBlocks (deliver freed s) = st_locBlocks s"
  "st_locBlockIDer (deliver freed s) = st_locBlockIDer s"
  "st_freeMemBlockChan (deliver freed s) = st_freeMemBlockChan s"
  "st_memWriters (deliver freed s) = st_memWriters s"
  "st_fileMemBlockChan (deliver freed s) = st_fileMemBlockChan s"
  "st_memClearers (deliver freed s) = st_memClearers s"
  "st_fileWriter (deliver freed s) = st_fileWriter s"
  "length (st_freeableMemBlockChans (deliver freed s)) = length (st_freeableMemBlockChans s)"
  by (induction freed arbitrary: s) auto

lemma deliver_shares:
  "\<forall>x \<in> set freed. fst x < length (st_freeableMemBlockChans s) \<Longrightarrow>
   shares (shares mem_id) (st_freeableMemBlockChans (deliver freed s)) =
     shares (shares mem_id) (st_freeableMemBlockChans s) + mset (map snd freed)"
proof (induction freed arbitrary: s)
  case (Cons x freed)
  then show ?case
    using send_freeable_shares [of "fst x" s "MB (snd x)"] by (simp add: case_prod_unfold)
qed simp

lemma broadcast_freeable_simps [simp]:
  fixes ks :: "nat list"
  shows "st_locmap (foldl (\<lambda>s k. send_freeable k msg s) s ks) = st_locmap s"
    "st_locBlocks (foldl (\<lambda>s k. send_freeable k msg s) s ks) = st_locBlocks s"
    "st_locBlockIDer (foldl (\<lambda>s k. send_freeable k msg s) s ks) = st_locBlockIDer s"
    "st_freeMemBlockChan (foldl (\<lambda>s k. send_freeable k msg s) s ks) = st_freeMemBlockChan s"
    "st_memWriters (foldl (\<lambda>s k. send_freeable k msg s) s ks) = st_memWriters s"
    "st_fileMemBlockChan (foldl (\<lambda>s k. send_freeable k msg s) s ks) = st_fileMemBlockChan s"
    "st_memClearers (foldl (\<lambda>s k. send_freeable k msg s) s ks) = st_memClearers s"
    "st_fileWriter (foldl (\<lambda>s k. send_freeable k msg s) s ks) = st_fileWriter s"
  by (induction ks arbitrary: s) auto

lemma broadcast_freeable_shares:
  fixes ks :: "nat list"
  assumes "mem_id msg = {#}"
  shows "map (shares mem_id) (st_freeableMemBlockChans (foldl (\<lambda>s k. send_freeable k msg s) s ks)) =
    map (shares mem_id) (st_freeableMemBlockChans s)"
proof (induction ks arbitrary: s)
  case (Cons k ks)
  have "map (shares mem_id) (st_freeableMemBlockChans (send_freeable k msg s)) =
      map (shares mem_id) (st_freeableMemBlockChans s)"
    using assms by (cases "k < length (st_freeableMemBlockChans s)")
      (auto simp: send_freeable_def map_update list_update_same_conv list_update_beyond)
  with Cons show ?case by simp
qed simp

section \<open>The file invariant without the blocks handed on\<close>

lemma file_inv_clear_freed:
  assumes "file_inv sum32 ci stream mbs fl"
  shows "\<exists>P. file_inv sum32 ci stream P (fl\<lparr>sf_freed := []\<rparr>) \<and> mset mbs = mset P + mset (map snd (sf_freed fl))"
proof -
  obtain blocks cur M where inv: "\<forall>b \<in> set blocks. length (fst b) = unat ci" "sf_cur fl = Some cur"
    "wb_seq cur = length blocks" "length (wb_data cur) \<le> unat ci" "concat (map fst blocks) @ wb_data cur = stream"
    "sf_writerOffset fl = of_nat (length stream)" "pipe_inv sum32 blocks M fl"
    "M + mset (wb_memBlocks cur) = mset mbs" "None \<notin> set (sf_toDisk fl)" "\<not> sf_lastWasNil fl" "sf_interval fl = ci"
    using assms by (auto simp: file_inv_def)
  let ?M = "mset (concat (map snd (drop (sf_seq fl) blocks)))"
  have "pipe_inv sum32 blocks ?M (fl\<lparr>sf_freed := []\<rparr>)"
    using inv(7) by (simp add: pipe_inv_def outstanding_def)
  moreover obtain P where P: "mset P = ?M + mset (wb_memBlocks cur)" by (metis ex_mset)
  moreover have "mset (map snd (sf_freed fl)) + ?M + mset (wb_memBlocks cur) = mset mbs"
    using inv(7,8) by (simp add: pipe_inv_def)
  then have "mset mbs = mset P + mset (map snd (sf_freed fl))" using P by (simp add: ac_simps)
  ultimately show ?thesis
    using inv unfolding file_inv_def
    by (intro exI [of _ P] conjI exI [of _ blocks] exI [of _ cur] exI [of _ ?M]) simp_all
qed

lemma index_ok_free: "0 < n \<Longrightarrow> index_ok n fl \<Longrightarrow> index_ok n (freeMemBlock n fl mb)"
  by (auto simp: index_ok_def freeMemBlock_def)

lemma index_ok_frees: "0 < n \<Longrightarrow> index_ok n fl \<Longrightarrow> index_ok n (foldl (freeMemBlock n) fl mbs)"
  by (induction mbs arbitrary: fl) (auto intro: index_ok_free)

lemma index_ok_upd [simp]:
  "index_ok n (fl\<lparr>sf_writerOffset := a\<rparr>) = index_ok n fl" "index_ok n (fl\<lparr>sf_cur := c\<rparr>) = index_ok n fl"
  "index_ok n (fl\<lparr>sf_checksumChan := q\<rparr>) = index_ok n fl" "index_ok n (fl\<lparr>sf_held := q\<rparr>) = index_ok n fl"
  "index_ok n (fl\<lparr>sf_toDisk := d\<rparr>) = index_ok n fl" "index_ok n (fl\<lparr>sf_seq := k\<rparr>) = index_ok n fl"
  "index_ok n (fl\<lparr>sf_lastWasNil := x\<rparr>) = index_ok n fl" "index_ok n (fl\<lparr>sf_stopped := x\<rparr>) = index_ok n fl"
  "index_ok n (fl\<lparr>sf_disk := bs\<rparr>) = index_ok n fl"
  by (simp_all add: index_ok_def)

lemma index_ok_iter: "0 < n \<Longrightarrow> index_ok n fl \<Longrightarrow> writer_iter n werr fl = Some fl' \<Longrightarrow> index_ok n fl'"
  by (auto simp: writer_iter_def Let_def split: if_splits list.splits option.splits
      intro!: index_ok_frees)

lemma index_ok_step: "0 < n \<Longrightarrow> index_ok n fl \<Longrightarrow> pipe_step sum32 n werr fl fl' \<Longrightarrow> index_ok n fl'"
  by (erule pipe_stepE)
    (auto simp: writingChecksummer_recv_def writingChecksummer_send_def Let_def
      split: list.splits if_splits intro: index_ok_iter)

lemma index_ok_run:
  assumes "writer_run n werr fl = Some fl'" "0 < n" "index_ok n fl"
  shows "index_ok n fl'"
proof -
  have "0 < n \<longrightarrow> index_ok n fl \<longrightarrow> index_ok n fl'"
  proof (rule writer_run.raw_induct [where P = "\<lambda>n werr fl fl'. 0 < n \<longrightarrow> index_ok n fl \<longrightarrow> index_ok n fl'", OF _ assms(1)])
    fix run n werr fl fl'
    assume IH: "\<And>n werr fl fl'. run n werr fl = Some fl' \<Longrightarrow> 0 < n \<longrightarrow> index_ok n fl \<longrightarrow> index_ok n fl'"
      and body: "(case writer_iter n werr fl of None \<Rightarrow> Some fl | Some fl' \<Rightarrow> run n werr fl') = Some fl'"
    show "0 < n \<longrightarrow> index_ok n fl \<longrightarrow> index_ok n fl'"
    proof (cases "writer_iter n werr fl")
      case None
      with body show ?thesis by simp
    next
      case (Some fl1)
      then have "run n werr fl1 = Some fl'" using body by simp
      with IH index_ok_iter [OF _ _ Some] show ?thesis by blast
    qed
  qed
  with assms show ?thesis by blast
qed

lemma index_ok_close:
  assumes "closeWriting sum32 n werr terr cerr sched ci fl = Some (err, fl')" "0 < n" "index_ok n fl"
  shows "index_ok n fl'"
proof (cases "sf_cur fl")
  case None
  with assms show ?thesis by (simp add: closeWriting_def)
next
  case (Some cur)
  let ?fl = "fl\<lparr>sf_checksumChan := [], sf_held := [],
      sf_toDisk := sf_toDisk fl @ map (\<lambda>b. Some (b\<lparr>wb_data := sealed sum32 (wb_data b)\<rparr>))
        (sched (sf_held fl @ sf_checksumChan fl)) @ [None]\<rparr>"
  obtain fl1 disk where "writer_run n werr ?fl = Some fl1"
    "fl' = (foldl (freeMemBlock n) (fl1\<lparr>sf_disk := disk\<rparr>) (wb_memBlocks cur))\<lparr>sf_cur := None\<rparr>"
    using assms(1) Some
    by (auto simp: closeWriting_def Let_def case_prod_unfold split: if_splits elim!: bind_eq_SomeE)
  then show ?thesis
    using index_ok_run [of n werr ?fl fl1] assms(2,3) index_ok_frees by simp
qed

lemma index_ok_write:
  assumes "valueStoreFile_write n ci mb vs fl = Some (off, fl')" "file_inv sum32 ci stream mbs fl"
    "0 < unat ci" "0 < n" "index_ok n fl"
  shows "index_ok n fl'"
proof (cases "vs = []")
  case True
  then show ?thesis using assms by (auto simp: valueStoreFile_write_def Let_def intro: index_ok_free)
next
  case False
  obtain cur where cur: "sf_cur fl = Some cur" using assms(2) by (auto simp: file_inv_def)
  then have "file_inv sum32 ci stream mbs (fl\<lparr>sf_cur := Some cur\<rparr>)" using assms(2) by (simp add: file_inv_def)
  from write_loop_inv [OF this assms(3), of vs] obtain fl1 cur1 where
    fl1: "write_loop (unat ci) cur vs fl = Some fl1" "sf_cur fl1 = Some cur1" "sf_freed fl1 = sf_freed fl"
    "sf_index fl1 = sf_index fl" by blast
  then have "index_ok n fl1" using assms(5) by (simp add: index_ok_def)
  then show ?thesis
    using assms(1,4) False cur fl1
    by (auto simp: valueStoreFile_write_def Let_def split: if_splits intro: index_ok_free)
qed

section \<open>Writing a block to the file\<close>

lemma put_file_simps [simp]:
  "st_locmap (put_file i fl s) = st_locmap s"
  "st_locBlocks (put_file i fl s) = (st_locBlocks s)(unat i := Some (FileBlock (fl\<lparr>sf_freed := []\<rparr>)))"
  "st_locBlockIDer (put_file i fl s) = st_locBlockIDer s"
  "st_freeMemBlockChan (put_file i fl s) = st_freeMemBlockChan s"
  "st_memWriters (put_file i fl s) = st_memWriters s"
  "st_fileMemBlockChan (put_file i fl s) = st_fileMemBlockChan s"
  "st_memClearers (put_file i fl s) = st_memClearers s"
  "st_fileWriter (put_file i fl s) = st_fileWriter s"
  "length (st_freeableMemBlockChans (put_file i fl s)) = length (st_freeableMemBlockChans s)"
  by (simp_all add: put_file_def)

lemma put_file_shares:
  "index_ok (length (st_freeableMemBlockChans s)) fl \<Longrightarrow>
   shares (shares mem_id) (st_freeableMemBlockChans (put_file i fl s)) =
     shares (shares mem_id) (st_freeableMemBlockChans s) + mset (map snd (sf_freed fl))"
  unfolding put_file_def by (subst deliver_shares) (simp_all add: index_ok_def)

lemma place_ok_cong:
  "B' (unat j) = B (unat j) \<Longrightarrow> free_ok B j \<Longrightarrow> free_ok B' j"
  "B' (unat j) = B (unat j) \<Longrightarrow> mem_ok B j \<Longrightarrow> mem_ok B' j"
  by (simp_all add: free_ok_def mem_ok_def)

lemma writer_ok_cong:
  "(\<And>j. mw_block mw = Some j \<Longrightarrow> B' (unat j) = B (unat j)) \<Longrightarrow> writer_ok B mw \<Longrightarrow> writer_ok B' mw"
  by (auto simp: writer_ok_def)

lemma clearer_ok_cong:
  "(\<And>j. j \<in># clearing mc \<Longrightarrow> B' (unat j) = B (unat j)) \<Longrightarrow> clearer_ok Y B mc \<Longrightarrow> clearer_ok Y B' mc"
  by (auto simp: clearer_ok_def clearing_def)

text \<open>The blocks the places name are memory blocks.\<close>

lemma places_mem:
  assumes "places_ok Y S P s" "j \<in># owned P s"
  shows "mem_ok (st_locBlocks s) j"
proof -
  have "mem_ok (st_locBlocks s) j" if w: "j \<in># shares (opt_mset \<circ> mw_block) (st_memWriters s)"
  proof -
    obtain mw where "mw \<in> set (st_memWriters s)" "mw_block mw = Some j"
      by (rule shares_memberE [OF w]) (auto simp: opt_mset_def split: option.splits)
    moreover from this(1) have "writer_ok (st_locBlocks s) mw" using assms(1) by (simp add: places_ok_def Let_def)
    ultimately show ?thesis by (auto simp: writer_ok_def mem_ok_def)
  qed
  then show ?thesis
    using assms by (auto simp: owned_split places_ok_def Let_def free_ok_def mem_ok_def filed_ok_def)
qed

text \<open>Streams that grow, blocks that stay.\<close>

definition grows :: "(nat \<Rightarrow> bytes) \<Rightarrow> (nat \<Rightarrow> bytes) \<Rightarrow> bool" where
  "grows S S' \<longleftrightarrow> (\<forall>f. S' f = S f \<or> (\<exists>ext. S' f = S f @ ext \<and> length (S' f) < 2 ^ 32))"

definition keeps_files :: "(nat \<Rightarrow> valueLocBlock option) \<Rightarrow> (nat \<Rightarrow> valueLocBlock option) \<Rightarrow> bool" where
  "keeps_files B B' \<longleftrightarrow> (\<forall>f fl. B f = Some (FileBlock fl) \<longrightarrow> (\<exists>fl'. B' f = Some (FileBlock fl')))"

lemma in_file_grow:
  assumes "in_file S B m" "grows S S'" "keeps_files B B'"
  shows "in_file S' B' m"
proof -
  from assms(2) consider "S' (unat (mb_fileID m)) = S (unat (mb_fileID m))"
    | ext where "S' (unat (mb_fileID m)) = S (unat (mb_fileID m)) @ ext" "length (S' (unat (mb_fileID m))) < 2 ^ 32"
    unfolding grows_def by blast
  then show ?thesis
    using assms(1,3) by cases (auto simp: in_file_def keeps_files_def)
qed

lemma filed_ok_grow:
  "B' (unat j) = B (unat j) \<Longrightarrow> grows S S' \<Longrightarrow> keeps_files B B' \<Longrightarrow> filed_ok S B j \<Longrightarrow> filed_ok S' B' j"
  using in_file_grow by (fastforce simp: filed_ok_def)

lemma places_change:
  assumes "places_ok Y S P s" and same: "\<And>j. j \<in># owned P s \<Longrightarrow> st_locBlocks s' (unat j) = st_locBlocks s (unat j)"
    and "grows S S'" "keeps_files (st_locBlocks s) (st_locBlocks s')"
    and "st_freeMemBlockChan s' = st_freeMemBlockChan s" "st_memWriters s' = st_memWriters s"
    "shares mem_id (st_fileMemBlockChan s') \<subseteq># shares mem_id (st_fileMemBlockChan s)"
    "st_memClearers s' = st_memClearers s"
    and filed: "\<And>j. j \<in># filed P' s' \<Longrightarrow> j \<in># filed P s \<or> filed_ok S' (st_locBlocks s') j"
  shows "places_ok Y S' P' s'"
proof -
  let ?B = "st_locBlocks s" and ?B' = "st_locBlocks s'"
  have "free_ok ?B' j" if "j \<in> set (st_freeMemBlockChan s)" for j
    using place_ok_cong(1) [of ?B' j ?B] same that assms(1) by (simp add: owned_split places_ok_def Let_def)
  moreover have "writer_ok ?B' mw" if mw: "mw \<in> set (st_memWriters s)" for mw
  proof (rule writer_ok_cong)
    fix j assume "mw_block mw = Some j"
    then have "j \<in># shares (opt_mset \<circ> mw_block) (st_memWriters s)" using mw by (auto intro: shares_member)
    then show "?B' (unat j) = ?B (unat j)" by (intro same) (simp add: owned_split)
  next
    show "writer_ok ?B mw" using assms(1) mw by (simp add: places_ok_def Let_def)
  qed
  moreover have "mem_ok ?B' j" if j: "j \<in># shares mem_id (st_fileMemBlockChan s')" for j
  proof -
    have "j \<in># shares mem_id (st_fileMemBlockChan s)" using j assms(7) by (metis mset_subset_eqD)
    then show ?thesis
      using place_ok_cong(2) [of ?B' j ?B] same assms(1) by (simp add: owned_split places_ok_def Let_def)
  qed
  moreover have filed_old: "filed_ok S' ?B' j" if "j \<in># filed P s" for j
    using that filed_ok_grow [of ?B' j ?B S S'] same assms(1,3,4) by (simp add: owned_split places_ok_def Let_def)
  then have "filed_ok S' ?B' j" if "j \<in># filed P' s'" for j using filed [OF that] by blast
  moreover have "clearer_ok Y ?B' mc" if mc: "mc \<in> set (st_memClearers s)" for mc
  proof (rule clearer_ok_cong)
    fix j assume "j \<in># clearing mc"
    then show "?B' (unat j) = ?B (unat j)" using filed_clearing [OF mc] by (intro same) (simp add: owned_split)
  next
    show "clearer_ok Y ?B mc" using assms(1) mc by (simp add: places_ok_def Let_def)
  qed
  ultimately show ?thesis
    unfolding places_ok_def Let_def assms(5,6,8) by blast
qed

lemma blocks_ok_file_update:
  assumes "blocks_ok ider B" "B (unat i) = Some (FileBlock fl)" "sf_id fl' = sf_id fl"
  shows "blocks_ok ider (B(unat i := Some (FileBlock fl')))"
proof -
  have "unat i \<noteq> 0" using assms(1,2) by (metis blocks_ok_def option.distinct(1))
  moreover have "\<not> unat ider < unat i" using assms(1,2) by (metis blocks_ok_def option.distinct(1))
  moreover have "unat (sf_id fl) = unat i" using assms(1,2) by (simp add: blocks_ok_def)
  ultimately show ?thesis using assms(1,3) unfolding blocks_ok_def by auto
qed

lemma files_ok_open:
  assumes "fw_disabled (st_fileWriter s) = None" "fw_fl (st_fileWriter s) = Some i" "get_file i s = Some fl"
    "open_ok sum32 cfg (S (unat i)) P (length (st_freeableMemBlockChans s)) fl"
    "unat (fw_valueLen (st_fileWriter s)) = length (S (unat i))" "blocks_ok ider (st_locBlocks s)"
    "\<And>j fl. st_locBlocks s j = Some (FileBlock fl) \<Longrightarrow> j \<noteq> unat i \<Longrightarrow> closed_ok sum32 cfg (S j) fl"
  shows "files_ok sum32 cfg S P s"
proof -
  have "closed_ok sum32 cfg (S j) fl'" if "st_locBlocks s j = Some (FileBlock fl')" "i \<noteq> sf_id fl'" for j fl'
  proof -
    have "unat (sf_id fl') = j" using that(1) assms(6) by (simp add: blocks_ok_def)
    then have "j \<noteq> unat i" using that(2) by auto
    with assms(7) that(1) show ?thesis by blast
  qed
  then show ?thesis using assms(1-5) unfolding files_ok_def Let_def by auto
qed

lemma files_ok_others:
  assumes "files_ok sum32 cfg S P s" "fw_fl (st_fileWriter s) = Some i" "blocks_ok ider (st_locBlocks s)"
    "st_locBlocks s j = Some (FileBlock fl)" "j \<noteq> unat i"
  shows "closed_ok sum32 cfg (S j) fl"
proof -
  have "sf_id fl \<noteq> i" using assms(3-5) by (auto simp: blocks_ok_def)
  then show ?thesis using assms(1,2,4) by (auto simp: files_ok_def Let_def)
qed

lemma fileWriter_write_ok:
  assumes inv: "store_inv L sum32 cfg S P s" and cfg: "cfg_ok cfg" and fw: "fw_fl (st_fileWriter s) = Some i"
    and uni: "unique (add_mset mb (owned P s))" and mem: "get_mem mb s = Some m"
    and small: "length (S (unat i)) + length (mb_values m) < 2 ^ 32"
    and res: "fileWriter_write cfg i mb s = Done s'"
  shows "\<exists>S' P'. store_inv L sum32 cfg S' P' s' \<and> view L S' s' = view L S s \<and> owned P' s' = add_mset mb (owned P s)"
proof -
  let ?B = "st_locBlocks s" and ?n = "length (st_freeableMemBlockChans s)" and ?ci = "c_checksumInterval cfg"
  have locs: "locs_ok (c_layout cfg) (lm_Get L (st_locmap s)) ?B S (clear_pos (st_memClearers s))"
    and entries: "entries_ok (c_layout cfg) (lm_Get L (st_locmap s)) ?B S"
    and blocks: "blocks_ok (st_locBlockIDer s) ?B" and sizes: "sizes_ok cfg ?B"
    and places: "places_ok (c_layout cfg) S P s" and files: "files_ok sum32 cfg S P s"
    and n: "0 < ?n" "length (st_memClearers s) = ?n"
    using inv by (simp_all add: store_inv_def)
  obtain fl where fl: "get_file i s = Some fl" "file_inv sum32 ?ci (S (unat i)) P fl" "\<not> sf_stopped fl"
    "index_ok ?n fl" "unat (fw_valueLen (st_fileWriter s)) = length (S (unat i))"
    using files fw by (auto simp: files_ok_def open_ok_def Let_def)
  have B_i: "?B (unat i) = Some (FileBlock fl)" using fl(1) by (auto simp: get_file_def split: option.splits valueLocBlock.splits)
  have B_mb: "?B (unat mb) = Some (MemBlock m)" using mem by (auto simp: get_mem_def split: option.splits valueLocBlock.splits)
  have ne: "mb \<noteq> i" using B_i B_mb by auto
  have id: "sf_id fl = i" by (rule blocks_ok_id(2) [OF blocks B_i])
  have ci: "0 < unat ?ci" using cfg by (simp add: cfg_ok_def)
  obtain fl' where w: "valueStoreFile_write ?n ?ci mb (mb_values m) fl = Some (of_nat (length (S (unat i))), fl')"
    "file_inv sum32 ?ci (S (unat i) @ mb_values m) (P @ [mb]) fl'" "sf_id fl' = sf_id fl" "sf_stopped fl' = sf_stopped fl"
    using valueStoreFile_write_inv [OF fl(2) ci] by blast
  have idx: "index_ok ?n fl'" by (rule index_ok_write [OF w(1) fl(2) ci n(1) fl(4)])
  obtain P' where P': "file_inv sum32 ?ci (S (unat i) @ mb_values m) P' (fl'\<lparr>sf_freed := []\<rparr>)"
    "mset (P @ [mb]) = mset P' + mset (map snd (sf_freed fl'))"
    using file_inv_clear_freed [OF w(2)] by blast
  let ?m = "m\<lparr>mb_fileID := i, mb_fileOffset := of_nat (length (S (unat i)))\<rparr>"
  let ?S = "S(unat i := S (unat i) @ mb_values m)"
  let ?B' = "?B(unat mb := Some (MemBlock ?m), unat i := Some (FileBlock (fl'\<lparr>sf_freed := []\<rparr>)))"
  let ?fw = "(st_fileWriter s)\<lparr>fw_tocLen := fw_tocLen (st_fileWriter s) + of_nat (length (mb_toc m)),
      fw_valueLen := fw_valueLen (st_fileWriter s) + of_nat (length (mb_values m))\<rparr>"
  have s': "s' = put_file i fl' (set_locBlock mb (MemBlock ?m) (s\<lparr>st_fileWriter := ?fw\<rparr>))"
    using res fl(1) mem w(1) id by (simp add: fileWriter_write_def Let_def)
  have comps: "st_locmap s' = st_locmap s" "st_locBlocks s' = ?B'" "st_locBlockIDer s' = st_locBlockIDer s"
    "st_freeMemBlockChan s' = st_freeMemBlockChan s" "st_memWriters s' = st_memWriters s"
    "st_fileMemBlockChan s' = st_fileMemBlockChan s" "st_memClearers s' = st_memClearers s"
    "st_fileWriter s' = ?fw" "length (st_freeableMemBlockChans s') = ?n"
    by (simp_all add: s')
  have sh: "shares (shares mem_id) (st_freeableMemBlockChans s') =
      shares (shares mem_id) (st_freeableMemBlockChans s) + mset (map snd (sf_freed fl'))"
    unfolding s' by (subst put_file_shares) (use idx in simp_all)
  have filed: "filed P' s' = add_mset mb (filed P s)"
    using P'(2) sh comps(7) by (simp add: filed_def)
  have owned: "owned P' s' = add_mset mb (owned P s)"
    using filed comps(4-6) by (simp add: owned_split)
  have not_mb: "j \<noteq> mb" if "j \<in># owned P s" for j
    using unique_disjoint [of "owned P s" "{#mb#}" j] uni that by auto
  have not_i: "j \<noteq> i" if "j \<in># owned P s" for j
    using places_mem [OF places that] B_i by (auto simp: mem_ok_def)
  have vl: "length (S (unat i) @ mb_values m) < 2 ^ 32" using small by simp
  have grow: "grows S ?S" using small by (auto simp: grows_def)
  have keepf: "keeps_files ?B ?B'" using B_mb by (auto simp: keeps_files_def)
  have in_f: "in_file ?S ?B' ?m"
    using small ne B_i by (simp add: in_file_def unat_of_nat_small32)
  have pl: "places_ok (c_layout cfg) ?S P' s'"
  proof (rule places_change [OF places _ grow])
    show "j \<in># filed P' s' \<Longrightarrow> j \<in># filed P s \<or> filed_ok ?S (st_locBlocks s') j" for j
      using in_f ne id blocks B_i unfolding filed comps(2)
      by (auto simp: filed_ok_def blocks_ok_def)
  qed (use comps not_mb not_i keepf in \<open>simp_all\<close>)
  note fr = frame_ok [OF locs entries, of ?S ?B']
  have pres: "content S ?B j off len = Some v \<Longrightarrow> content ?S ?B' j off len = Some v" for j off len v
    using B_i B_mb ne by (auto simp: content_def value_at_append split: option.splits valueLocBlock.splits if_splits)
  have blk: "?B' j = Some (MemBlock m') \<Longrightarrow>
      (\<exists>m. ?B j = Some (MemBlock m) \<and> mb_toc m' = mb_toc m \<and> mb_values m' = mb_values m) \<or> ?B j = None \<and> mb_toc m' = []" for j m'
    using B_mb by (auto split: if_splits)
  have bo: "blocks_ok (st_locBlockIDer s) ?B'"
  proof -
    have "blocks_ok (st_locBlockIDer s) (?B(unat mb := Some (MemBlock ?m)))"
      by (rule blocks_ok_mem_update [where B = ?B and i = mb, OF blocks B_mb]) simp
    from blocks_ok_file_update [where B = "?B(unat mb := Some (MemBlock ?m))" and i = i, OF this]
    show ?thesis using B_i w(3) ne by simp
  qed
  have so: "sizes_ok cfg ?B'" using sizes B_mb by (auto simp: sizes_ok_def)
  have fo: "files_ok sum32 cfg ?S P' s'"
  proof (rule files_ok_open)
    show "fw_fl (st_fileWriter s') = Some i" "fw_disabled (st_fileWriter s') = None"
      using fw files by (simp_all add: comps files_ok_def Let_def)
    show "get_file i s' = Some (fl'\<lparr>sf_freed := []\<rparr>)" by (simp add: get_file_def comps)
    show "open_ok sum32 cfg (?S (unat i)) P' (length (st_freeableMemBlockChans s')) (fl'\<lparr>sf_freed := []\<rparr>)"
      using P'(1) w(4) fl(3) idx vl by (simp add: open_ok_def comps index_ok_def)
    show "unat (fw_valueLen (st_fileWriter s')) = length (?S (unat i))"
      using fl(5) small by (simp add: comps unat_word_ariths unat_of_nat)
    show "blocks_ok (st_locBlockIDer s) (st_locBlocks s')" using bo by (simp only: comps)
    show "closed_ok sum32 cfg (?S j) flj" if "st_locBlocks s' j = Some (FileBlock flj)" "j \<noteq> unat i" for j flj
      using files_ok_others [OF files fw blocks _ that(2)] that by (simp add: comps split: if_splits)
  qed
  have "store_inv L sum32 cfg ?S P' s'"
    using fr(1,2) pres blk bo so uni pl fo n unfolding store_inv_def comps owned by blast
  moreover have "view L ?S s' = view L S s"
    using fr(3) pres blk unfolding view_def comps by blast
  ultimately show ?thesis using owned by blast
qed

section \<open>The goroutines of the file, closing it\<close>

lemma put_file_ok:
  assumes inv: "store_inv L sum32 cfg S P s" and fil: "get_file i s = Some fl" and id: "sf_id fl' = sf_id fl"
    and idx: "index_ok (length (st_freeableMemBlockChans s)) fl'"
    and P': "mset P = mset P' + mset (map snd (sf_freed fl'))"
    and s': "s' = put_file i fl' (s\<lparr>st_fileWriter := fw\<rparr>)" and files: "files_ok sum32 cfg S P' s'"
  shows "store_inv L sum32 cfg S P' s'" and "view L S s' = view L S s" and "owned P' s' = owned P s"
proof -
  let ?B = "st_locBlocks s" and ?B' = "(st_locBlocks s)(unat i := Some (FileBlock (fl'\<lparr>sf_freed := []\<rparr>)))"
  have B_i: "?B (unat i) = Some (FileBlock fl)" using fil by (auto simp: get_file_def split: option.splits valueLocBlock.splits)
  have locs: "locs_ok (c_layout cfg) (lm_Get L (st_locmap s)) ?B S (clear_pos (st_memClearers s))"
    and entries: "entries_ok (c_layout cfg) (lm_Get L (st_locmap s)) ?B S"
    and blocks: "blocks_ok (st_locBlockIDer s) ?B" and sizes: "sizes_ok cfg ?B"
    and places: "places_ok (c_layout cfg) S P s" and uni: "unique (owned P s)"
    and n: "0 < length (st_freeableMemBlockChans s)" "length (st_memClearers s) = length (st_freeableMemBlockChans s)"
    using inv by (simp_all add: store_inv_def)
  have comps: "st_locmap s' = st_locmap s" "st_locBlocks s' = ?B'" "st_locBlockIDer s' = st_locBlockIDer s"
    "st_freeMemBlockChan s' = st_freeMemBlockChan s" "st_memWriters s' = st_memWriters s"
    "st_fileMemBlockChan s' = st_fileMemBlockChan s" "st_memClearers s' = st_memClearers s"
    "length (st_freeableMemBlockChans s') = length (st_freeableMemBlockChans s)"
    by (simp_all add: s')
  have "shares (shares mem_id) (st_freeableMemBlockChans s') =
      shares (shares mem_id) (st_freeableMemBlockChans s) + mset (map snd (sf_freed fl'))"
    unfolding s' by (subst put_file_shares) (use idx in simp_all)
  then have filed: "filed P' s' = filed P s" using P' comps(7) by (simp add: filed_def)
  then show owned: "owned P' s' = owned P s" using comps(4-6) by (simp add: owned_split)
  have "places_ok (c_layout cfg) S P' s'"
  proof (rule places_change [OF places])
    show "j \<in># owned P s \<Longrightarrow> st_locBlocks s' (unat j) = st_locBlocks s (unat j)" for j
      using places_mem [OF places, of j] B_i by (auto simp: mem_ok_def comps)
    show "keeps_files (st_locBlocks s) (st_locBlocks s')" by (auto simp: keeps_files_def comps)
  qed (use comps filed in \<open>simp_all add: grows_def\<close>)
  moreover have "blocks_ok (st_locBlockIDer s) ?B'"
    by (rule blocks_ok_file_update [where B = ?B and i = i, OF blocks B_i]) (simp add: id)
  moreover have "sizes_ok cfg ?B'" using sizes by (auto simp: sizes_ok_def)
  moreover have "content S ?B' j off len = content S ?B j off len" for j off len
    using B_i by (rule content_file_update)
  then have pres: "content S ?B j off len = Some v \<Longrightarrow> content S ?B' j off len = Some v" for j off len v by simp
  have blk: "?B' j = Some (MemBlock m') \<Longrightarrow>
      (\<exists>m. ?B j = Some (MemBlock m) \<and> mb_toc m' = mb_toc m \<and> mb_values m' = mb_values m) \<or> ?B j = None \<and> mb_toc m' = []" for j m'
    by (auto split: if_splits)
  note fr = frame_ok [OF locs entries, of S ?B', OF pres blk]
  ultimately show "store_inv L sum32 cfg S P' s'"
    using fr(1,2) uni n files unfolding store_inv_def comps owned by blast
  show "view L S s' = view L S s" using fr(3) unfolding view_def comps by blast
qed

definition env_ok :: "file_env \<Rightarrow> bool" where
  "env_ok env \<longleftrightarrow>
     fe_create env = None \<and> fe_werr env = (\<lambda>_. False) \<and> fe_terr env = (\<lambda>_. None) \<and> fe_cerr env = None \<and>
     (\<forall>xs. mset (fe_sched env xs) = mset xs)"

lemma file_pipe_ok:
  assumes inv: "store_inv L sum32 cfg S P s" and env: "env_ok env" and step: "file_pipe sum32 env s s'"
  shows "\<exists>P'. store_inv L sum32 cfg S P' s' \<and> view L S s' = view L S s \<and> owned P' s' = owned P s"
proof -
  let ?n = "length (st_freeableMemBlockChans s)"
  obtain i fl fl' where i: "fw_fl (st_fileWriter s) = Some i" "get_file i s = Some fl"
    "pipe_step sum32 ?n (fe_werr env) fl fl'" "s' = put_file i fl' s"
    using step by (auto elim: file_pipe.cases)
  have files: "files_ok sum32 cfg S P s" and blocks: "blocks_ok (st_locBlockIDer s) (st_locBlocks s)" and n: "0 < ?n"
    using inv by (simp_all add: store_inv_def)
  then have fl: "file_inv sum32 (c_checksumInterval cfg) (S (unat i)) P fl" "\<not> sf_stopped fl" "index_ok ?n fl"
    "length (S (unat i)) < 2 ^ 32" "fw_disabled (st_fileWriter s) = None"
    "unat (fw_valueLen (st_fileWriter s)) = length (S (unat i))"
    using i(1,2) by (auto simp: files_ok_def open_ok_def Let_def)
  have fl': "file_inv sum32 (c_checksumInterval cfg) (S (unat i)) P fl'" by (rule file_inv_step [OF i(3) fl(1)])
  then obtain P' where P': "file_inv sum32 (c_checksumInterval cfg) (S (unat i)) P' (fl'\<lparr>sf_freed := []\<rparr>)"
    "mset P = mset P' + mset (map snd (sf_freed fl'))"
    using file_inv_clear_freed by blast
  have idx: "index_ok ?n fl'" by (rule index_ok_step [OF n fl(3) i(3)])
  have "None \<notin> set (sf_toDisk fl)" using fl(1) by (auto simp: file_inv_def)
  then have run: "\<not> sf_stopped fl'"
    by (rule pipe_step_running [OF i(3) _ fl(2)]) (use env in \<open>simp add: env_ok_def\<close>)
  have id: "sf_id fl' = sf_id fl"
    using i(3) by (rule pipe_stepE)
      (auto simp: writingChecksummer_recv_def writingChecksummer_send_def Let_def split: list.splits if_splits
        dest: writer_iter_keeps)
  have B_i: "st_locBlocks s (unat i) = Some (FileBlock fl)"
    using i(2) by (auto simp: get_file_def split: option.splits valueLocBlock.splits)
  have "blocks_ok (st_locBlockIDer s) (st_locBlocks s')"
    using blocks_ok_file_update [where B = "st_locBlocks s" and i = i, OF blocks B_i, of "fl'\<lparr>sf_freed := []\<rparr>"] id
    by (simp add: i(4))
  then have "files_ok sum32 cfg S P' s'"
    using i(1) fl(4-6) P'(1) idx run files_ok_others [OF files i(1) blocks]
    by (intro files_ok_open [where fl = "fl'\<lparr>sf_freed := []\<rparr>" and i = i])
      (auto simp: i(4) get_file_def open_ok_def index_ok_def split: if_splits)
  with put_file_ok [OF inv i(2) id idx P'(2), of s' "st_fileWriter s"] i(4) show ?thesis by auto
qed

lemma fileWriter_close_ok:
  assumes inv: "store_inv L sum32 cfg S P s" and cfg: "cfg_ok cfg" and env: "env_ok env"
    and res: "fileWriter_close sum32 cfg env s = Done s'"
  shows "store_inv L sum32 cfg S [] s'" and "view L S s' = view L S s" and "owned [] s' = owned P s"
    and "fw_fl (st_fileWriter s') = None"
    and "st_fileWriter s' = (st_fileWriter s)\<lparr>fw_fl := None\<rparr>"
    and "length (st_freeableMemBlockChans s') = length (st_freeableMemBlockChans s)"
proof -
  let ?n = "length (st_freeableMemBlockChans s)"
  have files: "files_ok sum32 cfg S P s" and blocks: "blocks_ok (st_locBlockIDer s) (st_locBlocks s)" and n: "0 < ?n"
    using inv by (simp_all add: store_inv_def)
  have "store_inv L sum32 cfg S [] s' \<and> view L S s' = view L S s \<and> owned [] s' = owned P s \<and>
    st_fileWriter s' = (st_fileWriter s)\<lparr>fw_fl := None\<rparr> \<and>
    length (st_freeableMemBlockChans s') = length (st_freeableMemBlockChans s)"
  proof (cases "fw_fl (st_fileWriter s)")
    case None
    then have "P = []" "s' = s" using files res by (simp_all add: files_ok_def Let_def fileWriter_close_def)
    with inv None show ?thesis by simp
  next
    case (Some i)
    then obtain fl where fil: "get_file i s = Some fl"
      and fl: "file_inv sum32 (c_checksumInterval cfg) (S (unat i)) P fl" "\<not> sf_stopped fl" "index_ok ?n fl"
      using files by (auto simp: files_ok_def open_ok_def Let_def)
    have ci: "32 \<le> unat (c_checksumInterval cfg)" using cfg by (simp add: cfg_ok_def)
    obtain fl' where cl: "closeWriting sum32 ?n (fe_werr env) (fe_terr env) (fe_cerr env) (fe_sched env)
        (c_checksumInterval cfg) fl = Some (None, fl')"
      "sf_disk fl' = checksummed sum32 (unat (c_checksumInterval cfg)) (S (unat i) @ term_block (unat (c_checksumInterval cfg)))"
      "mset (map snd (sf_freed fl')) = mset P" "sf_cur fl' = None" "sf_id fl' = sf_id fl" "sf_interval fl' = c_checksumInterval cfg"
      using closeWriting_inv [OF fl(1,2) ci, of "fe_sched env" ?n] env by (auto simp: env_ok_def)
    have idx: "index_ok ?n fl'" by (rule index_ok_close [OF cl(1) n fl(3)])
    have s': "s' = put_file i fl' (s\<lparr>st_fileWriter := (st_fileWriter s)\<lparr>fw_fl := None\<rparr>\<rparr>)"
      using res Some fil cl(1) by (simp add: fileWriter_close_def)
    have B_i: "st_locBlocks s (unat i) = Some (FileBlock fl)"
      using fil by (auto simp: get_file_def split: option.splits valueLocBlock.splits)
    have "closed_ok sum32 cfg (S j) flj" if "st_locBlocks s' j = Some (FileBlock flj)" for j flj
      using that files_ok_others [OF files Some blocks, of j flj] cl(2,4,6)
      by (auto simp: s' closed_ok_def split: if_splits)
    moreover have "fw_disabled (st_fileWriter s) = None" using files by (simp add: files_ok_def Let_def)
    ultimately have "files_ok sum32 cfg S [] s'"
      unfolding files_ok_def Let_def by (auto simp: s')
    from put_file_ok [OF inv fil cl(5) idx _ s' this] cl(3) show ?thesis by (simp add: s')
  qed
  then show "store_inv L sum32 cfg S [] s'" "view L S s' = view L S s" "owned [] s' = owned P s"
    "fw_fl (st_fileWriter s') = None" "st_fileWriter s' = (st_fileWriter s)\<lparr>fw_fl := None\<rparr>"
    "length (st_freeableMemBlockChans s') = length (st_freeableMemBlockChans s)"
    by simp_all
qed

section \<open>Creating a file\<close>

lemma get_mem_iff: "get_mem j s = Some m \<longleftrightarrow> st_locBlocks s (unat j) = Some (MemBlock m)"
  by (auto simp: get_mem_def split: option.splits valueLocBlock.splits)

lemma get_file_iff: "get_file j s = Some fl \<longleftrightarrow> st_locBlocks s (unat j) = Some (FileBlock fl)"
  by (auto simp: get_file_def split: option.splits valueLocBlock.splits)

lemma fileWriter_close_mem:
  assumes "fileWriter_close sum32 cfg env s = Done s'" "get_mem j s = Some m"
  shows "get_mem j s' = Some m"
  using assms by (auto simp: fileWriter_close_def get_mem_iff get_file_iff split: option.splits)

lemma addLocBlock_Done:
  assumes "addLocBlock blk s = Done ((i, None), s')" "unat (st_locBlockIDer s) < MaxUint16"
  shows "unat i = unat (st_locBlockIDer s) + 1" "unat i < MaxUint16"
    "s' = set_locBlock i (blk i) (s\<lparr>st_locBlockIDer := st_locBlockIDer s + 1\<rparr>)"
    "unat (st_locBlockIDer s + 1) = unat i"
proof -
  have i: "i = ucast (st_locBlockIDer s + 1)" "unat (st_locBlockIDer s + 1) < MaxUint16"
    and s': "s' = set_locBlock i (blk i) (s\<lparr>st_locBlockIDer := st_locBlockIDer s + 1\<rparr>)"
    using assms(1) by (auto simp: addLocBlock_def Let_def split: if_splits)
  have "unat (st_locBlockIDer s + 1) = unat (st_locBlockIDer s) + 1"
    using assms(2) by (simp add: unat_word_ariths MaxUint16_def)
  moreover have "unat i = unat (st_locBlockIDer s + 1)"
    using i by (simp add: unsigned_ucast_eq take_bit_nat_eq_self MaxUint16_def)
  ultimately show "unat i = unat (st_locBlockIDer s) + 1" "unat i < MaxUint16"
    "s' = set_locBlock i (blk i) (s\<lparr>st_locBlockIDer := st_locBlockIDer s + 1\<rparr>)"
    "unat (st_locBlockIDer s + 1) = unat i"
    using i(2) s' by simp_all
qed

lemma create_ok:
  assumes inv: "store_inv L sum32 cfg S P s" and cfg: "cfg_ok cfg" and fw: "fw_fl (st_fileWriter s) = None"
    and res: "createValueReadWriteFile cfg env s = Done (Inl i, s1)"
    and s': "s' = s1\<lparr>st_fileWriter := (st_fileWriter s1)\<lparr>fw_fl := Some i, fw_tocLen := 32, fw_valueLen := 32\<rparr>\<rparr>"
    and S': "S' = S(unat i := value_head (ly_template (c_layout cfg)) (c_checksumInterval cfg))"
  shows "store_inv L sum32 cfg S' P s'" and "view L S' s' = view L S s" and "owned P s' = owned P s"
    and "get_mem j s = Some m \<Longrightarrow> get_mem j s' = Some m"
proof -
  let ?B = "st_locBlocks s" and ?ci = "c_checksumInterval cfg"
  let ?fl = "writer_start (ly_template (c_layout cfg)) ?ci i (fe_now env)"
  have locs: "locs_ok (c_layout cfg) (lm_Get L (st_locmap s)) ?B S (clear_pos (st_memClearers s))"
    and entries: "entries_ok (c_layout cfg) (lm_Get L (st_locmap s)) ?B S"
    and blocks: "blocks_ok (st_locBlockIDer s) ?B" and sizes: "sizes_ok cfg ?B"
    and places: "places_ok (c_layout cfg) S P s" and uni: "unique (owned P s)" and files: "files_ok sum32 cfg S P s"
    and n: "0 < length (st_freeableMemBlockChans s)" "length (st_memClearers s) = length (st_freeableMemBlockChans s)"
    using inv by (simp_all add: store_inv_def)
  have P: "P = []" using files fw by (simp add: files_ok_def Let_def)
  obtain env' where add: "addLocBlock (\<lambda>i. FileBlock (writer_start (ly_template (c_layout cfg)) ?ci i (fe_now env))) s = Done ((i, None), s1)"
    using res by (auto simp: createValueReadWriteFile_def split: option.splits elim!: bind_outcome_DoneE)
  have "unat (st_locBlockIDer s) < MaxUint16" using blocks by (simp add: blocks_ok_def)
  note al = addLocBlock_Done [OF add this]
  let ?B' = "?B(unat i := Some (FileBlock ?fl))"
  have B_i: "?B (unat i) = None" using blocks al(1) by (simp add: blocks_ok_def)
  have comps: "st_locmap s' = st_locmap s" "st_locBlocks s' = ?B'" "st_locBlockIDer s' = st_locBlockIDer s + 1"
    "st_freeMemBlockChan s' = st_freeMemBlockChan s" "st_memWriters s' = st_memWriters s"
    "st_fileMemBlockChan s' = st_fileMemBlockChan s" "st_memClearers s' = st_memClearers s"
    "st_freeableMemBlockChans s' = st_freeableMemBlockChans s"
    "st_fileWriter s' = (st_fileWriter s)\<lparr>fw_fl := Some i, fw_tocLen := 32, fw_valueLen := 32\<rparr>"
    by (simp_all add: s' al(3))
  show owned: "owned P s' = owned P s" using comps by (simp add: owned_def)
  show "get_mem j s = Some m \<Longrightarrow> get_mem j s' = Some m"
    using B_i by (auto simp: get_mem_iff comps)
  have id: "sf_id ?fl = i" by (simp add: writer_start_def)
  have bo: "blocks_ok (st_locBlockIDer s + 1) ?B'"
    using blocks al id unfolding blocks_ok_def by (auto simp: al(4))
  have filed_same: "filed_ok S' ?B' j" if fj: "filed_ok S ?B j" for j
  proof -
    obtain mj fl where mj: "?B (unat j) = Some (MemBlock mj)" "mb_fileID mj \<noteq> 0" "in_file S ?B mj"
      "?B (unat (mb_fileID mj)) = Some (FileBlock fl)" using fj by (auto simp: filed_ok_def in_file_def)
    then have "unat (mb_fileID mj) \<noteq> unat i" "unat j \<noteq> unat i" using B_i by (metis option.distinct(1))+
    then show ?thesis using mj by (auto simp: filed_ok_def in_file_def S')
  qed
  have fileds: "filed P s' = filed P s" using comps by (simp add: filed_def)
  have "places_ok (c_layout cfg) S P s'"
  proof (rule places_change [OF places])
    show "j \<in># owned P s \<Longrightarrow> st_locBlocks s' (unat j) = st_locBlocks s (unat j)" for j
      using places_mem [OF places, of j] B_i by (auto simp: mem_ok_def comps)
    show "keeps_files (st_locBlocks s) (st_locBlocks s')" by (auto simp: keeps_files_def comps)
  qed (use comps fileds in \<open>simp_all add: grows_def\<close>)
  then have pl: "places_ok (c_layout cfg) S' P s'"
    using places filed_same unfolding places_ok_def Let_def fileds comps by blast
  have so: "sizes_ok cfg ?B'" using sizes by (auto simp: sizes_ok_def)
  have fo: "files_ok sum32 cfg S' P s'"
  proof (rule files_ok_open)
    show "fw_fl (st_fileWriter s') = Some i" "fw_disabled (st_fileWriter s') = None"
      using files by (simp_all add: comps files_ok_def Let_def)
    show "get_file i s' = Some ?fl" by (simp add: get_file_iff comps)
    show "open_ok sum32 cfg (S' (unat i)) P (length (st_freeableMemBlockChans s')) ?fl"
      using file_inv_start [of ?ci sum32 "ly_template (c_layout cfg)" i "fe_now env"] cfg n(1) P
      by (simp add: open_ok_def cfg_ok_def comps index_ok_def S') (simp add: writer_start_def)
    show "unat (fw_valueLen (st_fileWriter s')) = length (S' (unat i))" by (simp add: comps S')
    show "blocks_ok (st_locBlockIDer s + 1) (st_locBlocks s')" using bo by (simp only: comps)
    show "closed_ok sum32 cfg (S' j) flj" if "st_locBlocks s' j = Some (FileBlock flj)" "j \<noteq> unat i" for j flj
      using files that fw by (auto simp: comps files_ok_def Let_def S')
  qed
  have pres: "content S ?B j off len = Some v \<Longrightarrow> content S' ?B' j off len = Some v" for j off len v
    using B_i by (auto simp: content_def S' split: option.splits valueLocBlock.splits)
  have blk: "?B' j = Some (MemBlock m') \<Longrightarrow>
      (\<exists>m. ?B j = Some (MemBlock m) \<and> mb_toc m' = mb_toc m \<and> mb_values m' = mb_values m) \<or> ?B j = None \<and> mb_toc m' = []" for j m'
    by (auto split: if_splits)
  note fr = frame_ok [OF locs entries, of S' ?B', OF pres blk]
  show "store_inv L sum32 cfg S' P s'"
    using fr(1,2) bo so uni n pl fo unfolding store_inv_def comps(1-3,7,8) owned by blast
  show "view L S' s' = view L S s" using fr(3) unfolding view_def comps by blast
qed

section \<open>The file writer\<close>

lemma unat_ucast_32_64: "unat (ucast (x :: u32) :: u64) < 2 ^ 32"
proof -
  have x: "unat x < 2 ^ 32" using unsigned_less [of x, where 'a = nat] by simp
  then have "take_bit 64 (unat x) = unat x" by (simp add: take_bit_nat_eq_self)
  with x show ?thesis by (simp add: unsigned_ucast_eq)
qed

lemma fileWriter_block_ok:
  assumes inv: "store_inv L sum32 cfg S P s" and cfg: "cfg_ok cfg" and env: "env_ok env"
    and uni: "unique (add_mset mb (owned P s))" and res: "fileWriter_block sum32 cfg env mb s = Done s'"
  shows "\<exists>S' P'. store_inv L sum32 cfg S' P' s' \<and> view L S' s' = view L S s \<and> owned P' s' = add_mset mb (owned P s)"
proof -
  obtain m where m: "get_mem mb s = Some m" using res by (auto simp: fileWriter_block_def split: option.splits)
  let ?fw = "st_fileWriter s"
  define full where "full \<longleftrightarrow> ucast (c_fileCap cfg) \<le> fw_tocLen ?fw + of_nat (length (mb_toc m)) \<or>
      ucast (c_fileCap cfg) < fw_valueLen ?fw + of_nat (length (mb_values m))"
  have page: "length (mb_values m) \<le> unat (c_pageSize cfg)"
    using inv m by (auto simp: store_inv_def sizes_ok_def get_mem_iff)
  obtain s1 where s1: "(if fw_fl ?fw \<noteq> None \<and> full then fileWriter_close sum32 cfg env s else Done s) = Done s1"
    and rest: "(case fw_fl (st_fileWriter s1) of Some i \<Rightarrow> fileWriter_write cfg i mb s1
      | None \<Rightarrow> bind_outcome (createValueReadWriteFile cfg env s1) (\<lambda>(r, s2). case r of Inr err \<Rightarrow> Panic
          | Inl i \<Rightarrow> fileWriter_write cfg i mb
              (s2\<lparr>st_fileWriter := (st_fileWriter s2)\<lparr>fw_fl := Some i, fw_tocLen := 32, fw_valueLen := 32\<rparr>\<rparr>))) = Done s'"
    using res m unfolding fileWriter_block_def Let_def full_def by (auto elim!: bind_outcome_DoneE)
  obtain P1 where P1: "store_inv L sum32 cfg S P1 s1" "view L S s1 = view L S s" "owned P1 s1 = owned P s"
    "get_mem mb s1 = Some m"
    "\<And>i. fw_fl (st_fileWriter s1) = Some i \<Longrightarrow> s1 = s \<and> P1 = P \<and> \<not> full"
  proof (cases "fw_fl ?fw \<noteq> None \<and> full")
    case True
    then have cl: "fileWriter_close sum32 cfg env s = Done s1" using s1 by simp
    from that [of "[]"] fileWriter_close_ok [OF inv cfg env cl] fileWriter_close_mem [OF cl m] show ?thesis by simp
  next
    case False
    then have "s1 = s" using s1 by auto
    with that [of P] inv m False show ?thesis by auto
  qed
  show ?thesis
  proof (cases "fw_fl (st_fileWriter s1)")
    case (Some i)
    have st: "s1 = s" "P1 = P" "\<not> full" using P1(5) [OF Some] by auto
    have vl: "unat (fw_valueLen ?fw) = length (S (unat i))" "length (S (unat i)) < 2 ^ 32"
      using inv Some st by (auto simp: store_inv_def files_ok_def open_ok_def Let_def)
    have "unat (fw_valueLen ?fw + of_nat (length (mb_values m))) = length (S (unat i)) + length (mb_values m)"
      using vl page cfg by (simp add: unat_word_ariths unat_of_nat cfg_ok_def)
    moreover have "fw_valueLen ?fw + of_nat (length (mb_values m)) \<le> ucast (c_fileCap cfg)"
      using st(3) by (auto simp: full_def)
    moreover have "unat (ucast (c_fileCap cfg) :: u64) < 2 ^ 32"
      by (rule unat_ucast_32_64)
    ultimately have "length (S (unat i)) + length (mb_values m) < 2 ^ 32"
      by (simp add: word_le_nat_alt)
    then show ?thesis
      using fileWriter_write_ok [OF inv cfg _ uni m] Some rest st by simp
  next
    case None
    then obtain i s2 where cr: "createValueReadWriteFile cfg env s1 = Done (Inl i, s2)"
      and wr: "fileWriter_write cfg i mb
        (s2\<lparr>st_fileWriter := (st_fileWriter s2)\<lparr>fw_fl := Some i, fw_tocLen := 32, fw_valueLen := 32\<rparr>\<rparr>) = Done s'"
      using rest by (auto elim!: bind_outcome_DoneE split: sum.splits)
    let ?S = "S(unat i := value_head (ly_template (c_layout cfg)) (c_checksumInterval cfg))"
    let ?s = "s2\<lparr>st_fileWriter := (st_fileWriter s2)\<lparr>fw_fl := Some i, fw_tocLen := 32, fw_valueLen := 32\<rparr>\<rparr>"
    note co = create_ok [OF P1(1) cfg None cr refl refl]
    have uni': "unique (add_mset mb (owned P1 ?s))" using uni co(3) P1(3) by simp
    have "length (?S (unat i)) + length (mb_values m) < 2 ^ 32" using page cfg by (simp add: cfg_ok_def)
    with fileWriter_write_ok [where S = ?S and i = i, OF co(1) cfg _ uni' co(4) [OF P1(4)] _ wr]
    obtain S' P' where "store_inv L sum32 cfg S' P' s'" "view L S' s' = view L ?S ?s"
      "owned P' s' = add_mset mb (owned P1 ?s)" by auto
    then show ?thesis unfolding co(2,3) P1(2,3) by blast
  qed
qed

end
