(* ===== verification/StoreRefine.thy ===== *)
theory StoreRefine
  imports StoreDisk
begin

unbundle bit_operations_syntax

text \<open>
  Every turn of every goroutine of the store is an internal step that clients do not notice, or a
  write whose effect is \<open>spec_write\<close>: the newest timestamp wins.
\<close>

section \<open>The file writer\<close>

lemma fileWriter_take_ok:
  assumes inv: "store_inv L sum32 cfg S P s" and chan: "st_fileMemBlockChan s = MB mb # rest"
    and s': "s' = s\<lparr>st_fileMemBlockChan := rest\<rparr>"
  shows "store_inv L sum32 cfg S P s'" and "view L S s' = view L S s" and "owned P s = add_mset mb (owned P s')"
proof -
  have places: "places_ok (c_layout cfg) S P s" and uni: "unique (owned P s)" using inv by (simp_all add: store_inv_def)
  show owned: "owned P s = add_mset mb (owned P s')" by (simp add: owned_def chan s')
  have "filed P s' = filed P s" by (simp add: filed_def s')
  then have "places_ok (c_layout cfg) S P s'"
    using places unfolding places_ok_def Let_def by (simp add: s' chan)
  moreover have "unique (owned P s')" by (rule unique_subset [OF uni]) (simp add: owned)
  moreover have "files_ok sum32 cfg S P s' = files_ok sum32 cfg S P s"
    by (simp add: files_ok_def get_file_def s')
  ultimately show "store_inv L sum32 cfg S P s'" using inv by (simp add: store_inv_def s')
  show "view L S s' = view L S s" by (simp add: view_def s')
qed

lemma fileWriter_end_ok:
  assumes inv: "store_inv L sum32 cfg S P s" and cfg: "cfg_ok cfg" and env: "env_ok env" and msg: "mem_id msg = {#}"
    and res: "bind_outcome (fileWriter_close sum32 cfg env s) (\<lambda>s2.
      let s3 = foldl (\<lambda>s k. send_freeable k msg s) s2 (ks :: nat list) in Done (s3\<lparr>st_fileWriter := f (st_fileWriter s3)\<rparr>)) = Done s'"
    and f: "\<And>fw. fw_fl (f fw) = fw_fl fw \<and> fw_disabled (f fw) = fw_disabled fw \<and> fw_valueLen (f fw) = fw_valueLen fw"
  shows "store_inv L sum32 cfg S [] s'" and "view L S s' = view L S s"
proof -
  obtain s2 where s2: "fileWriter_close sum32 cfg env s = Done s2"
    and s': "s' = (foldl (\<lambda>s k. send_freeable k msg s) s2 ks)
      \<lparr>st_fileWriter := f (st_fileWriter (foldl (\<lambda>s k. send_freeable k msg s) s2 ks))\<rparr>"
    using res by (auto simp: Let_def elim!: bind_outcome_DoneE)
  note cl = fileWriter_close_ok [OF inv cfg env s2]
  from store_inv_frame [OF cl(1), of s'] cl(2) f broadcast_freeable_shares [OF msg, of s2 ks]
  show "store_inv L sum32 cfg S [] s'" "view L S s' = view L S s" by (simp_all add: s')
qed

lemma fileWriter_ok:
  assumes inv: "store_inv L sum32 cfg S P s" and cfg: "cfg_ok cfg" and env: "env_ok env"
    and res: "fileWriter sum32 cfg env s = Done s'"
  shows "\<exists>S' P'. store_inv L sum32 cfg S' P' s' \<and> view L S' s' = view L S s"
proof -
  obtain msg rest where chan: "st_fileMemBlockChan s = msg # rest"
    using res by (auto simp: fileWriter_def split: list.splits)
  let ?n = "length (st_freeableMemBlockChans s)" and ?fw = "st_fileWriter s"
  show ?thesis
  proof (cases msg)
    case (MB mb)
    let ?s = "s\<lparr>st_fileMemBlockChan := rest\<rparr>"
    note tk = fileWriter_take_ok [OF inv chan [unfolded MB] refl]
    have "fw_disabled ?fw = None" using inv by (simp add: store_inv_def files_ok_def Let_def)
    then have "fileWriter_block sum32 cfg env mb ?s = Done s'"
      using res chan MB by (simp add: fileWriter_def Let_def)
    moreover have "unique (add_mset mb (owned P ?s))" using inv tk(3) by (simp add: store_inv_def)
    ultimately show ?thesis using fileWriter_block_ok [OF tk(1) cfg env] tk(2) by metis
  next
    case FlushMB
    let ?s = "s\<lparr>st_fileMemBlockChan := rest, st_fileWriter := ?fw\<lparr>fw_flushLeft := fw_flushLeft ?fw - 1\<rparr>\<rparr>"
    have s: "store_inv L sum32 cfg S P ?s" "view L S ?s = view L S s"
      using store_inv_frame [OF inv, of ?s] chan FlushMB by simp_all
    show ?thesis
    proof (cases "0 < fw_flushLeft ?fw - 1")
      case True
      then have "s' = ?s" using res chan FlushMB by (simp add: fileWriter_def Let_def)
      with s show ?thesis by blast
    next
      case False
      then have "bind_outcome (fileWriter_close sum32 cfg env ?s) (\<lambda>s2.
          let s3 = foldl (\<lambda>s k. send_freeable k FlushMB s) s2 [0..<?n]
          in Done (s3\<lparr>st_fileWriter := (\<lambda>fw. fw\<lparr>fw_flushLeft := length (st_memWriters s)\<rparr>) (st_fileWriter s3)\<rparr>)) = Done s'"
        using res chan FlushMB by (simp add: fileWriter_def Let_def)
      from fileWriter_end_ok [OF s(1) cfg env _ this] s(2) show ?thesis by fastforce
    qed
  next
    case ShutdownMB
    let ?s = "s\<lparr>st_fileMemBlockChan := rest, st_fileWriter := ?fw\<lparr>fw_shutdownLeft := fw_shutdownLeft ?fw - 1\<rparr>\<rparr>"
    have s: "store_inv L sum32 cfg S P ?s" "view L S ?s = view L S s"
      using store_inv_frame [OF inv, of ?s] chan ShutdownMB by simp_all
    show ?thesis
    proof (cases "0 < fw_shutdownLeft ?fw - 1")
      case True
      then have "s' = ?s" using res chan ShutdownMB by (simp add: fileWriter_def Let_def)
      with s show ?thesis by blast
    next
      case False
      then have "bind_outcome (fileWriter_close sum32 cfg env ?s) (\<lambda>s2.
          let s3 = foldl (\<lambda>s k. send_freeable k ShutdownMB s) s2 (rev [0..<?n])
          in Done (s3\<lparr>st_fileWriter := (\<lambda>fw. fw\<lparr>fw_running := False\<rparr>) (st_fileWriter s3)\<rparr>)) = Done s'"
        using res chan ShutdownMB by (simp add: fileWriter_def Let_def)
      from fileWriter_end_ok [OF s(1) cfg env _ this] s(2) show ?thesis by fastforce
    qed
  qed
qed

section \<open>The memory clearers\<close>

lemma set_memClearer_simps [simp]:
  "st_locmap (set_memClearer k mc s) = st_locmap s" "st_locBlocks (set_memClearer k mc s) = st_locBlocks s"
  "st_locBlockIDer (set_memClearer k mc s) = st_locBlockIDer s"
  "st_freeMemBlockChan (set_memClearer k mc s) = st_freeMemBlockChan s"
  "st_memWriters (set_memClearer k mc s) = st_memWriters s"
  "st_fileMemBlockChan (set_memClearer k mc s) = st_fileMemBlockChan s"
  "st_freeableMemBlockChans (set_memClearer k mc s) = st_freeableMemBlockChans s"
  "st_memClearers (set_memClearer k mc s) = (st_memClearers s)[k := mc]"
  "st_fileWriter (set_memClearer k mc s) = st_fileWriter s"
  by (simp_all add: set_memClearer_def)

lemma clear_pos_same:
  assumes "map mc_cur mcs' = map mc_cur mcs"
  shows "clear_pos mcs' = clear_pos mcs" and "shares clearing mcs' = shares clearing mcs"
    and "(\<forall>mc \<in> set mcs'. clearer_ok Y B mc) = (\<forall>mc \<in> set mcs. clearer_ok Y B mc)"
proof -
  have "List.map_filter mc_cur ms = List.map_filter id (map mc_cur ms)" for ms :: "memClearerState list"
    by (simp add: List.map_filter_def comp_def filter_map)
  then show "clear_pos mcs' = clear_pos mcs" using assms by (simp add: clear_pos_def fun_eq_iff)
  have "shares clearing ms = shares (\<lambda>c. opt_mset (map_option fst c)) (map mc_cur ms)" for ms :: "memClearerState list"
    by (simp add: shares_def clearing_def [abs_def] comp_def)
  then show "shares clearing mcs' = shares clearing mcs" using assms by simp
  have "(\<forall>mc \<in> set ms. clearer_ok Y B mc) = (\<forall>c \<in> set (map mc_cur ms). \<forall>i pos. c = Some (i, pos) \<longrightarrow>
      pos mod FILE_ENTRY_SIZE Y = 0 \<and> (\<exists>m. B (unat i) = Some (MemBlock m) \<and> pos \<le> length (mb_toc m)))" for ms :: "memClearerState list"
    by (simp add: clearer_ok_def)
  then show "(\<forall>mc \<in> set mcs'. clearer_ok Y B mc) = (\<forall>mc \<in> set mcs. clearer_ok Y B mc)" using assms by (simp only:)
qed

text \<open>The TOC block a clearer fills is of no concern to the invariant.\<close>

lemma store_inv_tb:
  assumes inv: "store_inv L sum32 cfg S P s" and "st_locmap s' = st_locmap s" "st_locBlocks s' = st_locBlocks s"
    "st_locBlockIDer s' = st_locBlockIDer s" "st_freeMemBlockChan s' = st_freeMemBlockChan s"
    "st_memWriters s' = st_memWriters s" "st_fileMemBlockChan s' = st_fileMemBlockChan s"
    "st_freeableMemBlockChans s' = st_freeableMemBlockChans s" "st_fileWriter s' = st_fileWriter s"
    and cur: "map mc_cur (st_memClearers s') = map mc_cur (st_memClearers s)"
  shows "store_inv L sum32 cfg S P s'" and "view L S s' = view L S s"
proof -
  note cp = clear_pos_same [OF cur]
  have len: "length (st_memClearers s') = length (st_memClearers s)" using cur by (metis length_map)
  have "filed P s' = filed P s" using assms(8) cp(2) by (simp add: filed_def)
  then have "owned P s' = owned P s" "places_ok (c_layout cfg) S P s' = places_ok (c_layout cfg) S P s"
    using assms(2-8) cp(3) [where Y = "c_layout cfg"] by (simp_all add: owned_split places_ok_def)
  moreover have "files_ok sum32 cfg S P s' = files_ok sum32 cfg S P s"
    using assms(2-9) by (simp add: files_ok_def get_file_def)
  ultimately show "store_inv L sum32 cfg S P s'" using inv assms(2-9) cp(1) len by (simp add: store_inv_def)
  show "view L S s' = view L S s" using assms(2,3) by (simp add: view_def)
qed

lemma send_tb_simps [simp]:
  "st_locmap (send_tb k s) = st_locmap s" "st_locBlocks (send_tb k s) = st_locBlocks s"
  "st_locBlockIDer (send_tb k s) = st_locBlockIDer s"
  "st_freeMemBlockChan (send_tb k s) = st_freeMemBlockChan s"
  "st_memWriters (send_tb k s) = st_memWriters s"
  "st_fileMemBlockChan (send_tb k s) = st_fileMemBlockChan s"
  "st_freeableMemBlockChans (send_tb k s) = st_freeableMemBlockChans s"
  "map mc_cur (st_memClearers (send_tb k s)) = map mc_cur (st_memClearers s)"
  "length (st_memClearers (send_tb k s)) = length (st_memClearers s)"
  "st_fileWriter (send_tb k s) = st_fileWriter s"
  by (auto simp: send_tb_def map_update split: option.splits)
    (metis list_update_id map_update)

lemma map_cur_update:
  "mc_cur mc = mc_cur (mcs ! k) \<Longrightarrow> map mc_cur (mcs[k := mc]) = map mc_cur mcs"
  by (metis list_update_id map_update)

lemma send_tb_ok:
  assumes "store_inv L sum32 cfg S P s"
  shows "store_inv L sum32 cfg S P (send_tb k s)" and "view L S (send_tb k s) = view L S s"
  using store_inv_tb [OF assms, of "send_tb k s"] by simp_all

lemma tb_append_ok:
  assumes inv: "store_inv L sum32 cfg S P s" and res: "tb_append cfg k fl entry s = Done s'"
  shows "store_inv L sum32 cfg S P s'" and "view L S s' = view L S s"
proof -
  define s1 where "s1 = (case mc_tb (st_memClearers s ! k) of
      Some tb \<Rightarrow> if unat (c_pageSize cfg) < length tb + FILE_ENTRY_SIZE (c_layout cfg) then send_tb k s else s | None \<Rightarrow> s)"
  have s1: "store_inv L sum32 cfg S P s1" "view L S s1 = view L S s"
    using send_tb_ok [OF inv] inv by (auto simp: s1_def split: option.splits)
  have "st_locmap s' = st_locmap s1 \<and> st_locBlocks s' = st_locBlocks s1 \<and>
      st_locBlockIDer s' = st_locBlockIDer s1 \<and> st_freeMemBlockChan s' = st_freeMemBlockChan s1 \<and>
      st_memWriters s' = st_memWriters s1 \<and> st_fileMemBlockChan s' = st_fileMemBlockChan s1 \<and>
      st_freeableMemBlockChans s' = st_freeableMemBlockChans s1 \<and> st_fileWriter s' = st_fileWriter s1 \<and>
      map mc_cur (st_memClearers s') = map mc_cur (st_memClearers s1)"
    using res unfolding tb_append_def Let_def s1_def [symmetric]
    by (auto simp: map_cur_update split: option.splits if_splits)
  with store_inv_tb [OF s1(1), of s'] s1(2) show "store_inv L sum32 cfg S P s'" "view L S s' = view L S s"
    by auto
qed

text \<open>A clearer takes a block from its channel.\<close>

lemma clearer_take_ok:
  assumes inv: "store_inv L sum32 cfg S P s" and k: "k < length (st_memClearers s)"
    and idle: "mc_cur (st_memClearers s ! k) = None" and chan: "st_freeableMemBlockChans s ! k = MB mb # rest"
    and mc: "mc_cur mc = Some (mb, 0)"
    and s': "s' = set_memClearer k mc (s\<lparr>st_freeableMemBlockChans := (st_freeableMemBlockChans s)[k := rest]\<rparr>)"
  shows "store_inv L sum32 cfg S P s'" and "view L S s' = view L S s"
proof -
  let ?F = "st_freeableMemBlockChans s" and ?C = "st_memClearers s"
  have kF: "k < length ?F" using inv k by (simp add: store_inv_def)
  have uni: "unique (owned P s)" and places: "places_ok (c_layout cfg) S P s" using inv by (simp_all add: store_inv_def)
  have shF: "shares (shares mem_id) (?F[k := rest]) + {#mb#} = shares (shares mem_id) ?F"
    using shares_update [OF kF, of "shares mem_id" rest] chan by simp
  have shC: "shares clearing (?C[k := mc]) = shares clearing ?C + {#mb#}"
    using shares_update [OF k, of clearing mc] idle mc by (simp add: clearing_def)
  have filed: "filed P s' = filed P s"
    using shF shC by (simp add: filed_def s' ac_simps)
  have owned: "owned P s' = owned P s" using filed by (simp add: owned_split s')
  have mb: "mb \<in># filed P s" by (simp add: filed_def shF [symmetric])
  have "unique (shares (shares mem_id) ?F + shares clearing ?C)"
    by (rule unique_subset [OF uni]) (simp add: owned_def)
  then have "mb \<notin># shares clearing ?C"
    by (rule unique_disjoint) (simp add: shF [symmetric])
  from clear_pos_start [OF k idle mc this] have cp: "clear_pos (st_memClearers s') = clear_pos ?C" by (simp add: s')
  have "clearer_ok (c_layout cfg) (st_locBlocks s) mc"
    using places mb mc by (auto simp: places_ok_def Let_def filed_ok_def clearer_ok_def)
  moreover have "set (st_memClearers s') \<subseteq> insert mc (set ?C)" by (simp add: s' set_update_subset_insert)
  ultimately have "places_ok (c_layout cfg) S P s'"
    using places unfolding places_ok_def Let_def filed by (auto simp: s')
  moreover have "files_ok sum32 cfg S P s' = files_ok sum32 cfg S P s"
    by (simp add: files_ok_def get_file_def s')
  ultimately show "store_inv L sum32 cfg S P s'"
    using inv cp owned by (simp add: store_inv_def s')
  show "view L S s' = view L S s" by (simp add: view_def s')
qed

lemma memClearer_recv_ok:
  assumes inv: "store_inv L sum32 cfg S P s" and k: "k < length (st_memClearers s)"
    and idle: "mc_cur (st_memClearers s ! k) = None" and res: "memClearer_recv k s = Done s'"
  shows "store_inv L sum32 cfg S P s'" and "view L S s' = view L S s"
proof -
  let ?F = "st_freeableMemBlockChans s" and ?C = "st_memClearers s"
  obtain msg rest where chan: "?F ! k = msg # rest"
    using res by (auto simp: memClearer_recv_def split: list.splits)
  let ?s = "s\<lparr>st_freeableMemBlockChans := ?F[k := rest]\<rparr>"
  have ctl: "store_inv L sum32 cfg S P ?s \<and> view L S ?s = view L S s" if "mem_id msg = {#}"
  proof -
    have "map (shares mem_id) (?F[k := rest]) = map (shares mem_id) ?F"
      using chan that by (metis add_cancel_left_left list_update_id map_update shares_simps(2))
    then show ?thesis using store_inv_frame [OF inv, of ?s] by simp
  qed
  have "store_inv L sum32 cfg S P s' \<and> view L S s' = view L S s"
  proof (cases msg)
    case FlushMB
    then have s': "s' = (send_tb k ?s)\<lparr>st_pendingTOCBlockChan := st_pendingTOCBlockChan (send_tb k ?s) @ [FlushTB]\<rparr>"
      using res chan by (simp add: memClearer_recv_def Let_def)
    show ?thesis
      using store_inv_tb [of L sum32 cfg S P ?s s'] ctl FlushMB by (simp add: s')
  next
    case ShutdownMB
    then have s': "s' = set_memClearer k ((st_memClearers (send_tb k ?s) ! k)\<lparr>mc_running := False\<rparr>)
        ((send_tb k ?s)\<lparr>st_pendingTOCBlockChan := st_pendingTOCBlockChan (send_tb k ?s) @ [ShutdownTB]\<rparr>)"
      using res chan by (simp add: memClearer_recv_def Let_def)
    show ?thesis
      using store_inv_tb [of L sum32 cfg S P ?s s'] ctl ShutdownMB by (simp add: s' map_cur_update)
  next
    case (MB mb)
    define F where "F x = set_memClearer k ((st_memClearers x ! k)\<lparr>mc_cur := Some (mb, 0)\<rparr>) x"
      for x :: "'a valueStore"
    have s': "s' = F (send_tb k ?s) \<or> s' = F ?s"
      using res chan MB unfolding F_def
      by (auto simp: memClearer_recv_def Let_def split: option.splits if_splits elim!: bind_outcome_DoneE)
    let ?mid = "set_memClearer k ((?C ! k)\<lparr>mc_cur := Some (mb, 0)\<rparr>) ?s"
    note mid = clearer_take_ok [OF inv k idle chan [unfolded MB], of "(?C ! k)\<lparr>mc_cur := Some (mb, 0)\<rparr>", OF _ refl]
    have "map mc_cur (st_memClearers s') = map mc_cur (st_memClearers ?mid)"
      using s' by (auto simp: F_def map_update)
    then show ?thesis
      using store_inv_tb [OF mid(1), of s'] mid(2) s' by (auto simp: F_def)
  qed
  then show "store_inv L sum32 cfg S P s'" and "view L S s' = view L S s" by auto
qed

context locmap_contract
begin

text \<open>One entry is moved to the file.\<close>

lemma memClearer_entry_ok:
  assumes inv: "store_inv L sum32 cfg S P s" and k: "k < length (st_memClearers s)"
    and res: "memClearer_entry L cfg k s = Done s'"
  shows "store_inv L sum32 cfg S P s'" and "view L S s' = view L S s"
proof -
  let ?B = "st_locBlocks s" and ?G = "lm_Get L (st_locmap s)" and ?C = "st_memClearers s"
  obtain mb pos m where cur: "mc_cur (?C ! k) = Some (mb, pos)" and m: "?B (unat mb) = Some (MemBlock m)"
    and pos: "pos + FILE_ENTRY_SIZE (c_layout cfg) \<le> length (mb_toc m)"
    using res by (auto simp: memClearer_entry_def get_mem_iff split: option.splits if_splits)
  have locs: "locs_ok (c_layout cfg) ?G ?B S (clear_pos ?C)" and entries: "entries_ok (c_layout cfg) ?G ?B S"
    and blocks: "blocks_ok (st_locBlockIDer s) ?B" and uni: "unique (owned P s)" and places: "places_ok (c_layout cfg) S P s"
    using inv by (simp_all add: store_inv_def)
  have uniC: "unique (shares clearing ?C)" by (rule unique_subset [OF uni]) (simp add: owned_def)
  have cp: "clear_pos ?C mb = pos" by (rule clear_pos_at [OF uniC k cur])
  have "mb \<in># filed P s" using filed_clearing [of "?C ! k" s mb P] k cur by (simp add: clearing_def)
  then have mf: "in_file S ?B m" "mb_fileID m \<noteq> 0"
    using places m by (auto simp: places_ok_def Let_def filed_ok_def)
  have "clearer_ok (c_layout cfg) ?B (?C ! k)" using places k by (simp add: places_ok_def Let_def)
  then have mod: "pos mod FILE_ENTRY_SIZE (c_layout cfg) = 0" using cur by (simp add: clearer_ok_def)
  define e where "e = getTOCEntry (c_layout cfg) 0 (take (FILE_ENTRY_SIZE (c_layout cfg)) (drop pos (mb_toc m)))"
  have e': "getTOCEntry (c_layout cfg) (mb_fileID m) (take (FILE_ENTRY_SIZE (c_layout cfg)) (drop pos (mb_toc m))) = e\<lparr>BlockID := mb_fileID m\<rparr>"
    by (simp add: e_def getTOCEntry_def Let_def split: prod.split)
  have "e \<in> set (entry_list (c_layout cfg) (mb_toc m))"
    using entry_list_next [OF pos] entry_list_suffix [OF mod, of "mb_toc m"] pos by (auto simp: e_def)
  then have "entry_ok ?G ?B S m e" using entries m by (auto simp: entries_ok_def)
  then have ts: "TimestampBits e \<noteq> 0" "TimestampBits e AND TSB_LOCAL_REMOVAL = 0"
    by (auto simp: entry_ok_def)
  obtain prev lm where set: "lm_Set L (st_locmap s) (KeyA e) (KeyB e) (TimestampBits e) (mb_fileID m)
      (mb_fileOffset m + Offset e) (Length e) True = (prev, lm)" by fastforce
  let ?s = "set_memClearer k ((?C ! k)\<lparr>mc_cur := Some (mb, pos + FILE_ENTRY_SIZE (c_layout cfg))\<rparr>) (s\<lparr>st_locmap := lm\<rparr>)"
  have G': "lm_Get L lm = (if fst (?G (KeyA e) (KeyB e)) \<le> TimestampBits e
      then upd_loc ?G (KeyA e) (KeyB e) (TimestampBits e, mb_fileID m, mb_fileOffset m + Offset e, Length e) else ?G)"
    using Set_upd_loc [OF ts(1) mf(2), of "st_locmap s" "KeyA e" "KeyB e" "mb_fileOffset m + Offset e" "Length e" True] set
    by (auto simp: set_accepts_def order_le_less)
  have "B0": "?B 0 = None" using blocks by (simp add: blocks_ok_def)
  note ce = clear_entry_ok [where C = "clear_pos ?C" and i = mb and B = ?B, OF locs entries m mf B0, unfolded cp, OF mod pos e_def G']
  have upd: "clear_pos (?C[k := (?C ! k)\<lparr>mc_cur := Some (mb, pos + FILE_ENTRY_SIZE (c_layout cfg))\<rparr>]) = (clear_pos ?C)(mb := pos + FILE_ENTRY_SIZE (c_layout cfg))"
    by (rule clear_pos_update [OF uniC k]) (simp_all add: clearing_def cur)
  have "shares clearing (?C[k := (?C ! k)\<lparr>mc_cur := Some (mb, pos + FILE_ENTRY_SIZE (c_layout cfg))\<rparr>]) = shares clearing ?C"
    by (rule shares_update_eq [OF k]) (simp add: clearing_def cur)
  then have filed: "filed P ?s = filed P s" by (simp add: filed_def)
  then have "owned P ?s = owned P s" by (simp add: owned_split)
  moreover have "clearer_ok (c_layout cfg) ?B ((?C ! k)\<lparr>mc_cur := Some (mb, pos + FILE_ENTRY_SIZE (c_layout cfg))\<rparr>)"
    using mod m pos by (auto simp: clearer_ok_def mod_add_eq)
  then have "places_ok (c_layout cfg) S P ?s"
    using places set_update_subset_insert [of ?C k "(?C ! k)\<lparr>mc_cur := Some (mb, pos + FILE_ENTRY_SIZE (c_layout cfg))\<rparr>"]
    unfolding places_ok_def Let_def filed by auto
  moreover have "files_ok sum32 cfg S P ?s = files_ok sum32 cfg S P s"
    by (simp add: files_ok_def get_file_def)
  ultimately have s: "store_inv L sum32 cfg S P ?s" "view L S ?s = view L S s"
    using inv ce upd by (simp_all add: store_inv_def view_def)
  have "s' = ?s \<or> (\<exists>fl entry. tb_append cfg k fl entry ?s = Done s')"
    using res cur m pos set ts(2)
    by (auto simp: memClearer_entry_def get_mem_iff [THEN iffD2] e' Let_def split: if_splits elim!: bind_outcome_DoneE)
  then show "store_inv L sum32 cfg S P s'" and "view L S s' = view L S s"
    using s tb_append_ok [OF s(1)] by metis+
qed

end

lemma memClearer_done_ok:
  assumes inv: "store_inv L sum32 cfg S P s" and k: "k < length (st_memClearers s)"
    and res: "memClearer_done k s = Done s'"
  shows "store_inv L sum32 cfg S P s'" and "view L S s' = view L S s"
proof -
  let ?B = "st_locBlocks s" and ?G = "lm_Get L (st_locmap s)" and ?C = "st_memClearers s"
  obtain mb pos m where cur: "mc_cur (?C ! k) = Some (mb, pos)" and m: "?B (unat mb) = Some (MemBlock m)"
    and pos: "length (mb_toc m) \<le> pos"
    and s': "s' = set_memClearer k ((?C ! k)\<lparr>mc_cur := None\<rparr>)
       (set_locBlock mb (MemBlock (m\<lparr>mb_fileID := 0, mb_fileOffset := 0, mb_toc := [], mb_values := []\<rparr>))
         (s\<lparr>st_freeMemBlockChan := st_freeMemBlockChan s @ [mb]\<rparr>))"
    using res by (auto simp: memClearer_done_def get_mem_iff split: option.splits if_splits)
  let ?m = "m\<lparr>mb_fileID := 0, mb_fileOffset := 0, mb_toc := [], mb_values := []\<rparr>"
  let ?B' = "?B(unat mb := Some (MemBlock ?m))" and ?mc = "(?C ! k)\<lparr>mc_cur := None\<rparr>"
  have locs: "locs_ok (c_layout cfg) ?G ?B S (clear_pos ?C)" and entries: "entries_ok (c_layout cfg) ?G ?B S" and sizes: "sizes_ok cfg ?B"
    and blocks: "blocks_ok (st_locBlockIDer s) ?B" and uni: "unique (owned P s)" and places: "places_ok (c_layout cfg) S P s"
    and files: "files_ok sum32 cfg S P s"
    using inv by (simp_all add: store_inv_def)
  have uniC: "unique (shares clearing ?C)" by (rule unique_subset [OF uni]) (simp add: owned_def)
  have cp: "clear_pos ?C mb = pos" by (rule clear_pos_at [OF uniC k cur])
  have cp': "clear_pos (?C[k := ?mc]) = (clear_pos ?C)(mb := 0)"
    by (rule clear_pos_stop [OF uniC k cur]) simp
  have mb0: "mb \<noteq> 0" using blocks m by (auto simp: blocks_ok_def)
  note rb = reset_block_ok [where B = ?B and i = mb and m' = ?m, OF locs entries m mb0]
  have shC: "shares clearing (?C[k := ?mc]) + {#mb#} = shares clearing ?C"
    using shares_update [OF k, of clearing ?mc] cur by (simp add: clearing_def)
  have comps: "st_locmap s' = st_locmap s" "st_locBlocks s' = ?B'" "st_locBlockIDer s' = st_locBlockIDer s"
    "st_freeMemBlockChan s' = st_freeMemBlockChan s @ [mb]" "st_memWriters s' = st_memWriters s"
    "st_fileMemBlockChan s' = st_fileMemBlockChan s" "st_memClearers s' = ?C[k := ?mc]"
    "st_freeableMemBlockChans s' = st_freeableMemBlockChans s" "st_fileWriter s' = st_fileWriter s"
    by (simp_all add: s')
  have filed: "filed P s = add_mset mb (filed P s')" by (simp add: filed_def comps shC [symmetric])
  have owned: "owned P s' = owned P s" by (simp add: owned_split comps filed)
  have rest: "mb \<notin># mset (st_freeMemBlockChan s) + shares (opt_mset \<circ> mw_block) (st_memWriters s) +
      shares mem_id (st_fileMemBlockChan s) + filed P s'"
    by (rule unique_disjoint [of "{#mb#}"]) (use uni in \<open>simp_all add: owned_split filed\<close>)
  have "places_ok (c_layout cfg) S P s'"
    unfolding places_ok_def Let_def
  proof (intro conjI ballI allI impI)
    show "free_ok (st_locBlocks s') i" if "i \<in> set (st_freeMemBlockChan s')" for i
    proof (cases "i = mb")
      case True
      then show ?thesis by (simp add: free_ok_def comps)
    next
      case False
      then show ?thesis using that places place_ok_update(1) [of i mb ?B]
        by (simp add: comps places_ok_def Let_def)
    qed
    show "writer_ok (st_locBlocks s') mw" if "mw \<in> set (st_memWriters s')" for mw
    proof -
      have "mw_block mw \<noteq> Some mb"
        using rest shares_member [of mw "st_memWriters s" mb "opt_mset \<circ> mw_block"] that comps by auto
      then show ?thesis using that places place_ok_update(3) by (simp add: comps places_ok_def Let_def)
    qed
    show "mem_ok (st_locBlocks s') i" if "i \<in># shares mem_id (st_fileMemBlockChan s')" for i
      using that places place_ok_update(2) [of i mb ?B] rest by (cases "i = mb") (simp_all add: comps places_ok_def Let_def)
    show "filed_ok S (st_locBlocks s') i" if "i \<in># filed P s'" for i
    proof -
      have "i \<noteq> mb" "i \<in># filed P s" using that rest filed by auto
      then show ?thesis using places filed_ok_mem_update [of i mb ?B m S ?m] m by (simp add: comps places_ok_def Let_def)
    qed
    show "clearer_ok (c_layout cfg) (st_locBlocks s') mc" if "mc \<in> set (st_memClearers s')" for mc
    proof (cases "mc = ?mc")
      case True
      then show ?thesis by (simp add: clearer_ok_def)
    next
      case False
      then have "mc \<in> set ?C" using that set_update_subset_insert [of ?C k ?mc] by (auto simp: comps)
      moreover have "mb \<notin># clearing mc"
        using rest that shares_member [of mc "?C[k := ?mc]" mb clearing] by (auto simp: filed_def comps)
      ultimately show ?thesis using places place_ok_update(4) [where Y = "c_layout cfg"] by (simp add: comps places_ok_def Let_def)
    qed
  qed
  moreover have "blocks_ok (st_locBlockIDer s) ?B'"
    by (rule blocks_ok_mem_update [where B = ?B and i = mb, OF blocks m]) simp
  moreover have "sizes_ok cfg ?B'" using sizes by (auto simp: sizes_ok_def)
  moreover have "files_ok sum32 cfg S P s'"
    by (rule files_ok_mem_update [where s = s and i = mb and m' = ?m, OF files m]) (simp_all add: comps)
  ultimately show "store_inv L sum32 cfg S P s'"
    using inv rb(1,2) pos cp cp' owned unfolding store_inv_def comps by simp
  show "view L S s' = view L S s" using rb(3) pos cp unfolding view_def comps by simp
qed

section \<open>The TOC writer\<close>

text \<open>It does not touch what the invariant is about.\<close>

definition core_same :: "'m valueStore \<Rightarrow> 'm valueStore \<Rightarrow> bool" where
  "core_same s s' \<longleftrightarrow>
     st_locmap s' = st_locmap s \<and> st_locBlocks s' = st_locBlocks s \<and> st_locBlockIDer s' = st_locBlockIDer s \<and>
     st_freeMemBlockChan s' = st_freeMemBlockChan s \<and> st_memWriters s' = st_memWriters s \<and>
     st_fileMemBlockChan s' = st_fileMemBlockChan s \<and>
     st_freeableMemBlockChans s' = st_freeableMemBlockChans s \<and> st_fileWriter s' = st_fileWriter s \<and>
     st_memClearers s' = st_memClearers s"

lemma core_same_trans: "core_same s s1 \<Longrightarrow> core_same s1 s2 \<Longrightarrow> core_same s s2"
  by (simp add: core_same_def)

lemma core_same_upd [simp]:
  "core_same s (toc_write b bs s1) = core_same s s1" "core_same s (toc_fatal s1) = core_same s s1"
  "core_same s (s1\<lparr>st_tocWriter := tw\<rparr>) = core_same s s1" "core_same s (s1\<lparr>st_activeTOCA := a\<rparr>) = core_same s s1"
  "core_same s (s1\<lparr>st_activeTOCB := a\<rparr>) = core_same s s1" "core_same s (s1\<lparr>st_tocFiles := f\<rparr>) = core_same s s1"
  "core_same s (s1\<lparr>st_freeTOCBlocks := n\<rparr>) = core_same s s1" "core_same s (s1\<lparr>st_flushed := n\<rparr>) = core_same s s1"
  "core_same s (s1\<lparr>st_shutdown := n\<rparr>) = core_same s s1" "core_same s (s1\<lparr>st_pendingTOCBlockChan := q\<rparr>) = core_same s s1"
  "core_same s (s1\<lparr>st_counters := c\<rparr>) = core_same s s1"
  "core_same s s"
  by (simp_all add: core_same_def toc_write_def toc_fatal_def)

definition sum_state :: "'a + 'a \<Rightarrow> 'a" where
  "sum_state r = (case r of Inl s \<Rightarrow> s | Inr s \<Rightarrow> s)"

lemma sum_state_simps [simp]: "sum_state (Inl s) = s" "sum_state (Inr s) = s"
  by (simp_all add: sum_state_def)

lemma tocWriter_parts_core:
  "core_same s (sum_state (tocWriter_closeB cfg err s))" "core_same s (sum_state (tocWriter_closeA cfg err s))"
  "core_same s (sum_state (tocWriter_rotate cfg err bts entries s))"
  by (auto simp: tocWriter_closeB_def tocWriter_closeA_def tocWriter_rotate_def Let_def split: option.splits)

lemma tocWriter_close_both_core: "core_same s (sum_state (tocWriter_close_both cfg err s))"
  using tocWriter_parts_core(1) [of s cfg err] core_same_trans [OF _ tocWriter_parts_core(2)]
  by (cases "tocWriter_closeB cfg err s") (simp_all add: tocWriter_close_both_def)

lemma tocWriter_block_core: "tocWriter_block cfg err t s = Done r \<Longrightarrow> core_same s (sum_state r)"
  using tocWriter_parts_core(3) [of s cfg err]
  by (auto simp: tocWriter_block_def Let_def split: if_splits option.splits)

lemma tocWriter_core:
  assumes "tocWriter cfg err s = Done s'"
  shows "core_same s s'"
proof -
  obtain msg rest where chan: "st_pendingTOCBlockChan s = msg # rest"
    using assms by (auto simp: tocWriter_def split: list.splits)
  let ?s = "s\<lparr>st_pendingTOCBlockChan := rest\<rparr>" and ?tw = "st_tocWriter s"
  have flush: "core_same s (sum_state (tocWriter_close_both cfg err (?s\<lparr>st_tocWriter := tw\<rparr>)))" for tw
    using tocWriter_close_both_core [of "?s\<lparr>st_tocWriter := tw\<rparr>" cfg err]
      core_same_trans [of s "?s\<lparr>st_tocWriter := tw\<rparr>"] by simp
  show ?thesis
  proof (cases msg)
    case (TB t)
    have "core_same s (sum_state r)" if "tocWriter_block cfg err t ?s = Done r" for r
      using tocWriter_block_core [OF that] core_same_trans [of s ?s] by simp
    then show ?thesis
      using assms chan TB by (fastforce simp: tocWriter_def Let_def split: if_splits sum.splits elim!: bind_outcome_DoneE)
  next
    case FlushTB
    then show ?thesis
      using assms chan flush [of "?tw\<lparr>tw_flushLeft := tw_flushLeft ?tw - 1\<rparr>"]
      by (auto simp: tocWriter_def Let_def split: if_splits sum.splits)
  next
    case ShutdownTB
    then show ?thesis
      using assms chan flush [of "?tw\<lparr>tw_shutdownLeft := tw_shutdownLeft ?tw - 1\<rparr>"]
      by (auto simp: tocWriter_def Let_def split: if_splits sum.splits)
  qed
qed

lemma core_same_ok:
  assumes "store_inv L sum32 cfg S P s" "core_same s s'"
  shows "store_inv L sum32 cfg S P s'" and "view L S s' = view L S s"
  using store_inv_tb [OF assms(1), of s'] assms(2) by (simp_all add: core_same_def)

section \<open>Runs of the store\<close>

text \<open>
  The steps: a write request is answered (labelled with the request, the error and the timestamp bits
  of the answer), a goroutine makes an internal turn, or a client updates the counters.  The disk does
  not fail, as \<open>env_ok\<close> says.
\<close>

inductive store_step ::
  "('m, 'b) locmap_ops \<Rightarrow> (bytes \<Rightarrow> u32) \<Rightarrow> 'b store_cfg \<Rightarrow> 'm valueStore \<Rightarrow>
   ('b valueWriteReq \<times> go_error option \<times> u64) option \<Rightarrow> 'm valueStore \<Rightarrow> bool"
  for L sum32 cfg where
  step_answer: "w < length (st_memWriters s) \<Longrightarrow> memWriter L cfg w (WriteReq r) s = Done (Some (err, pts), s') \<Longrightarrow>
    store_step L sum32 cfg s (Some (r, err, pts)) s'"
| step_control: "w < length (st_memWriters s) \<Longrightarrow> msg \<in> {EnableReq, DisableReq, FlushReq, ShutdownReq} \<Longrightarrow>
    memWriter L cfg w msg s = Done (ans, s') \<Longrightarrow> store_step L sum32 cfg s None s'"
| step_file: "env_ok env \<Longrightarrow> fileWriter sum32 cfg env s = Done s' \<Longrightarrow> store_step L sum32 cfg s None s'"
| step_pipe: "env_ok env \<Longrightarrow> file_pipe sum32 env s s' \<Longrightarrow> store_step L sum32 cfg s None s'"
| step_recv: "k < length (st_memClearers s) \<Longrightarrow> mc_cur (st_memClearers s ! k) = None \<Longrightarrow>
    memClearer_recv k s = Done s' \<Longrightarrow> store_step L sum32 cfg s None s'"
| step_entry: "k < length (st_memClearers s) \<Longrightarrow> memClearer_entry L cfg k s = Done s' \<Longrightarrow>
    store_step L sum32 cfg s None s'"
| step_done: "k < length (st_memClearers s) \<Longrightarrow> memClearer_done k s = Done s' \<Longrightarrow> store_step L sum32 cfg s None s'"
| step_toc: "tocWriter cfg err s = Done s' \<Longrightarrow> store_step L sum32 cfg s None s'"
| step_count: "store_step L sum32 cfg s None (s\<lparr>st_counters := c\<rparr>)"

inductive store_run ::
  "('m, 'b) locmap_ops \<Rightarrow> (bytes \<Rightarrow> u32) \<Rightarrow> 'b store_cfg \<Rightarrow> 'm valueStore \<Rightarrow>
   ('b valueWriteReq \<times> go_error option \<times> u64) list \<Rightarrow> 'm valueStore \<Rightarrow> bool"
  for L sum32 cfg where
  run_nil: "store_run L sum32 cfg s [] s"
| run_step: "store_run L sum32 cfg s evs s1 \<Longrightarrow> store_step L sum32 cfg s1 ev s2 \<Longrightarrow>
    store_run L sum32 cfg s (evs @ (case ev of None \<Rightarrow> [] | Some e \<Rightarrow> [e])) s2"

text \<open>The specification: the answered requests applied in order, each the newest timestamp wins.\<close>

definition spec_event :: "'b amap \<Rightarrow> 'b valueWriteReq \<times> go_error option \<times> u64 \<Rightarrow> 'b amap" where
  "spec_event A ev = (case ev of (r, err, _) \<Rightarrow> if err = None then spec_write r A else A)"

definition spec_run :: "'b amap \<Rightarrow> ('b valueWriteReq \<times> go_error option \<times> u64) list \<Rightarrow> 'b amap" where
  "spec_run A evs = foldl spec_event A evs"

text \<open>The requests of clients and of replication: no rewrite, no local removal.\<close>

definition plain_req :: "'b valueWriteReq \<Rightarrow> bool" where
  "plain_req r \<longleftrightarrow>
     wr_timestampbits r \<noteq> 0 \<and> wr_timestampbits r AND TSB_COMPACTION_REWRITE = 0 \<and>
     wr_timestampbits r AND TSB_LOCAL_REMOVAL = 0"

lemma plain_req_bits: "plain_req r \<Longrightarrow> wr_timestampbits r AND NOT TSB_COMPACTION_REWRITE = wr_timestampbits r"
proof -
  assume "plain_req r"
  then have "\<not> bit (wr_timestampbits r) 0"
    by (simp add: plain_req_def TSB_COMPACTION_REWRITE_def and_one_eq bit_0 even_iff_mod_2_eq_zero)
  then show ?thesis
    by (intro bit_word_eqI) (auto simp: TSB_COMPACTION_REWRITE_def bit_simps intro: gr0I)
qed

lemma plain_req_ok: "plain_req r \<Longrightarrow> req_ok A r"
  using plain_req_bits [of r] by (simp add: req_ok_def plain_req_def)

context locmap_contract
begin

lemma store_step_ok:
  assumes "store_step L sum32 cfg s ev s'" "store_inv L sum32 cfg S P s" "cfg_ok cfg"
    "\<forall>e. ev = Some e \<longrightarrow> plain_req (fst e)"
  shows "\<exists>S' P'. store_inv L sum32 cfg S' P' s' \<and>
    view L S' s' = spec_run (view L S s) (case ev of None \<Rightarrow> [] | Some e \<Rightarrow> [e]) \<and>
    (\<forall>r pts. ev = Some (r, None, pts) \<longrightarrow> pts = fst (view L S s (wr_keyA r, wr_keyB r)))"
  using assms(1)
proof cases
  case (step_answer w r err pts)
  then have "req_ok (view L S s) r" using assms(4) plain_req_ok by simp
  from memWriter_write_ok [OF assms(2,3) step_answer(2) this step_answer(3)] show ?thesis
    using step_answer(1)
    by (intro exI [of _ S] exI [of _ P]) (cases err; auto simp: spec_run_def spec_event_def turn_effect_def)
next
  case (step_control w msg ans)
  then show ?thesis
    using memWriter_ok [OF assms(2,3) step_control(2) _ step_control(4)]
    by (intro exI [of _ S] exI [of _ P]) (auto simp: spec_run_def turn_effect_def)
next
  case (step_file env)
  then show ?thesis using fileWriter_ok [OF assms(2,3)] by (simp add: spec_run_def)
next
  case (step_pipe env)
  then show ?thesis using file_pipe_ok [OF assms(2)] by (simp add: spec_run_def) blast
next
  case (step_recv k)
  then show ?thesis
    using memClearer_recv_ok [OF assms(2)] by (intro exI [of _ S] exI [of _ P]) (simp add: spec_run_def)
next
  case (step_entry k)
  then show ?thesis
    using memClearer_entry_ok [OF assms(2)] by (intro exI [of _ S] exI [of _ P]) (simp add: spec_run_def)
next
  case (step_done k)
  then show ?thesis
    using memClearer_done_ok [OF assms(2)] by (intro exI [of _ S] exI [of _ P]) (simp add: spec_run_def)
next
  case (step_toc err)
  then show ?thesis
    using core_same_ok [OF assms(2) tocWriter_core [OF step_toc(2)]] by (intro exI [of _ S] exI [of _ P]) (simp add: spec_run_def)
next
  case (step_count c)
  then show ?thesis
    using core_same_ok [OF assms(2), of s'] by (intro exI [of _ S] exI [of _ P]) (simp add: spec_run_def)
qed

lemma store_run_ok:
  assumes "store_run L sum32 cfg s evs s'" "store_inv L sum32 cfg S P s" "cfg_ok cfg"
    "\<forall>ev \<in> set evs. plain_req (fst ev)"
  shows "\<exists>S' P'. store_inv L sum32 cfg S' P' s' \<and> view L S' s' = spec_run (view L S s) evs"
  using assms
proof induction
  case (run_nil s)
  then show ?case by (auto simp: spec_run_def)
next
  case (run_step s evs s1 ev s2)
  then obtain S1 P1 where S1: "store_inv L sum32 cfg S1 P1 s1" "view L S1 s1 = spec_run (view L S s) evs"
    by auto
  have "\<forall>e. ev = Some e \<longrightarrow> plain_req (fst e)" using run_step.prems by auto
  from store_step_ok [OF run_step(2) S1(1) run_step.prems(2) this] obtain S2 P2 where
    "store_inv L sum32 cfg S2 P2 s2" "view L S2 s2 = spec_run (view L S1 s1) (case ev of None \<Rightarrow> [] | Some e \<Rightarrow> [e])"
    by blast
  then show ?case using S1(2) by (auto simp: spec_run_def)
qed

end

section \<open>Startup\<close>

lemma add_mem_ok:
  assumes inv: "store_inv L sum32 cfg S P s"
    and add: "addLocBlock (\<lambda>i. MemBlock \<lparr>mb_id = i, mb_fileID = 0, mb_fileOffset = 0, mb_toc = [], mb_values = []\<rparr>) s =
      Done ((i, None), s1)"
    and s': "s' = s1\<lparr>st_freeMemBlockChan := st_freeMemBlockChan s1 @ [i]\<rparr>"
  shows "store_inv L sum32 cfg S P s'" and "view L S s' = view L S s"
proof -
  let ?B = "st_locBlocks s" and ?m = "\<lparr>mb_id = i, mb_fileID = 0, mb_fileOffset = 0, mb_toc = [], mb_values = []\<rparr>"
  let ?B' = "?B(unat i := Some (MemBlock ?m))"
  have locs: "locs_ok (c_layout cfg) (lm_Get L (st_locmap s)) ?B S (clear_pos (st_memClearers s))"
    and entries: "entries_ok (c_layout cfg) (lm_Get L (st_locmap s)) ?B S"
    and blocks: "blocks_ok (st_locBlockIDer s) ?B" and sizes: "sizes_ok cfg ?B"
    and places: "places_ok (c_layout cfg) S P s" and uni: "unique (owned P s)" and files: "files_ok sum32 cfg S P s"
    and n: "0 < length (st_freeableMemBlockChans s)" "length (st_memClearers s) = length (st_freeableMemBlockChans s)"
    using inv by (simp_all add: store_inv_def)
  have "unat (st_locBlockIDer s) < MaxUint16" using blocks by (simp add: blocks_ok_def)
  note al = addLocBlock_Done [OF add this]
  have B_i: "?B (unat i) = None" using blocks al(1) by (simp add: blocks_ok_def)
  have comps: "st_locmap s' = st_locmap s" "st_locBlocks s' = ?B'" "st_locBlockIDer s' = st_locBlockIDer s + 1"
    "st_freeMemBlockChan s' = st_freeMemBlockChan s @ [i]" "st_memWriters s' = st_memWriters s"
    "st_fileMemBlockChan s' = st_fileMemBlockChan s" "st_memClearers s' = st_memClearers s"
    "st_freeableMemBlockChans s' = st_freeableMemBlockChans s" "st_fileWriter s' = st_fileWriter s"
    by (simp_all add: s' al(3))
  have owned: "owned P s' = add_mset i (owned P s)" by (simp add: owned_def comps)
  have not_i: "j \<noteq> i" if "j \<in># owned P s" for j
    using places_mem [OF places that] B_i by (auto simp: mem_ok_def)
  have "Multiset.count (owned P s) i = 0" using not_i by (auto simp: count_eq_zero_iff)
  then have uni': "unique (owned P s')" using uni unfolding owned unique_def by auto
  have filed: "filed P s' = filed P s" by (simp add: filed_def comps)
  let ?s = "s'\<lparr>st_freeMemBlockChan := st_freeMemBlockChan s\<rparr>"
  have "places_ok (c_layout cfg) S P ?s"
  proof (rule places_change [OF places])
    show "j \<in># owned P s \<Longrightarrow> st_locBlocks ?s (unat j) = st_locBlocks s (unat j)" for j
      using not_i by (simp add: comps)
    show "keeps_files (st_locBlocks s) (st_locBlocks ?s)" using B_i by (auto simp: keeps_files_def comps)
  qed (use comps filed in \<open>simp_all add: grows_def filed_def\<close>)
  then have pl: "places_ok (c_layout cfg) S P s'"
    unfolding places_ok_def Let_def filed_def by (auto simp: comps free_ok_def)
  have bo: "blocks_ok (st_locBlockIDer s + 1) ?B'"
    using blocks al unfolding blocks_ok_def by (auto simp: al(4))
  have so: "sizes_ok cfg ?B'" using sizes by (auto simp: sizes_ok_def)
  have gf: "get_file j s' = get_file j s" for j
    using B_i by (auto simp: get_file_def comps)
  have fo: "files_ok sum32 cfg S P s'"
    using files gf unfolding files_ok_def Let_def comps(2,8,9) by (auto split: if_splits)
  have pres: "content S ?B j off len = Some v \<Longrightarrow> content S ?B' j off len = Some v" for j off len v
    using B_i by (auto simp: content_def split: option.splits)
  have blk: "?B' j = Some (MemBlock m') \<Longrightarrow>
      (\<exists>m. ?B j = Some (MemBlock m) \<and> mb_toc m' = mb_toc m \<and> mb_values m' = mb_values m) \<or> ?B j = None \<and> mb_toc m' = []" for j m'
    using B_i by (auto split: if_splits)
  note fr = frame_ok [OF locs entries, of S ?B', OF pres blk]
  show "store_inv L sum32 cfg S P s'"
    using fr(1,2) bo so uni' n pl fo unfolding store_inv_def comps(1-3,7,8) by blast
  show "view L S s' = view L S s" using fr(3) unfolding view_def comps by blast
qed

lemma startup_blocks_ok:
  assumes "startup_blocks k s = Done (None, s')" "store_inv L sum32 cfg S P s"
  shows "store_inv L sum32 cfg S P s' \<and> view L S s' = view L S s"
  using assms
proof (induction k arbitrary: s)
  case (Suc k)
  then obtain i s1 where add: "addLocBlock (\<lambda>i. MemBlock \<lparr>mb_id = i, mb_fileID = 0, mb_fileOffset = 0, mb_toc = [], mb_values = []\<rparr>) s =
      Done ((i, None), s1)"
    "startup_blocks k (s1\<lparr>st_freeMemBlockChan := st_freeMemBlockChan s1 @ [i]\<rparr>) = Done (None, s')"
    by (auto elim!: bind_outcome_DoneE split: option.splits)
  note am = add_mem_ok [OF Suc(3) add(1) refl]
  show ?case using Suc(1) [OF add(2) am(1)] am(2) by simp
qed simp

lemma shares_replicate [simp]: "f x = {#} \<Longrightarrow> shares f (replicate n x) = {#}"
  by (induction n) auto

lemma startup_reset_ok:
  assumes "\<And>a b. lm_Get L (st_locmap s) a b = loc_none" "0 < c_workers cfg"
  shows "store_inv L sum32 cfg (\<lambda>_. []) [] (startup_reset cfg s)"
    and "view L (\<lambda>_. []) (startup_reset cfg s) = (\<lambda>_. (0, []))"
proof -
  have "owned [] (startup_reset cfg s) = {#}"
    by (simp add: owned_def startup_reset_def clearing_def)
  moreover have "filed [] (startup_reset cfg s) = {#}"
    by (simp add: filed_def startup_reset_def clearing_def)
  ultimately show "store_inv L sum32 cfg (\<lambda>_. []) [] (startup_reset cfg s)"
    using assms
    by (simp add: store_inv_def locs_ok_def loc_ok_def entries_ok_def blocks_ok_def sizes_ok_def unique_def
        places_ok_def files_ok_def Let_def)
      (simp add: startup_reset_def writer_ok_def clearer_ok_def MaxUint16_def)
  show "view L (\<lambda>_. []) (startup_reset cfg s) = (\<lambda>_. (0, []))"
    using assms(1) by (auto simp: view_def abs_map_def startup_reset_def)
qed

end
