(* ===== verification/StoreExample.thy ===== *)
theory StoreExample
  imports StoreWorkers
begin

text \<open>
  A small configuration, for a layout, and a store that was never started, over the association-list location map:
  the inputs the witnesses of the later theories evaluate on.
\<close>

definition cfg_small :: "'b layout \<Rightarrow> 'b store_cfg" where
  "cfg_small Y = \<lparr>c_layout = Y, c_workers = 1, c_recoveryBatchSize = 4, c_valueCap = 16, c_pageSize = 128,
     c_minValueAlloc = 1, c_writePagesPerWorker = 2, c_fileCap = 4096, c_fileReaders = 1,
     c_checksumInterval = 64, c_replicationIgnoreRecent = 0\<rparr>"

abbreviation cfg_example :: "u64 store_cfg" where
  "cfg_example \<equiv> cfg_small value_layout"

lemmas cfg_example_def = cfg_small_def [of value_layout]

definition no_counts :: valueCounters where
  "no_counts = \<lparr>ct_lookups = 0, ct_lookupErrors = 0, ct_reads = 0, ct_readErrors = 0, ct_writes = 0,
     ct_writeErrors = 0, ct_writesOverridden = 0, ct_deletes = 0, ct_deleteErrors = 0, ct_deletesOverridden = 0,
     ct_outBulkSets = 0, ct_outBulkSetValues = 0, ct_outBulkSetPushes = 0, ct_outBulkSetPushValues = 0,
     ct_outPushReplicationNanoseconds = 0, ct_inBulkSets = 0, ct_inBulkSetDrops = 0, ct_inBulkSetInvalids = 0,
     ct_inBulkSetWrites = 0, ct_inBulkSetWriteErrors = 0, ct_inBulkSetWritesOverridden = 0,
     ct_outBulkSetAcks = 0, ct_inBulkSetAcks = 0, ct_inBulkSetAckDrops = 0, ct_inBulkSetAckInvalids = 0,
     ct_inBulkSetAckWrites = 0, ct_inBulkSetAckWriteErrors = 0, ct_inBulkSetAckWritesOverridden = 0,
     ct_outPullReplications = 0, ct_outPullReplicationNanoseconds = 0, ct_inPullReplications = 0,
     ct_inPullReplicationDrops = 0, ct_inPullReplicationInvalids = 0, ct_expiredDeletions = 0,
     ct_tombstoneDiscardNanoseconds = 0, ct_compactionNanoseconds = 0, ct_compactions = 0,
     ct_smallFileCompactions = 0, ct_auditNanoseconds = 0, ct_modifications = 0,
     ct_lookupGroups = 0, ct_lookupGroupItems = 0, ct_lookupGroupErrors = 0, ct_readGroups = 0,
     ct_readGroupItems = 0, ct_readGroupErrors = 0\<rparr>"

text \<open>A store that was never started, over the association-list location map.\<close>

definition store_blank :: "'b alm valueStore" where
  "store_blank = \<lparr>st_running = 0, st_locmap = [], st_locBlocks = (\<lambda>_. None), st_locBlockIDer = 0,
     st_freeMemBlockChan = [], st_fileMemBlockChan = [], st_freeableMemBlockChans = [], st_freeTOCBlocks = 0,
     st_pendingTOCBlockChan = [], st_activeTOCA = 0, st_activeTOCB = 0, st_flushed = 0, st_shutdown = 0,
     st_readOnly = False, st_userDisabled = False, st_memWriters = [], st_memClearers = [],
     st_fileWriter = \<lparr>fw_fl = None, fw_flushLeft = 0, fw_shutdownLeft = 0, fw_tocLen = 0, fw_valueLen = 0,
       fw_disabled = None, fw_index = 0, fw_running = False\<rparr>,
     st_tocWriter = \<lparr>tw_flushLeft = 0, tw_shutdownLeft = 0, tw_writerA = None, tw_offsetA = 0, tw_writerB = None,
       tw_offsetB = 0, tw_disabled = False, tw_running = False\<rparr>,
     st_tocFiles = (\<lambda>_. None), st_counters = no_counts, st_restarts = []\<rparr>"

abbreviation store_new :: "u64 alm valueStore" where
  "store_new \<equiv> store_blank"

lemmas store_new_def = store_blank_def [where 'b = u64]

lemma store_blank_simps [simp]:
  "st_locmap store_blank = []" "st_memWriters store_blank = []" "st_freeMemBlockChan store_blank = []"
  by (simp_all add: store_blank_def)

end
