(* ===== verification/StoreTheorems.thy ===== *)
theory StoreTheorems
  imports StoreRefine StoreExample
begin

unbundle bit_operations_syntax

text \<open>
  The properties of the store as a whole, over every run that starts with \<open>Startup\<close>: any interleaving
  of the goroutines, any requests, with a location map and a checksummed reader that keep their
  contracts.
\<close>

section \<open>Reached states\<close>

text \<open>A state reached from a fresh start with these answered requests.\<close>

definition reached where
  "reached L sum32 cfg evs s \<longleftrightarrow>
     (\<exists>s0 s1. (\<forall>a b. lm_Get L (st_locmap s0) a b = loc_none) \<and> startup_store cfg s0 = Done (None, s1) \<and>
        store_run L sum32 cfg s1 evs s) \<and>
     (\<forall>ev \<in> set evs. plain_req (fst ev)) \<and> cfg_ok cfg \<and> 0 < c_workers cfg"

abbreviation spec_of :: "('b valueWriteReq \<times> go_error option \<times> u64) list \<Rightarrow> 'b amap" where
  "spec_of evs \<equiv> spec_run (\<lambda>_. (0, [])) evs"

lemma reached_inv:
  assumes "locmap_contract L" "reached L sum32 cfg evs s"
  obtains S P where "store_inv L sum32 cfg S P s" "view L S s = spec_of evs"
proof -
  obtain s0 s1 where s1: "\<forall>a b. lm_Get L (st_locmap s0) a b = loc_none" "startup_store cfg s0 = Done (None, s1)"
    "store_run L sum32 cfg s1 evs s" and ok: "\<forall>ev \<in> set evs. plain_req (fst ev)" "cfg_ok cfg" "0 < c_workers cfg"
    using assms(2) by (auto simp: reached_def)
  have none: "\<And>a b. lm_Get L (st_locmap s0) a b = loc_none" using s1(1) by blast
  have "store_inv L sum32 cfg (\<lambda>_. []) [] s1 \<and> view L (\<lambda>_. []) s1 = (\<lambda>_. (0, []))"
    using startup_blocks_ok [OF s1(2) [unfolded startup_store_def], of L sum32 cfg "\<lambda>_. []" "[]",
        OF startup_reset_ok(1) [OF none ok(3)]]
      startup_reset_ok(2) [OF none ok(3)] by simp
  then show thesis
    using locmap_contract.store_run_ok [OF assms(1) s1(3) _ ok(2,1)] that by metis
qed

lemma store_run_trans:
  assumes "store_run L sum32 cfg s1 evs2 s2" "store_run L sum32 cfg s evs1 s1"
  shows "store_run L sum32 cfg s (evs1 @ evs2) s2"
  using assms
proof induction
  case (run_step s1 evs2 s2 ev s3)
  then show ?case
    using store_run.run_step [of L sum32 cfg s "evs1 @ evs2" s2 ev s3] by simp
qed simp

lemma reached_run:
  assumes "reached L sum32 cfg evs s" "store_run L sum32 cfg s evs' s'" "\<forall>ev \<in> set evs'. plain_req (fst ev)"
  shows "reached L sum32 cfg (evs @ evs') s'"
proof -
  obtain s0 s1 where s1: "\<forall>a b. lm_Get L (st_locmap s0) a b = loc_none" "startup_store cfg s0 = Done (None, s1)"
    "store_run L sum32 cfg s1 evs s" using assms(1) by (auto simp: reached_def)
  from store_run_trans [OF assms(2) s1(3)] s1(1,2) assms(1,3) show ?thesis
    unfolding reached_def by (auto simp: ball_Un)
qed

section \<open>Reading\<close>

text \<open>
  The value of a key can be read: it is in memory, in a closed file, or in a part of the open file
  that is on disk.
\<close>

definition readable where
  "readable L cfg a b s \<longleftrightarrow>
     (case lm_Get L (st_locmap s) a b of (ts, i, off, len) \<Rightarrow>
        fw_fl (st_fileWriter s) = Some i \<longrightarrow>
        (\<forall>fl. get_file i s = Some fl \<longrightarrow>
           unat off + unat len \<le> sf_seq fl * unat (c_checksumInterval cfg)))"

definition spec_read :: "'b amap \<Rightarrow> 'b key \<Rightarrow> bytes \<Rightarrow> u64 \<times> bytes \<times> go_error option" where
  "spec_read A k buf =
     (case A k of (ts, v) \<Rightarrow>
        if ts = 0 \<or> ts AND TSB_DELETION \<noteq> 0 \<or> ts AND TSB_LOCAL_REMOVAL \<noteq> 0
        then (ts, buf, Some ErrNotFound) else (ts, buf @ v, None))"

lemma open_file_read:
  assumes "checksummed_reader sum32 rd" "file_inv sum32 ci stream P fl" "0 < unat ci"
    "unat off + unat len \<le> sf_seq fl * unat ci" "value_at off len stream = Some v" "ts AND TSB_DELETION = 0"
  shows "valueStoreFile_read rd ci fl ts off len buf = (ts, buf @ v, None)"
proof -
  obtain blocks and cur :: writeBuf and M where st: "\<forall>b \<in> set blocks. length (fst b) = unat ci"
    "concat (map fst blocks) @ wb_data cur = stream" "pipe_inv sum32 blocks M fl"
    using assms(2) by (auto simp: file_inv_def)
  let ?k = "sf_seq fl" and ?bs = "map fst (take (sf_seq fl) blocks)"
  have k: "?k \<le> length blocks" and disk: "sf_disk fl = concat (map (sealed sum32) ?bs) @ []"
    using st(3) by (simp_all add: pipe_inv_def)
  have all: "\<forall>b \<in> set ?bs. length b = unat ci" using st(1) by (auto dest: in_set_takeD)
  have len: "length (concat ?bs) = ?k * unat ci"
    using length_concat_const [OF all] k by (simp add: mult.commute min_def)
  have "stream = concat ?bs @ (concat (map fst (drop ?k blocks)) @ wb_data cur)"
    using st(2) by (metis append.assoc append_take_drop_id concat_append map_append)
  then have "take (unat len) (drop (unat off) (concat ?bs)) = v"
    using assms(4,5) len by (auto simp: value_at_def split: if_splits)
  then have "rd (unat ci) (sf_disk fl) (unat off) (unat len) = (v, None)"
    unfolding disk
    using checksummed_reader.rd_covered [OF assms(1,3), of ?bs "unat off" "unat len" "[]"] all assms(4) len by auto
  then show ?thesis using assms(6) by (simp add: valueStoreFile_read_def)
qed

lemma closed_file_read:
  assumes "checksummed_reader sum32 rd" "closed_ok sum32 cfg stream fl" "32 \<le> unat (c_checksumInterval cfg)"
    "value_at off len stream = Some v" "ts AND TSB_DELETION = 0"
  shows "valueStoreFile_read rd (c_checksumInterval cfg) fl ts off len buf = (ts, buf @ v, None)"
  using checksummed_reader.read_closed [OF assms(1), of fl "c_checksumInterval cfg" "[]" stream
      "term_block (unat (c_checksumInterval cfg))" off "unat off" len ts buf] assms
  by (auto simp: closed_ok_def value_at_def split: if_splits)

lemma store_inv_loc:
  assumes "store_inv L sum32 cfg S P s" "lm_Get L (st_locmap s) a b = loc"
  shows "loc_ok (c_layout cfg) S (st_locBlocks s) (clear_pos (st_memClearers s)) a b loc"
  using assms by (auto simp: store_inv_def locs_ok_def)

lemma store_read_inv:
  assumes lm: "locmap_contract L" and rd: "checksummed_reader sum32 rd" and inv: "store_inv L sum32 cfg S P s"
    and cfg: "cfg_ok cfg" and readable: "readable L cfg a b s"
  shows "store_read L rd cfg a b buf s = Done (spec_read (view L S s) (a, b) buf)"
proof -
  obtain ts i off len where G: "lm_Get L (st_locmap s) a b = (ts, i, off, len)" by (metis prod_cases4)
  show ?thesis
  proof (cases "i = 0 \<or> ts AND TSB_DELETION \<noteq> 0 \<or> ts AND TSB_LOCAL_REMOVAL \<noteq> 0")
    case True
    have "ts = fst (view L S s (a, b))" using locmap_contract.view_ts [OF lm, of S s a b] G by simp
    moreover have "i = 0 \<Longrightarrow> ts = 0" using locmap_contract.Get_missing [OF lm, of "st_locmap s" a b] G by simp
    ultimately show ?thesis
      using True G by (auto simp: store_read_def spec_read_def split: prod.splits)
  next
    case False
    have blocks: "blocks_ok (st_locBlockIDer s) (st_locBlocks s)" and files: "files_ok sum32 cfg S P s"
      using inv by (simp_all add: store_inv_def)
    have "loc_ok (c_layout cfg) S (st_locBlocks s) (clear_pos (st_memClearers s)) a b (ts, i, off, len)"
      by (rule store_inv_loc [OF inv G])
    then obtain v where ts: "ts \<noteq> 0" and v: "content S (st_locBlocks s) i off len = Some v"
      using False by (auto simp: loc_ok_def)
    have "view L S s (a, b) = (ts, v)" using False G v by (simp add: view_def abs_map_def)
    then have spec: "spec_read (view L S s) (a, b) buf = (ts, buf @ v, None)"
      using False ts by (simp add: spec_read_def)
    obtain blk where blk: "st_locBlocks s (unat i) = Some blk" using v by (cases "st_locBlocks s (unat i)") (auto simp: content_def)
    have small: "unat i < MaxUint16"
      using blocks blk by (auto simp: blocks_ok_def) (metis dual_order.strict_trans2 not_le_imp_less option.distinct(1))
    show ?thesis
    proof (cases blk)
      case (MemBlock m)
      have "mb_id m = i" using blocks_ok_id(1) [OF blocks] blk MemBlock by blast
      then show ?thesis
        using G False v blk MemBlock spec small
        by (auto simp: store_read_def read_fuel_def numeral_2_eq_2 locBlock_def content_def value_at_def split: if_splits)
    next
      case (FileBlock fl)
      have val: "value_at off len (S (unat i)) = Some v" using v blk FileBlock by (simp add: content_def)
      have ci: "32 \<le> unat (c_checksumInterval cfg)" using cfg by (simp add: cfg_ok_def)
      have "valueStoreFile_read rd (sf_interval fl) fl ts off len buf = (ts, buf @ v, None)"
      proof (cases "fw_fl (st_fileWriter s) = Some i")
        case True
        then have inv: "file_inv sum32 (c_checksumInterval cfg) (S (unat i)) P fl"
          using files blk FileBlock by (auto simp: files_ok_def open_ok_def Let_def get_file_def)
        then have "sf_interval fl = c_checksumInterval cfg" by (auto simp: file_inv_def)
        then show ?thesis
          using inv open_file_read [OF rd _ _ _ val, of "c_checksumInterval cfg" P fl ts buf] readable True G False ci blk FileBlock
          by (auto simp: readable_def get_file_def)
      next
        case other: False
        have "sf_id fl = i" using blocks_ok_id(2) [OF blocks] blk FileBlock by blast
        then have "closed_ok sum32 cfg (S (unat i)) fl"
          using files other blk FileBlock by (auto simp: files_ok_def Let_def)
        then show ?thesis using closed_file_read [OF rd _ ci val] False by (simp add: closed_ok_def)
      qed
      then show ?thesis
        using G False blk FileBlock spec small
        by (simp add: store_read_def read_fuel_def numeral_2_eq_2 locBlock_def)
    qed
  qed
qed

text \<open>A read depends on the location map and on the blocks only.\<close>

lemma locBlock_read_cong:
  "st_locmap s = st_locmap s' \<Longrightarrow> st_locBlocks s = st_locBlocks s' \<Longrightarrow>
   locBlock_read fuel L rd cfg s i a b ts off len v = locBlock_read fuel L rd cfg s' i a b ts off len v"
proof (induction fuel L rd cfg s i a b ts off len v rule: locBlock_read.induct)
  case (2 fuel L rd cfg s i a b ts off len v)
  then show ?case
    by (simp add: locBlock_def split: option.splits valueLocBlock.splits prod.splits)
qed simp

lemma store_read_cong:
  "st_locmap s = st_locmap s' \<Longrightarrow> st_locBlocks s = st_locBlocks s' \<Longrightarrow>
   store_read L rd cfg a b v s = store_read L rd cfg a b v s'"
  using locBlock_read_cong [of s s' read_fuel L rd cfg] by (simp add: store_read_def split: prod.splits)

lemma store_read_tally [simp]: "store_read L rd cfg a b v (tally f s) = store_read L rd cfg a b v s"
  by (rule store_read_cong) (simp_all add: tally_def)

section \<open>Writing\<close>

abbreviation request :: "u64 \<Rightarrow> 'b \<Rightarrow> u64 \<Rightarrow> bytes \<Rightarrow> bool \<Rightarrow> 'b valueWriteReq" where
  "request a b ts v internal \<equiv>
     \<lparr>wr_keyA = a, wr_keyB = b, wr_timestampbits = ts, wr_value = v, wr_internal = internal\<rparr>"

lemma spec_run_append: "spec_run A (evs @ evs') = spec_run (spec_run A evs) evs'"
  by (simp add: spec_run_def)

lemma spec_run_keeps:
  assumes "\<forall>ev \<in> set evs. (wr_keyA (fst ev), wr_keyB (fst ev)) = k \<longrightarrow> wr_timestampbits (fst ev) \<le> fst (A k)"
  shows "spec_run A evs k = A k"
  using assms
proof (induction evs arbitrary: A)
  case (Cons ev evs)
  obtain r err pts where ev: "ev = (r, err, pts)" by (metis prod_cases3)
  have k: "spec_event A ev k = A k"
    using Cons.prems by (auto simp: ev spec_event_def spec_write_def)
  with Cons.prems Cons.IH [of "spec_event A ev"] show ?case by (simp add: spec_run_def)
qed (simp add: spec_run_def)

lemma reached_tally: "reached L sum32 cfg evs s \<Longrightarrow> reached L sum32 cfg evs (tally f s)"
  using reached_run [of L sum32 cfg evs s "[]"] run_step [OF run_nil step_count, of L sum32 cfg s]
  by (simp add: tally_def)

text \<open>
  What a write that was answered without an error did: the answer is the newest timestamp the store
  had for the key, and the store goes on as the specification does.
\<close>

lemma store_write_reached:
  assumes lm: "locmap_contract L" and s: "reached L sum32 cfg evs s"
    and w: "store_write L cfg a b ts v internal s = Done ((pts, None), s')"
    and plain: "plain_req (request a b ts v internal)"
  shows "pts = fst (spec_of evs (a, b))"
    and "reached L sum32 cfg (evs @ [(request a b ts v internal, None, pts)]) s'"
proof -
  let ?r = "request a b ts v internal"
  obtain s1 where s1: "memWriter L cfg (writer_of a s) (WriteReq ?r) s = Done (Some (None, pts), s1)"
    "s' = s1 \<or> (\<exists>f. s' = tally f s1)" and ne: "st_memWriters s \<noteq> []"
    using w by (auto simp: store_write_def split: if_splits option.splits elim!: bind_outcome_DoneE) blast
  have lt: "writer_of a s < length (st_memWriters s)" using ne by (simp add: writer_of_def)
  have step: "store_step L sum32 cfg s (Some (?r, None, pts)) s1" by (rule step_answer [OF lt s1(1)])
  have "reached L sum32 cfg (evs @ [(?r, None, pts)]) s1"
    using reached_run [OF s, of "[(?r, None, pts)]"] run_step [OF run_nil step] plain by simp
  then show "reached L sum32 cfg (evs @ [(?r, None, pts)]) s'" using s1(2) reached_tally by blast
  obtain S P where S: "store_inv L sum32 cfg S P s" "view L S s = spec_of evs"
    using reached_inv [OF lm s] .
  show "pts = fst (spec_of evs (a, b))"
    using locmap_contract.store_step_ok [OF lm step S(1)] s plain S(2) by (auto simp: reached_def)
qed

lemma drop_bit_word_mono: "(x :: u64) \<le> y \<Longrightarrow> drop_bit n x \<le> drop_bit n y"
  unfolding word_le_nat_alt unat_drop_bit_eq by (simp add: drop_bit_eq_div div_le_mono)

text \<open>The timestamp of a client operation, with at most the deletion bit.\<close>

lemma client_bits:
  assumes "\<not> sint t < sint TIMESTAMPMICRO_MIN" "\<not> sint TIMESTAMPMICRO_MAX < sint (t :: i64)" "f = 0 \<or> f = TSB_DELETION"
  shows "plain_req (request a b (push_bit TSB_UTIL_BITS t OR f) v internal)"
    and "(push_bit TSB_UTIL_BITS t OR f) AND TSB_DELETION = f"
    and "(push_bit TSB_UTIL_BITS t OR f) AND TSB_LOCAL_REMOVAL = 0"
    and "drop_bit TSB_UTIL_BITS (push_bit TSB_UTIL_BITS t OR f) = t"
proof -
  have t: "unat t < 2 ^ 56" "256 \<le> unat t" using usable_unat [of t] assms(1,2) by simp_all
  have f: "unat f < 256" using assms(3) by (auto simp: TSB_DELETION_def)
  have u: "unat (push_bit 8 t OR f) = 256 * unat t + unat f" by (rule unat_shift8_or [OF t(1) f])
  have "push_bit 8 t AND x = 0" if "unat x < 256" for x :: u64 using and_shift8_small [OF that] .
  then have and0: "push_bit 8 t AND TSB_DELETION = 0" "push_bit 8 t AND TSB_LOCAL_REMOVAL = 0"
    "push_bit 8 t AND TSB_COMPACTION_REWRITE = 0"
    by (simp_all add: TSB_DELETION_def TSB_LOCAL_REMOVAL_def TSB_COMPACTION_REWRITE_def)
  have f0: "f AND TSB_DELETION = f" "f AND TSB_LOCAL_REMOVAL = 0" "f AND TSB_COMPACTION_REWRITE = 0"
    using assms(3) by (auto simp: TSB_DELETION_def TSB_LOCAL_REMOVAL_def TSB_COMPACTION_REWRITE_def)
  have "push_bit 8 t OR f \<noteq> 0" using u t(2) by (metis add_is_0 mult_is_0 not_numeral_le_zero unat_0 zero_neq_numeral)
  then show "plain_req (request a b (push_bit TSB_UTIL_BITS t OR f) v internal)"
    using and0 f0 by (simp add: plain_req_def TSB_UTIL_BITS_def bit.conj_disj_distrib2)
  show "(push_bit TSB_UTIL_BITS t OR f) AND TSB_DELETION = f"
    "(push_bit TSB_UTIL_BITS t OR f) AND TSB_LOCAL_REMOVAL = 0"
    using and0 f0 by (simp_all add: TSB_UTIL_BITS_def bit.conj_disj_distrib2)
  have "unat (drop_bit 8 (push_bit 8 t OR f)) = unat t"
    using u f by (simp add: drop_bit_eq_div unat_div del: unat_inject)
  then show "drop_bit TSB_UTIL_BITS (push_bit TSB_UTIL_BITS t OR f) = t" by (simp add: TSB_UTIL_BITS_def)
qed

lemma client_write:
  assumes lm: "locmap_contract L" and s: "reached L sum32 cfg evs s"
    and w: "store_write L cfg a b ts v internal (tally f s) = Done ((pts, None), s1)"
    and s': "s' = s1 \<or> (\<exists>f. s' = tally f s1)"
    and plain: "plain_req (request a b ts v internal)" and newer: "pts < ts"
    and run: "store_run L sum32 cfg s' evs' s''" and ok: "\<forall>ev \<in> set evs'. plain_req (fst ev)"
    and last: "\<forall>ev \<in> set evs'. (wr_keyA (fst ev), wr_keyB (fst ev)) = (a, b) \<longrightarrow> wr_timestampbits (fst ev) \<le> ts"
  obtains evs3 where "reached L sum32 cfg evs3 s''" "spec_of evs3 (a, b) = (ts, v)"
proof -
  let ?ev = "(request a b ts v internal, None, pts)"
  note wr = store_write_reached [OF lm reached_tally [OF s] w plain]
  have "reached L sum32 cfg (evs @ [?ev]) s'" using wr(2) s' reached_tally by blast
  note r = reached_run [OF this run ok]
  have A: "spec_of (evs @ [?ev]) (a, b) = (ts, v)"
    using wr(1) newer plain_req_bits [OF plain] by (simp add: spec_run_def spec_event_def spec_write_def)
  have "spec_run (spec_of (evs @ [?ev])) evs' (a, b) = spec_of (evs @ [?ev]) (a, b)"
    using last A by (intro spec_run_keeps) (simp del: append.simps)
  then have "spec_of ((evs @ [?ev]) @ evs') (a, b) = (ts, v)"
    using A spec_run_append [of _ "evs @ [?ev]" evs'] by metis
  with that r show thesis by blast
qed

text \<open>A location of the map has the newest timestamp and the length of its value.\<close>

lemma reached_loc:
  assumes "locmap_contract L" "reached L sum32 cfg evs s" and G: "lm_Get L (st_locmap s) a b = (ts, i, off, len)"
  obtains v where "spec_of evs (a, b) = (ts, v)" "i = 0 \<longleftrightarrow> ts = 0" "i \<noteq> 0 \<longrightarrow> len = of_nat (length v)"
proof -
  obtain S P where S: "store_inv L sum32 cfg S P s" "view L S s = spec_of evs"
    using reached_inv [OF assms(1,2)] .
  obtain v where v: "spec_of evs (a, b) = (ts, v)"
    using locmap_contract.view_ts [OF assms(1), of S s a b] G S(2) by (cases "spec_of evs (a, b)") simp
  have ok: "loc_ok (c_layout cfg) S (st_locBlocks s) (clear_pos (st_memClearers s)) a b (ts, i, off, len)"
    by (rule store_inv_loc [OF S(1) G])
  have "i = 0 \<Longrightarrow> ts = 0"
    using locmap_contract.Get_missing [OF assms(1), of "st_locmap s" a b] G by simp
  moreover have "i \<noteq> 0 \<Longrightarrow> ts \<noteq> 0" using ok by (simp add: loc_ok_def)
  moreover have "len = of_nat (length v)" if i: "i \<noteq> 0"
  proof -
    obtain u where u: "content S (st_locBlocks s) i off len = Some u" using ok i by (auto simp: loc_ok_def)
    have "view L S s (a, b) = (ts, u)" using G i u by (simp add: view_def abs_map_def)
    then have "v = u" using S(2) v by simp
    moreover have "length u = unat len"
      using u by (auto simp: content_def value_at_def split: if_splits option.splits valueLocBlock.splits)
    ultimately show ?thesis by simp
  qed
  ultimately show thesis using that v by blast
qed

lemma Read_spec:
  assumes "locmap_contract L" "checksummed_reader sum32 rd" "reached L sum32 cfg evs s" "readable L cfg a b s"
  shows "Read L rd cfg a b buf s =
    (case spec_read (spec_of evs) (a, b) buf of (ts, v, err) \<Rightarrow>
       Done ((drop_bit TSB_UTIL_BITS ts, v, err), tally (\<lambda>c. c\<lparr>ct_reads := ct_reads c + 1\<rparr>) s))"
proof -
  let ?s = "tally (\<lambda>c. c\<lparr>ct_reads := ct_reads c + 1\<rparr>) s"
  obtain S P where S: "store_inv L sum32 cfg S P ?s" "view L S ?s = spec_of evs"
    using reached_inv [OF assms(1) reached_tally [OF assms(3)]] .
  have "readable L cfg a b ?s" using assms(4) by (simp add: readable_def tally_def get_file_def)
  then have "store_read L rd cfg a b buf ?s = Done (spec_read (spec_of evs) (a, b) buf)"
    using store_read_inv [OF assms(1,2) S(1)] S(2) assms(3) by (simp add: reached_def)
  then show ?thesis by (auto simp: Read_def spec_read_def split: prod.splits)
qed

lemma memWriter_put_answers:
  assumes "st_locBlocks s (unat i) = Some (MemBlock m)" "w < length (st_memWriters s)"
    "mw_memOffset (st_memWriters s ! w) + alloc \<le> unat (c_pageSize cfg)"
    "mw_tocOffset (st_memWriters s ! w) + FILE_ENTRY_SIZE (c_layout cfg) \<le> unat (c_pageSize cfg)"
  shows "\<exists>ans s'. memWriter_put L cfg w i r alloc s = Done (Some ans, s')"
  using assms by (simp add: memWriter_put_def Let_def split: prod.splits)

lemma memWriter_answers:
  assumes wok: "writer_ok (st_locBlocks s) (st_memWriters s ! w)"
    and fok: "\<forall>i \<in> set (st_freeMemBlockChan s). free_ok (st_locBlocks s) i" and w: "w < length (st_memWriters s)"
    and page: "unat (c_valueCap cfg) \<le> unat (c_pageSize cfg)" "c_minValueAlloc cfg \<le> unat (c_pageSize cfg)"
      "FILE_ENTRY_SIZE (c_layout cfg) \<le> unat (c_pageSize cfg)"
  shows "(\<exists>ans s'. memWriter L cfg w (WriteReq r) s = Done (Some ans, s')) \<or>
    memWriter L cfg w (WriteReq r) s = Blocked \<and> st_freeMemBlockChan s = []"
proof -
  let ?mw = "st_memWriters s ! w" and ?alloc = "max (length (wr_value r)) (c_minValueAlloc cfg)"
  define s1 where "s1 = (case mw_block ?mw of None \<Rightarrow> s
     | Some i \<Rightarrow> if unat (c_pageSize cfg) < mw_tocOffset ?mw + FILE_ENTRY_SIZE (c_layout cfg) \<or>
                   unat (c_pageSize cfg) < mw_memOffset ?mw + ?alloc then memWriter_send w i s else s)"
  have same: "st_freeMemBlockChan s1 = st_freeMemBlockChan s" "st_locBlocks s1 = st_locBlocks s"
    "length (st_memWriters s1) = length (st_memWriters s)"
    by (simp_all add: s1_def memWriter_send_def set_memWriter_def split: option.splits)
  show ?thesis
  proof (cases "(\<not> mw_enabled ?mw \<and> \<not> wr_internal r) \<or> unat (c_valueCap cfg) < length (wr_value r)")
    case True
    then show ?thesis by (auto simp: memWriter_def Let_def)
  next
    case False
    then have alloc: "?alloc \<le> unat (c_pageSize cfg)" using page by simp
    have step: "memWriter L cfg w (WriteReq r) s = (case mw_block (st_memWriters s1 ! w) of
        Some i \<Rightarrow> memWriter_put L cfg w i r ?alloc s1
      | None \<Rightarrow> (case st_freeMemBlockChan s1 of [] \<Rightarrow> Blocked
         | i # rest \<Rightarrow> memWriter_put L cfg w i r ?alloc
             (set_memWriter w ((st_memWriters s1 ! w)\<lparr>mw_block := Some i, mw_tocOffset := 0, mw_memOffset := 0\<rparr>)
                (s1\<lparr>st_freeMemBlockChan := rest\<rparr>))))"
      unfolding memWriter_def Let_def writeMsg.case s1_def [symmetric] using False by auto
    show ?thesis
    proof (cases "mw_block (st_memWriters s1 ! w)")
      case (Some i)
      then have i: "s1 = s" "mw_block ?mw = Some i" "mw_tocOffset ?mw + FILE_ENTRY_SIZE (c_layout cfg) \<le> unat (c_pageSize cfg)"
        "mw_memOffset ?mw + ?alloc \<le> unat (c_pageSize cfg)"
        using w by (auto simp: s1_def memWriter_send_def set_memWriter_def split: option.splits if_splits)
      then obtain m where "st_locBlocks s (unat i) = Some (MemBlock m)" using wok by (auto simp: writer_ok_def)
      then show ?thesis using step Some i memWriter_put_answers [of s i m w ?alloc cfg L r] w by auto
    next
      case None
      show ?thesis
      proof (cases "st_freeMemBlockChan s1")
        case (Cons i rest)
        then obtain m where "st_locBlocks s (unat i) = Some (MemBlock m)" using fok same by (auto simp: free_ok_def)
        then have "\<exists>ans s'. memWriter_put L cfg w i r ?alloc (set_memWriter w
            ((st_memWriters s1 ! w)\<lparr>mw_block := Some i, mw_tocOffset := 0, mw_memOffset := 0\<rparr>)
            (s1\<lparr>st_freeMemBlockChan := rest\<rparr>)) = Done (Some ans, s')"
          using same w alloc page(3)
          by (intro memWriter_put_answers) (auto simp: set_memWriter_def)
        then show ?thesis using step None Cons by simp
      qed (use step None same in simp)
    qed
  qed
qed

section \<open>After a write\<close>

lemma Write_bits:
  assumes "Write L cfg a b t v s = Done ((prev, None), s')"
  shows "push_bit TSB_UTIL_BITS t \<noteq> 0" "push_bit TSB_UTIL_BITS t AND TSB_DELETION = 0"
    "push_bit TSB_UTIL_BITS t AND TSB_LOCAL_REMOVAL = 0" "drop_bit TSB_UTIL_BITS (push_bit TSB_UTIL_BITS t) = t"
proof -
  have range: "\<not> sint t < sint TIMESTAMPMICRO_MIN" "\<not> sint TIMESTAMPMICRO_MAX < sint t"
    using assms by (auto simp: Write_def Let_def split: if_splits)
  note bits = client_bits [OF range, of 0, simplified]
  show "push_bit TSB_UTIL_BITS t \<noteq> 0" using bits(1) [of a b v False] by (simp add: plain_req_def)
  show "push_bit TSB_UTIL_BITS t AND TSB_DELETION = 0" "push_bit TSB_UTIL_BITS t AND TSB_LOCAL_REMOVAL = 0"
    "drop_bit TSB_UTIL_BITS (push_bit TSB_UTIL_BITS t) = t" using bits(2-4) by simp_all
qed

lemma Write_reached:
  assumes lm: "locmap_contract L" and s: "reached L sum32 cfg evs s"
    and w: "Write L cfg a b t v s = Done ((prev, None), s')" and newer: "prev < t"
    and run: "store_run L sum32 cfg s' evs' s''" and ok: "\<forall>ev \<in> set evs'. plain_req (fst ev)"
    and last: "\<forall>ev \<in> set evs'. (wr_keyA (fst ev), wr_keyB (fst ev)) = (a, b) \<longrightarrow>
      wr_timestampbits (fst ev) \<le> push_bit TSB_UTIL_BITS t"
  obtains evs3 where "reached L sum32 cfg evs3 s''" "spec_of evs3 (a, b) = (push_bit TSB_UTIL_BITS t, v)"
proof -
  let ?ts = "push_bit TSB_UTIL_BITS t"
  let ?c = "\<lambda>c. c\<lparr>ct_writes := ct_writes c + 1\<rparr>" and ?o = "\<lambda>c. c\<lparr>ct_writesOverridden := ct_writesOverridden c + 1\<rparr>"
  have range: "\<not> sint t < sint TIMESTAMPMICRO_MIN" "\<not> sint TIMESTAMPMICRO_MAX < sint t"
    using w by (auto simp: Write_def Let_def split: if_splits)
  have "\<exists>pts s1. store_write L cfg a b ?ts v False (tally ?c s) = Done ((pts, None), s1) \<and>
      prev = drop_bit TSB_UTIL_BITS pts \<and>
      s' = (if sint t \<le> sint prev then tally ?o s1 else s1)"
    using w range by (auto simp: Write_def Let_def split: if_splits elim!: bind_outcome_DoneE)
  then obtain pts s1 where s1: "store_write L cfg a b ?ts v False (tally ?c s) = Done ((pts, None), s1)"
    "prev = drop_bit TSB_UTIL_BITS pts" "s' = (if sint t \<le> sint prev then tally ?o s1 else s1)" by blast
  have s': "s' = s1 \<or> (\<exists>f. s' = tally f s1)"
    unfolding s1(3) by (cases "sint t \<le> sint prev") (simp_all, blast)
  note bits = client_bits [OF range, of 0, simplified]
  have "drop_bit TSB_UTIL_BITS pts < drop_bit TSB_UTIL_BITS ?ts" using newer s1(2) bits(4) by simp
  then have "pts < ?ts" by (metis drop_bit_word_mono linorder_not_le)
  from client_write [OF lm s s1(1) s' bits(1) this run ok last] that show thesis .
qed

section \<open>Examples\<close>

fun outcome_state :: "'a outcome \<Rightarrow> 'a" where
  "outcome_state (Done x) = x"
| "outcome_state Blocked = undefined"
| "outcome_state Panic = undefined"

definition store_started_in :: "'b layout \<Rightarrow> 'b alm valueStore" where
  "store_started_in Y = snd (outcome_state (startup_store (cfg_small Y) store_blank))"

lemma store_started_eq:
  fixes Y :: "'b layout"
  shows "startup_store (cfg_small Y) (store_blank :: 'b alm valueStore) = Done (None, store_started_in Y)"
proof -
  have two: "c_workers (cfg_small Y) * c_writePagesPerWorker (cfg_small Y) = Suc (Suc 0)"
    by (simp add: cfg_small_def)
  have small: "\<not> ucast MaxUint32 \<le> (1::u64)" "\<not> ucast MaxUint32 \<le> (2::u64)" by code_simp+
  have "st_locBlockIDer (startup_reset (cfg_small Y) (store_blank :: 'b alm valueStore)) = 0" by (simp add: startup_reset_def)
  then have "\<exists>s. startup_store (cfg_small Y) (store_blank :: 'b alm valueStore) = Done (None, s)"
    unfolding startup_store_def two using small
    by (simp add: addLocBlock_def Let_def MaxUint16_def set_locBlock_def)
  then show ?thesis unfolding store_started_in_def by auto
qed

lemma reached_started:
  fixes Y :: "'b layout"
  assumes "key_layout Y"
  shows "reached alm_ops sum32 (cfg_small Y) [] (store_started_in Y)"
proof -
  have "\<forall>a b. lm_Get alm_ops (st_locmap (store_blank :: 'b alm valueStore)) a b = loc_none"
    by (simp add: store_blank_def alm_ops_def alm_Get_def)
  moreover have "cfg_ok (cfg_small Y)" "0 < c_workers (cfg_small Y)" using assms by (simp_all add: cfg_ok_def cfg_small_def)
  moreover have "store_run alm_ops sum32 (cfg_small Y) (store_started_in Y) [] (store_started_in Y)" by (rule run_nil)
  ultimately show ?thesis
    unfolding reached_def using store_started_eq by fastforce
qed

text \<open>The store once writes are enabled.\<close>

definition store_enabled_in :: "'b layout \<Rightarrow> 'b alm valueStore" where
  "store_enabled_in Y = set_memWriter 0 ((st_memWriters (store_started_in Y) ! 0)\<lparr>mw_enabled := True\<rparr>) (store_started_in Y)"

lemma store_started_parts:
  fixes Y :: "'b layout"
  shows "st_memWriters (store_started_in Y) =
     [\<lparr>mw_enabled = False, mw_block = None, mw_tocOffset = 0, mw_memOffset = 0, mw_running = True\<rparr>]"
    "st_freeMemBlockChan (store_started_in Y) = [1, 2]" "st_locmap (store_started_in Y) = []"
    "st_locBlocks (store_started_in Y) 1 = Some (MemBlock \<lparr>mb_id = 1, mb_fileID = 0, mb_fileOffset = 0, mb_toc = [], mb_values = []\<rparr>)"
    "fw_fl (st_fileWriter (store_started_in Y)) = None"
proof -
  have two: "c_workers (cfg_small Y) * c_writePagesPerWorker (cfg_small Y) = Suc (Suc 0)" "c_workers (cfg_small Y) = Suc 0"
    by (simp_all add: cfg_small_def)
  have small: "\<not> ucast MaxUint32 \<le> (1::u64)" "\<not> ucast MaxUint32 \<le> (2::u64)" by code_simp+
  have "startup_store (cfg_small Y) (store_blank :: 'b alm valueStore) = Done (None, store_started_in Y)" by (rule store_started_eq)
  then have eq: "store_started_in Y = (let s = startup_reset (cfg_small Y) (store_blank :: 'b alm valueStore);
      b = (\<lambda>i. MemBlock \<lparr>mb_id = i, mb_fileID = 0, mb_fileOffset = 0, mb_toc = [], mb_values = []\<rparr>)
      in s\<lparr>st_locBlockIDer := 2, st_locBlocks := (st_locBlocks s)(1 := Some (b 1), 2 := Some (b 2)),
          st_freeMemBlockChan := [1, 2]\<rparr>)"
    unfolding startup_store_def two(1) using small
    by (simp add: addLocBlock_def Let_def MaxUint16_def set_locBlock_def startup_reset_def store_blank_def)
  show "st_memWriters (store_started_in Y) =
     [\<lparr>mw_enabled = False, mw_block = None, mw_tocOffset = 0, mw_memOffset = 0, mw_running = True\<rparr>]"
    "st_freeMemBlockChan (store_started_in Y) = [1, 2]" "st_locmap (store_started_in Y) = []"
    "st_locBlocks (store_started_in Y) 1 = Some (MemBlock \<lparr>mb_id = 1, mb_fileID = 0, mb_fileOffset = 0, mb_toc = [], mb_values = []\<rparr>)"
    "fw_fl (st_fileWriter (store_started_in Y)) = None"
    unfolding eq by (simp_all add: Let_def startup_reset_def two store_blank_def)
qed

lemma reached_enabled:
  fixes Y :: "'b layout"
  assumes "key_layout Y"
  shows "reached alm_ops sum32 (cfg_small Y) [] (store_enabled_in Y)"
proof -
  have "memWriter alm_ops (cfg_small Y) 0 EnableReq (store_started_in Y) = Done (None, store_enabled_in Y)"
    by (simp add: memWriter_def store_enabled_in_def Let_def)
  from step_control [OF _ _ this] have "store_step alm_ops sum32 (cfg_small Y) (store_started_in Y) None (store_enabled_in Y)"
    by (simp add: store_started_parts)
  from run_step [OF run_nil this] show ?thesis
    using reached_run [OF reached_started [OF assms], of sum32 "[]"] by simp
qed

abbreviation store_enabled :: "u64 alm valueStore" where
  "store_enabled \<equiv> store_enabled_in value_layout"

definition store_wrote :: "u64 alm valueStore" where
  "store_wrote = snd (outcome_state (Write alm_ops cfg_example 1 2 1000 [7, 8] store_enabled))"

lemmas example_defs = Write_def Delete_def store_write_def writer_of_def tally_def memWriter_def memWriter_put_def
  set_memWriter_def set_locBlock_def cfg_example_def Let_def FILE_ENTRY_SIZE_def alm_ops_def alm_Set_def
  alm_Get_def set_accepts_def TSB_UTIL_BITS_def TSB_COMPACTION_REWRITE_def TSB_DELETION_def
  store_enabled_in_def store_started_parts store_started_parts(4) [unfolded One_nat_def]

lemma example_range: "\<not> sint (1000 :: i64) < sint TIMESTAMPMICRO_MIN" "\<not> sint TIMESTAMPMICRO_MAX < sint (1000 :: i64)"
  by code_simp+

lemma store_wrote_eq:
  "Write alm_ops cfg_example 1 2 1000 [7, 8] store_enabled = Done ((0, None), store_wrote)"
  "fw_fl (st_fileWriter store_wrote) = None"
proof -
  have "\<exists>s. Write alm_ops cfg_example 1 2 1000 [7, 8] store_enabled = Done ((0, None), s) \<and> fw_fl (st_fileWriter s) = None"
    using example_range by (simp add: example_defs)
  then show "Write alm_ops cfg_example 1 2 1000 [7, 8] store_enabled = Done ((0, None), store_wrote)"
    "fw_fl (st_fileWriter store_wrote) = None" unfolding store_wrote_def by auto
qed

definition store_deleted :: "u64 alm valueStore" where
  "store_deleted = snd (outcome_state (Delete alm_ops cfg_example 1 2 1000 store_enabled))"

lemma store_deleted_eq:
  "Delete alm_ops cfg_example 1 2 1000 store_enabled = Done ((0, None), store_deleted)"
  "fw_fl (st_fileWriter store_deleted) = None"
proof -
  have "\<exists>s. Delete alm_ops cfg_example 1 2 1000 store_enabled = Done ((0, None), s) \<and> fw_fl (st_fileWriter s) = None"
    using example_range by (simp add: example_defs)
  then show "Delete alm_ops cfg_example 1 2 1000 store_enabled = Done ((0, None), store_deleted)"
    "fw_fl (st_fileWriter store_deleted) = None" unfolding store_deleted_def by auto
qed

section \<open>Properties\<close>









text \<open>
  C6. \<open>Lookup\<close> in every reached state, wherever the value is: the newest timestamp and the length of its
  value, or not found with length 0 for a deletion or a key never written.
\<close>

theorem Lookup_newest:
  assumes "locmap_contract L" "reached L sum32 cfg evs s"
  shows "\<exists>ts v. spec_of evs (a, b) = (ts, v) \<and> fst (Lookup L a b s) =
    (if ts = 0 \<or> ts AND TSB_DELETION \<noteq> 0 then (drop_bit TSB_UTIL_BITS ts, 0, Some ErrNotFound)
     else (drop_bit TSB_UTIL_BITS ts, of_nat (length v), None))"
proof -
  let ?s = "tally (\<lambda>c. c\<lparr>ct_lookups := ct_lookups c + 1\<rparr>) s"
  obtain ts i off len where G: "lm_Get L (st_locmap ?s) a b = (ts, i, off, len)"
    by (cases "lm_Get L (st_locmap ?s) a b") auto
  from reached_loc [OF assms(1) reached_tally [OF assms(2)] G] obtain v where
    "spec_of evs (a, b) = (ts, v)" "i = 0 \<longleftrightarrow> ts = 0" "i \<noteq> 0 \<longrightarrow> len = of_nat (length v)" .
  then show ?thesis using G by (auto simp: Lookup_def lookup_def)
qed

theorem Lookup_newest_witness:
  "\<exists>ts v. spec_of [] (1, 2 :: u64) = (ts, v) \<and> fst (Lookup alm_ops 1 2 store_enabled) =
    (if ts = 0 \<or> ts AND TSB_DELETION \<noteq> 0 then (drop_bit TSB_UTIL_BITS ts, 0, Some ErrNotFound)
     else (drop_bit TSB_UTIL_BITS ts, of_nat (length v), None))"
  by (rule Lookup_newest [OF alm.locmap_contract_axioms reached_enabled [OF layouts(1)]])



end
