(* ===== verification/Messages.thy ===== *)
theory Messages
  imports StoreExample
begin

unbundle bit_operations_syntax

text \<open>
  What the message handlers share: reading from the connection of the message ring, the queries to
  the ring, the pool of goroutines that serve a queue of messages, and the contract of a codec of
  message entries.  The ring and the transport are other packages: the ring is a record of what it
  answers, the transport a list of the messages handed to it.
\<close>

section \<open>Reading from the connection\<close>

text \<open>
  An \<open>io.Reader\<close> by what arrives: each arrival is some bytes and the error that comes with them.  A
  \<open>Read\<close> returns at most what fits; past the last arrival it reports the end.
\<close>

type_synonym reader = "(bytes \<times> go_error option) list"

fun reader_read :: "nat \<Rightarrow> reader \<Rightarrow> bytes \<times> go_error option \<times> reader" where
  "reader_read n [] = ([], Some ErrEOF, [])"
| "reader_read n ((c, e) # r) =
     (if length c \<le> n then (c, e, r) else (take n c, None, (drop n c, e) # r))"

text \<open>The loops that fill a slice: an error ends them, even with the last bytes.\<close>

function read_full :: "nat \<Rightarrow> bytes \<Rightarrow> reader \<Rightarrow> bytes \<times> go_error option \<times> reader" where
  "read_full left acc r =
     (if left = 0 then (acc, None, r)
      else case reader_read left r of
        (c, Some err, r') \<Rightarrow> (acc @ c, Some err, r')
      | (c, None, r') \<Rightarrow> read_full (left - length c) (acc @ c) r')"
  by pat_completeness auto

lemma reader_read_shorter:
  "reader_read n r = (c, None, r') \<Longrightarrow> 0 < n \<Longrightarrow> length r' + (n - length c) < length r + n \<and> length c \<le> n"
  by (cases "(n, r)" rule: reader_read.cases) (auto split: if_splits)

termination read_full
  by (relation "measure (\<lambda>(left, _, r). length r + left)") (auto dest!: sym [of "(_, _, _)"] reader_read_shorter)

declare read_full.simps [simp del]

definition toss_size :: nat where "toss_size = 65536"

lemma reader_read_toss:
  "reader_read (min left toss_size) r = (c, None, r') \<Longrightarrow> 0 < left \<Longrightarrow> length r' + (left - length c) < length r + left"
  using reader_read_shorter [of "min left toss_size" r c r'] by (auto simp: toss_size_def min_def split: if_splits)

text \<open>Reading and discarding: the number of bytes left and the error.\<close>

function read_toss :: "nat \<Rightarrow> reader \<Rightarrow> nat \<times> go_error option \<times> reader" where
  "read_toss left r =
     (if left = 0 then (0, None, r)
      else case reader_read (min left toss_size) r of
        (c, Some err, r') \<Rightarrow> (left - length c, Some err, r')
      | (c, None, r') \<Rightarrow> read_toss (left - length c) r')"
  by pat_completeness auto

termination read_toss
  by (relation "measure (\<lambda>(left, r). length r + left)") (auto dest!: sym [of "(_, _, _)"] reader_read_toss)

declare read_toss.simps [simp del]

text \<open>The bytes that arrive before the first error.\<close>

fun arriving :: "reader \<Rightarrow> bytes" where
  "arriving [] = []"
| "arriving ((c, e) # r) = c @ (if e = None then arriving r else [])"

definition clean :: "reader \<Rightarrow> bool" where
  "clean r \<longleftrightarrow> (\<forall>(c, e) \<in> set r. e = None)"

lemma clean_Nil [simp]: "clean []"
  by (simp add: clean_def)

lemma clean_Cons [simp]: "clean ((c, e) # r) \<longleftrightarrow> e = None \<and> clean r"
  by (auto simp: clean_def)

lemma clean_read:
  assumes "clean r" "n \<le> length (arriving r)" "0 < n"
  shows "\<exists>c r'. reader_read n r = (c, None, r') \<and> clean r' \<and> arriving r = c @ arriving r' \<and> length c \<le> n"
proof (cases r)
  case (Cons a ra)
  then show ?thesis using assms by (cases a) simp
qed (use assms in simp)

text \<open>However the bytes are split over arrivals, a clean connection delivers them.\<close>

lemma read_full_clean:
  assumes "clean r" "left \<le> length (arriving r)"
  shows "\<exists>r'. read_full left acc r = (acc @ take left (arriving r), None, r') \<and> clean r' \<and>
    arriving r' = drop left (arriving r)"
  using assms
proof (induction left acc r rule: read_full.induct)
  case (1 left acc r)
  show ?case
  proof (cases "left = 0")
    case True
    then show ?thesis using 1(2) by (simp add: read_full.simps)
  next
    case False
    then obtain c r' where rd: "reader_read left r = (c, None, r')" "clean r'" "arriving r = c @ arriving r'" "length c \<le> left"
      using clean_read [OF 1(2,3)] by blast
    from 1(1) [OF False rd(1) [symmetric] refl refl rd(2)] rd(3,4) 1(3) False rd(1) show ?thesis
      by (auto simp: read_full.simps [of left])
  qed
qed

lemma read_toss_clean:
  assumes "clean r" "left \<le> length (arriving r)"
  shows "\<exists>r'. read_toss left r = (0, None, r') \<and> clean r' \<and> arriving r' = drop left (arriving r)"
  using assms
proof (induction left r rule: read_toss.induct)
  case (1 left r)
  show ?case
  proof (cases "left = 0")
    case True
    then show ?thesis using 1(2) by (simp add: read_toss.simps)
  next
    case False
    then have "0 < min left toss_size" "min left toss_size \<le> length (arriving r)" using 1(3) by (auto simp: toss_size_def)
    then obtain c r' where rd: "reader_read (min left toss_size) r = (c, None, r')" "clean r'" "arriving r = c @ arriving r'"
      "length c \<le> min left toss_size"
      using clean_read [OF 1(2)] by blast
    from 1(1) [OF False rd(1) [symmetric] refl refl rd(2)] rd(3,4) 1(3) False rd(1) show ?thesis
      by (auto simp: read_toss.simps [of left])
  qed
qed

section \<open>The ring\<close>

text \<open>
  What the store asks its ring: the bits of a key that name its partition, whether this node is
  responsible for a partition, and the number of this node, if it has one.
\<close>

record ring =
  rg_partitionBitCount :: nat
  rg_responsible :: "u32 \<Rightarrow> bool"
  rg_localNode :: "u64 option"
  rg_version :: i64

definition partition_of :: "ring \<Rightarrow> u64 \<Rightarrow> u32" where
  "partition_of rg keyA = ucast (drop_bit (64 - rg_partitionBitCount rg) keyA)"

section \<open>Entries of a message\<close>

text \<open>
  The contract of a codec of message entries: an entry that was put is got back, with the bytes that
  follow it.  Decoding a message is then the inverse of concatenating its entries.
\<close>

locale entry_codec =
  fixes put :: "'e \<Rightarrow> bytes" and get :: "bytes \<Rightarrow> ('e \<times> bytes) option" and ok :: "'e \<Rightarrow> bool"
  assumes get_put: "ok e \<Longrightarrow> get (put e @ rest) = Some (e, rest)"
    and get_Nil: "get [] = None"
begin

lemma put_inject: "ok e \<Longrightarrow> ok e' \<Longrightarrow> put e @ r = put e' @ r' \<Longrightarrow> e = e' \<and> r = r'"
  by (metis get_put option.inject prod.inject)

lemma put_not_Nil: "ok e \<Longrightarrow> put e \<noteq> []"
proof
  assume "ok e" "put e = []"
  from get_put [OF this(1), of "[]"] this(2) show False by (simp add: get_Nil)
qed

lemma concat_inject:
  assumes "\<forall>e \<in> set es. ok e" "\<forall>e \<in> set es'. ok e" "concat (map put es) = concat (map put es')"
  shows "es = es'"
  using assms
proof (induction es arbitrary: es')
  case Nil
  then show ?case using put_not_Nil by (cases es') auto
next
  case (Cons e es)
  show ?case
  proof (cases es')
    case Nil
    then show ?thesis using Cons.prems put_not_Nil by auto
  next
    case (Cons e' es2)
    then show ?thesis
      using Cons.prems Cons.IH [of es2] put_inject [of e e' "concat (map put es)" "concat (map put es2)"] by auto
  qed
qed

end

section \<open>Loops over entries\<close>

fun fold_outcome :: "('a \<Rightarrow> 's \<Rightarrow> 's outcome) \<Rightarrow> 'a list \<Rightarrow> 's \<Rightarrow> 's outcome" where
  "fold_outcome f [] s = Done s"
| "fold_outcome f (x # xs) s = bind_outcome (f x s) (fold_outcome f xs)"

lemma fold_outcome_inv:
  assumes "fold_outcome f xs s = Done s'" "I s" "\<And>x s s'. x \<in> set xs \<Longrightarrow> I s \<Longrightarrow> f x s = Done s' \<Longrightarrow> I s'"
  shows "I s'"
  using assms
proof (induction xs arbitrary: s)
  case (Cons x xs)
  then obtain s1 where "f x s = Done s1" "fold_outcome f xs s1 = Done s'" by (auto elim!: bind_outcome_DoneE)
  with Cons show ?case by (metis list.set_intros)
qed simp

lemma bind_outcome_assoc: "bind_outcome (bind_outcome x f) g = bind_outcome x (\<lambda>y. bind_outcome (f y) g)"
  by (cases x) simp_all

lemma fold_outcome_append:
  "fold_outcome f (xs @ ys) s = bind_outcome (fold_outcome f xs s) (fold_outcome f ys)"
proof (induction xs arbitrary: s)
  case (Cons x xs)
  then have "fold_outcome f (xs @ ys) = (\<lambda>s. bind_outcome (fold_outcome f xs s) (fold_outcome f ys))" by blast
  then show ?case by (simp add: bind_outcome_assoc)
qed simp

section \<open>Writes leave other keys alone\<close>

lemma removal_bits: "(ts OR TSB_LOCAL_REMOVAL) AND NOT TSB_COMPACTION_REWRITE \<noteq> (0 :: u64)"
proof -
  have "bit ((ts OR TSB_LOCAL_REMOVAL) AND NOT TSB_COMPACTION_REWRITE) 1"
    by (simp add: TSB_LOCAL_REMOVAL_def TSB_COMPACTION_REWRITE_def bit_simps)
  then show ?thesis by (metis bit_0_eq bot_apply bot_bool_def)
qed

context locmap_contract
begin

lemma memWriter_put_locmap:
  assumes "memWriter_put L cfg w i r alloc s = Done (ans, s')" "(a, b) \<noteq> (wr_keyA r, wr_keyB r)"
    "wr_timestampbits r AND NOT TSB_COMPACTION_REWRITE \<noteq> 0"
  shows "lm_Get L (st_locmap s') a b = lm_Get L (st_locmap s) a b"
proof -
  obtain i' off len same where "st_locmap s' = snd (lm_Set L (st_locmap s) (wr_keyA r) (wr_keyB r)
      (wr_timestampbits r AND NOT TSB_COMPACTION_REWRITE) i' off len same)"
    using assms(1)
    by (auto simp: memWriter_put_def set_memWriter_def set_locBlock_def Let_def
        split: if_splits option.splits valueLocBlock.splits prod.splits) (metis snd_conv)+
  then show ?thesis using assms(2,3) by (auto simp: Set_get)
qed

lemma memWriter_other:
  assumes res: "memWriter L cfg w (WriteReq r) s = Done (ans, s')" and "(a, b) \<noteq> (wr_keyA r, wr_keyB r)"
    "wr_timestampbits r AND NOT TSB_COMPACTION_REWRITE \<noteq> 0"
  shows "lm_Get L (st_locmap s') a b = lm_Get L (st_locmap s) a b"
proof -
  let ?mw = "st_memWriters s ! w" and ?alloc = "max (length (wr_value r)) (c_minValueAlloc cfg)"
  define s1 where "s1 = (case mw_block ?mw of None \<Rightarrow> s
     | Some i \<Rightarrow> if unat (c_pageSize cfg) < mw_tocOffset ?mw + FILE_ENTRY_SIZE (c_layout cfg) \<or>
                   unat (c_pageSize cfg) < mw_memOffset ?mw + ?alloc then memWriter_send w i s else s)"
  have s1: "st_locmap s1 = st_locmap s"
    by (simp add: s1_def memWriter_send_def set_memWriter_def split: option.splits)
  note put = memWriter_put_locmap [OF _ assms(2,3)]
  show ?thesis
  proof (cases "(\<not> mw_enabled ?mw \<and> \<not> wr_internal r) \<or> unat (c_valueCap cfg) < length (wr_value r)")
    case True
    then show ?thesis using res by (auto simp: memWriter_def Let_def split: if_splits)
  next
    case False
    then have "Done (ans, s') = (case mw_block (st_memWriters s1 ! w) of
        Some i \<Rightarrow> memWriter_put L cfg w i r ?alloc s1
      | None \<Rightarrow> (case st_freeMemBlockChan s1 of [] \<Rightarrow> Blocked
         | i # rest \<Rightarrow> memWriter_put L cfg w i r ?alloc
             (set_memWriter w ((st_memWriters s1 ! w)\<lparr>mw_block := Some i, mw_tocOffset := 0, mw_memOffset := 0\<rparr>)
                (s1\<lparr>st_freeMemBlockChan := rest\<rparr>))))"
      using res unfolding memWriter_def Let_def writeMsg.case s1_def [symmetric] by auto
    then show ?thesis
      using put s1 by (force simp: set_memWriter_def split: option.splits list.splits dest!: sym [of "Done _"])
  qed
qed

lemma store_write_other:
  assumes "store_write L cfg a b ts v internal s = Done (r, s')" "(a', b') \<noteq> (a, b)" "ts AND NOT TSB_COMPACTION_REWRITE \<noteq> 0"
  shows "lm_Get L (st_locmap s') a' b' = lm_Get L (st_locmap s) a' b'"
proof -
  obtain ans s1 where "memWriter L cfg (writer_of a s) (WriteReq \<lparr>wr_keyA = a, wr_keyB = b, wr_timestampbits = ts,
      wr_value = v, wr_internal = internal\<rparr>) s = Done (ans, s1)" "st_locmap s' = st_locmap s1"
    using assms(1)
    by (auto simp: store_write_def tally_def split: if_splits option.splits elim!: bind_outcome_DoneE)
  with memWriter_other [OF this(1), of a' b'] assms(2,3) show ?thesis by simp
qed

end

section \<open>Pools of workers\<close>

text \<open>
  The goroutines that serve a queue of messages, with a nil for each to end it: the queue, how many
  run, and the messages taken so far.
\<close>

record 'm pool =
  po_queue :: "'m option list"
  po_running :: nat
  po_taken :: "'m list"

inductive pool_step :: "'m pool \<Rightarrow> 'm pool \<Rightarrow> bool" where
  take_msg: "po_queue p = Some x # q \<Longrightarrow> 0 < po_running p \<Longrightarrow>
    pool_step p (p\<lparr>po_queue := q, po_taken := po_taken p @ [x]\<rparr>)"
| take_nil: "po_queue p = None # q \<Longrightarrow> 0 < po_running p \<Longrightarrow>
    pool_step p (p\<lparr>po_queue := q, po_running := po_running p - 1\<rparr>)"

inductive_cases pool_stepE: "pool_step p p'"

text \<open>The launcher's part of a shutdown: a nil for every worker, behind what was queued.\<close>

definition pool_disable :: "nat \<Rightarrow> 'm pool \<Rightarrow> 'm pool" where
  "pool_disable workers p = p\<lparr>po_queue := po_queue p @ replicate workers None\<rparr>"

definition pool_inv :: "'m list \<Rightarrow> 'm pool \<Rightarrow> bool" where
  "pool_inv all p \<longleftrightarrow> (\<exists>left. po_queue p = map Some left @ replicate (po_running p) None \<and> po_taken p @ left = all)"

lemma pool_step_inv:
  assumes "pool_step p p'" "pool_inv all p"
  shows "pool_inv all p'"
  using assms(1)
proof cases
  case (take_msg x q)
  obtain left where l: "Some x # q = map Some left @ replicate (po_running p) None" "po_taken p @ left = all"
    using assms(2) take_msg(2) by (auto simp: pool_inv_def)
  then obtain left' where "left = x # left'" by (cases left; cases "po_running p") auto
  then show ?thesis using take_msg l by (auto simp: pool_inv_def)
next
  case (take_nil q)
  obtain left where l: "None # q = map Some left @ replicate (po_running p) None" "po_taken p @ left = all"
    using assms(2) take_nil(2) by (auto simp: pool_inv_def)
  then have "left = []" by (cases left) auto
  then show ?thesis using take_nil l by (cases "po_running p") (auto simp: pool_inv_def)
qed

lemma pool_steps_inv: "pool_step\<^sup>*\<^sup>* p p' \<Longrightarrow> pool_inv all p \<Longrightarrow> pool_inv all p'"
  by (induction rule: rtranclp_induct) (auto intro: pool_step_inv)

text \<open>A pool that is being shut down always ends, with every queued message taken.\<close>

lemma pool_progress: "pool_inv all p \<Longrightarrow> 0 < po_running p \<Longrightarrow> \<exists>p'. pool_step p p'"
proof -
  assume p: "pool_inv all p" "0 < po_running p"
  then obtain left where l: "po_queue p = map Some left @ replicate (po_running p) None" by (auto simp: pool_inv_def)
  then show ?thesis
    using p(2) pool_step.intros by (cases left; cases "po_running p") (fastforce+)
qed

lemma pool_step_measure: "pool_step p p' \<Longrightarrow> length (po_queue p') < length (po_queue p)"
  by (erule pool_stepE) auto

lemma pool_drained: "pool_inv all p \<Longrightarrow> po_running p = 0 \<Longrightarrow> po_taken p = all \<or> po_queue p \<noteq> []"
  by (auto simp: pool_inv_def)

end
