(* ===== verification/BulkSetAck.thy ===== *)
theory BulkSetAck
  imports Messages
begin

unbundle bit_operations_syntax

text \<open>
  The acknowledgements of bulk-set messages (\<open>src/valuebulksetack_GEN_.go\<close>): the message, the handler
  that reads it from the ring, the workers that act on it.  A node that is not responsible for an
  acknowledged key removes it locally.  A channel is the list of what is in it.
\<close>

section \<open>State\<close>

fun BULK_SET_ACK_MSG_TYPE :: "template \<Rightarrow> u64" where
  "BULK_SET_ACK_MSG_TYPE ValueStore = 0x39589f4746844e3b"
| "BULK_SET_ACK_MSG_TYPE GroupStore = 0xec3577cc6dbb75bb"

definition BULK_SET_ACK_MSG_ENTRY_LENGTH :: "'b layout \<Rightarrow> nat" where
  "BULK_SET_ACK_MSG_ENTRY_LENGTH Y = ly_keys Y + 8"

text \<open>\<open>am_cap\<close> is the capacity of \<open>body\<close>.\<close>

record valueBulkSetAckMsg =
  am_body :: bytes
  am_cap :: nat

text \<open>\<open>as_started\<close> says whether \<open>inNotifyChan\<close> is there; \<open>as_running\<close> counts the workers.\<close>

record valueBulkSetAckState =
  as_msgCap :: nat
  as_inWorkers :: nat
  as_inBulkSetAckMsgs :: nat
  as_outBulkSetAckMsgs :: nat
  as_started :: bool
  as_inMsgChan :: "valueBulkSetAckMsg option list"
  as_inFreeMsgChan :: "valueBulkSetAckMsg list"
  as_outFreeMsgChan :: "valueBulkSetAckMsg list"
  as_running :: nat

definition bulkSetAckConfig :: "nat \<Rightarrow> nat \<Rightarrow> nat \<Rightarrow> nat \<Rightarrow> valueBulkSetAckState" where
  "bulkSetAckConfig msgCap inWorkers inMsgs outMsgs =
     \<lparr>as_msgCap = msgCap, as_inWorkers = inWorkers, as_inBulkSetAckMsgs = inMsgs, as_outBulkSetAckMsgs = outMsgs,
      as_started = False, as_inMsgChan = [], as_inFreeMsgChan = [], as_outFreeMsgChan = [], as_running = 0\<rparr>"

text \<open>A new message has a body of \<open>msgCap\<close> zeros.\<close>

definition bulkSetAckStartup :: "valueBulkSetAckState \<Rightarrow> valueBulkSetAckState" where
  "bulkSetAckStartup st =
     (if as_started st then st
      else let msg = \<lparr>am_body = replicate (as_msgCap st) 0, am_cap = as_msgCap st\<rparr>
           in st\<lparr>as_started := True, as_inMsgChan := [],
                 as_inFreeMsgChan := replicate (as_inBulkSetAckMsgs st) msg,
                 as_outFreeMsgChan := replicate (as_outBulkSetAckMsgs st) msg,
                 as_running := as_inWorkers st\<rparr>)"

text \<open>
  The launcher: on \<open>BG_DISABLE\<close> it queues a nil for every worker; it answers once they are gone.  Any
  other notification is answered at once.
\<close>

definition inBulkSetAckLauncher :: "bgNotificationAction \<Rightarrow> valueBulkSetAckState \<Rightarrow> valueBulkSetAckState" where
  "inBulkSetAckLauncher action st =
     (if action = BG_DISABLE
      then st\<lparr>as_inMsgChan := as_inMsgChan st @ replicate (as_inWorkers st) None\<rparr> else st)"

definition bulkSetAckShutdown_notify :: "valueBulkSetAckState \<Rightarrow> valueBulkSetAckState" where
  "bulkSetAckShutdown_notify st = (if as_started st then inBulkSetAckLauncher BG_DISABLE st else st)"

definition bulkSetAckShutdown_done :: "valueBulkSetAckState \<Rightarrow> valueBulkSetAckState outcome" where
  "bulkSetAckShutdown_done st =
     (if \<not> as_started st then Done st
      else if 0 < as_running st then Blocked
      else Done (st\<lparr>as_started := False, as_inMsgChan := [], as_inFreeMsgChan := [], as_outFreeMsgChan := []\<rparr>))"

section \<open>Receiving\<close>

text \<open>
  With no free message the bytes are read and dropped.  On an error the message goes back to the free
  ones; the part of its body that was not read is not used again.
\<close>

definition newInBulkSetAckMsg ::
  "reader \<Rightarrow> nat \<Rightarrow> valueBulkSetAckState \<Rightarrow> 'm valueStore \<Rightarrow>
   (nat \<times> go_error option) \<times> reader \<times> valueBulkSetAckState \<times> 'm valueStore" where
  "newInBulkSetAckMsg r l st s =
     (case as_inFreeMsgChan st of
        [] \<Rightarrow>
          (case read_toss l r of
             (left, Some err, r') \<Rightarrow>
               ((l - left, Some err), r', st, tally (\<lambda>c. c\<lparr>ct_inBulkSetAckInvalids := ct_inBulkSetAckInvalids c + 1\<rparr>) s)
           | (_, None, r') \<Rightarrow>
               ((l, None), r', st, tally (\<lambda>c. c\<lparr>ct_inBulkSetAckDrops := ct_inBulkSetAckDrops c + 1\<rparr>) s))
      | bsam # free \<Rightarrow>
          (case read_full l [] r of
             (body, err, r') \<Rightarrow>
               let msg = bsam\<lparr>am_body := body, am_cap := max l (am_cap bsam)\<rparr>
               in case err of
                    Some e \<Rightarrow> ((length body, Some e), r', st\<lparr>as_inFreeMsgChan := free @ [msg]\<rparr>,
                      tally (\<lambda>c. c\<lparr>ct_inBulkSetAckInvalids := ct_inBulkSetAckInvalids c + 1\<rparr>) s)
                  | None \<Rightarrow> ((l, None), r',
                      st\<lparr>as_inFreeMsgChan := free, as_inMsgChan := as_inMsgChan st @ [Some msg]\<rparr>,
                      tally (\<lambda>c. c\<lparr>ct_inBulkSetAcks := ct_inBulkSetAcks c + 1\<rparr>) s)))"

section \<open>Acting on an acknowledgement\<close>

definition inBulkSetAck_entry ::
  "('m, 'b) locmap_ops \<Rightarrow> 'b store_cfg \<Rightarrow> ring option \<Rightarrow> bytes \<Rightarrow> 'm valueStore \<Rightarrow> 'm valueStore outcome" where
  "inBulkSetAck_entry L cfg rg b s =
     (let (keyA, keyB) = ly_get (c_layout cfg) b
      in case rg of None \<Rightarrow> Done s
         | Some ring \<Rightarrow>
           if rg_responsible ring (partition_of ring keyA) then Done s
           else let s1 = tally (\<lambda>c. c\<lparr>ct_inBulkSetAckWrites := ct_inBulkSetAckWrites c + 1\<rparr>) s;
                    timestampbits = getU64 b (ly_keys (c_layout cfg)) OR TSB_LOCAL_REMOVAL
                in bind_outcome (store_write L cfg keyA keyB timestampbits [] True s1)
                     (\<lambda>((ptimestampbits, err), s2). Done
                        (if err \<noteq> None
                         then tally (\<lambda>c. c\<lparr>ct_inBulkSetAckWriteErrors := ct_inBulkSetAckWriteErrors c + 1\<rparr>) s2
                         else if timestampbits \<le> ptimestampbits
                         then tally (\<lambda>c. c\<lparr>ct_inBulkSetAckWritesOverridden := ct_inBulkSetAckWritesOverridden c + 1\<rparr>) s2
                         else s2)))"

definition inBulkSetAck_msg ::
  "('m, 'b) locmap_ops \<Rightarrow> 'b store_cfg \<Rightarrow> ring option \<Rightarrow> valueBulkSetAckMsg \<Rightarrow> 'm valueStore \<Rightarrow> 'm valueStore outcome" where
  "inBulkSetAck_msg L cfg rg bsam s =
     fold_outcome (inBulkSetAck_entry L cfg rg) (chunks (BULK_SET_ACK_MSG_ENTRY_LENGTH (c_layout cfg)) (am_body bsam)) s"

text \<open>One turn of a worker: a message is handled and freed, a nil ends the worker.\<close>

definition inBulkSetAck ::
  "('m, 'b) locmap_ops \<Rightarrow> 'b store_cfg \<Rightarrow> ring option \<Rightarrow> valueBulkSetAckState \<Rightarrow> 'm valueStore \<Rightarrow>
   (valueBulkSetAckState \<times> 'm valueStore) outcome" where
  "inBulkSetAck L cfg rg st s =
     (case as_inMsgChan st of
        [] \<Rightarrow> Blocked
      | None # q \<Rightarrow> Done (st\<lparr>as_inMsgChan := q, as_running := as_running st - 1\<rparr>, s)
      | Some bsam # q \<Rightarrow>
          bind_outcome (inBulkSetAck_msg L cfg rg bsam s) (\<lambda>s1.
            Done (st\<lparr>as_inMsgChan := q, as_inFreeMsgChan := as_inFreeMsgChan st @ [bsam]\<rparr>, s1)))"

section \<open>Sending\<close>

definition newOutBulkSetAckMsg :: "valueBulkSetAckState \<Rightarrow> (valueBulkSetAckMsg \<times> valueBulkSetAckState) outcome" where
  "newOutBulkSetAckMsg st =
     (case as_outFreeMsgChan st of [] \<Rightarrow> Blocked
      | bsam # free \<Rightarrow> Done (bsam\<lparr>am_body := []\<rparr>, st\<lparr>as_outFreeMsgChan := free\<rparr>))"

definition ack_MsgLength :: "valueBulkSetAckMsg \<Rightarrow> u64" where
  "ack_MsgLength bsam = of_nat (length (am_body bsam))"

definition ack_WriteContent :: "valueBulkSetAckMsg \<Rightarrow> bytes" where
  "ack_WriteContent bsam = am_body bsam"

definition ack_Free :: "valueBulkSetAckMsg \<Rightarrow> valueBulkSetAckState \<Rightarrow> valueBulkSetAckState" where
  "ack_Free bsam st = st\<lparr>as_outFreeMsgChan := as_outFreeMsgChan st @ [bsam]\<rparr>"

definition ack_add :: "'b layout \<Rightarrow> u64 \<Rightarrow> 'b \<Rightarrow> u64 \<Rightarrow> valueBulkSetAckMsg \<Rightarrow> bool \<times> valueBulkSetAckMsg" where
  "ack_add Y keyA keyB timestampbits bsam =
     (if am_cap bsam \<le> length (am_body bsam) + BULK_SET_ACK_MSG_ENTRY_LENGTH Y then (False, bsam)
      else (True, bsam\<lparr>am_body := am_body bsam @ ly_put Y keyA keyB @ putU64 timestampbits\<rparr>))"

section \<open>The codec\<close>

type_synonym 'b ack_entry = "u64 \<times> 'b \<times> u64"

definition ack_put :: "'b layout \<Rightarrow> 'b ack_entry \<Rightarrow> bytes" where
  "ack_put Y e = (case e of (a, b, ts) \<Rightarrow> ly_put Y a b @ putU64 ts)"

definition ack_get :: "'b layout \<Rightarrow> bytes \<Rightarrow> ('b ack_entry \<times> bytes) option" where
  "ack_get Y bs =
     (let n = BULK_SET_ACK_MSG_ENTRY_LENGTH Y
      in if length bs < n then None
         else case ly_get Y bs of (a, b) \<Rightarrow> Some ((a, b, getU64 bs (ly_keys Y)), drop n bs))"

context key_layout
begin

lemma length_ack_put [simp]: "length (ack_put Y e) = BULK_SET_ACK_MSG_ENTRY_LENGTH Y"
  by (simp add: ack_put_def BULK_SET_ACK_MSG_ENTRY_LENGTH_def split: prod.splits)

lemma ack_get_put: "ack_get Y (ack_put Y e @ rest) = Some (e, rest)"
  by (simp add: ack_put_def ack_get_def BULK_SET_ACK_MSG_ENTRY_LENGTH_def getU64_def split: prod.splits)

lemma ack_put_fields:
  "ly_get Y (ack_put Y (a, b, ts)) = (a, b)" "getU64 (ack_put Y (a, b, ts)) (ly_keys Y) = ts"
  using get_put [of a b "putU64 ts"] by (simp_all add: ack_put_def getU64_def)

end

sublocale key_layout \<subseteq> ack_codec: entry_codec "ack_put Y" "ack_get Y" "\<lambda>_. True"
  by unfold_locales (simp_all add: ack_get_put, simp add: ack_get_def BULK_SET_ACK_MSG_ENTRY_LENGTH_def)

text \<open>Adding a list of entries, until one does not fit.\<close>

fun ack_addAll :: "'b layout \<Rightarrow> 'b ack_entry list \<Rightarrow> valueBulkSetAckMsg \<Rightarrow> valueBulkSetAckMsg option" where
  "ack_addAll Y [] bsam = Some bsam"
| "ack_addAll Y ((a, b, ts) # es) bsam =
     (case ack_add Y a b ts bsam of (True, bsam') \<Rightarrow> ack_addAll Y es bsam' | (False, _) \<Rightarrow> None)"

lemma ack_addAll_body:
  "ack_addAll Y es bsam = Some bsam' \<Longrightarrow> am_body bsam' = am_body bsam @ concat (map (ack_put Y) es)"
  by (induction Y es bsam rule: ack_addAll.induct)
    (auto simp: ack_add_def ack_put_def split: if_splits)

section \<open>Properties\<close>

text \<open>
  C25. An acknowledgement reaches its reader intact: entries added to a fresh message, sent over a
  connection that delivers its bytes without error in any pieces, arrive as one queued message whose
  entries are those that were added, and the handler has consumed exactly the message.
\<close>

theorem ack_roundtrip:
  assumes "key_layout Y" "ack_addAll Y es \<lparr>am_body = [], am_cap = c\<rparr> = Some sent" "clean r"
    "arriving r = ack_WriteContent sent @ rest" "as_inFreeMsgChan st = m # free"
  shows "\<exists>r' st' got. newInBulkSetAckMsg r (length (ack_WriteContent sent)) st s =
      ((length (ack_WriteContent sent), None), r', st', tally (\<lambda>c. c\<lparr>ct_inBulkSetAcks := ct_inBulkSetAcks c + 1\<rparr>) s) \<and>
    arriving r' = rest \<and> as_inFreeMsgChan st' = free \<and> as_inMsgChan st' = as_inMsgChan st @ [Some got] \<and>
    chunks (BULK_SET_ACK_MSG_ENTRY_LENGTH Y) (am_body got) = map (ack_put Y) es"
proof -
  let ?n = "length (ack_WriteContent sent)"
  have body: "ack_WriteContent sent = concat (map (ack_put Y) es)"
    using ack_addAll_body [OF assms(2)] by (simp add: ack_WriteContent_def)
  obtain r' where rd: "read_full ?n [] r = (concat (map (ack_put Y) es), None, r')" "arriving r' = rest"
    using read_full_clean [OF assms(3), of ?n "[]"] assms(4) body by auto
  have "chunks (BULK_SET_ACK_MSG_ENTRY_LENGTH Y) (concat (map (ack_put Y) es) @ []) = map (ack_put Y) es"
    by (rule chunks_concat) (auto simp: key_layout.length_ack_put [OF assms(1)] BULK_SET_ACK_MSG_ENTRY_LENGTH_def)
  then show ?thesis
    using rd assms(5) by (auto simp: newInBulkSetAckMsg_def Let_def)
qed

theorem ack_roundtrip_witness:
  "\<exists>r' st' got. newInBulkSetAckMsg [(take 10 (ack_put value_layout (1, 2, 0x300)), None), (drop 10 (ack_put value_layout (1, 2, 0x300)) @ [5], None)]
        24 (bulkSetAckStartup (bulkSetAckConfig 100 1 1 1)) store_new =
      ((24, None), r', st', tally (\<lambda>c. c\<lparr>ct_inBulkSetAcks := ct_inBulkSetAcks c + 1\<rparr>) store_new) \<and>
    arriving r' = [5] \<and> as_inFreeMsgChan st' = [] \<and> as_inMsgChan st' = [] @ [Some got] \<and>
    chunks (BULK_SET_ACK_MSG_ENTRY_LENGTH value_layout) (am_body got) = map (ack_put value_layout) [(1, 2, 0x300)]"
  using ack_roundtrip [OF layouts(1), of "[(1, 2, 0x300)]" 100 "\<lparr>am_body = ack_put value_layout (1, 2, 0x300), am_cap = 100\<rparr>"
      "[(take 10 (ack_put value_layout (1, 2, 0x300)), None), (drop 10 (ack_put value_layout (1, 2, 0x300)) @ [5], None)]" "[5]"
      "bulkSetAckStartup (bulkSetAckConfig 100 1 1 1)"
      "\<lparr>am_body = replicate 100 0, am_cap = 100\<rparr>" "[]" store_new]
  by (simp add: ack_add_def ack_put_def ack_WriteContent_def BULK_SET_ACK_MSG_ENTRY_LENGTH_def value_layout_def
      bulkSetAckStartup_def bulkSetAckConfig_def Let_def)

text \<open>
  C20. An acknowledgement never removes what this node is responsible for: however its bytes look,
  handling the message leaves the location of every key in a partition of this node as it was; and
  without a ring it changes nothing at all.
\<close>

theorem inBulkSetAck_keeps_responsible:
  assumes "locmap_contract L" "inBulkSetAck_msg L cfg (Some ring) bsam s = Done s'"
    "rg_responsible ring (partition_of ring a)"
  shows "lm_Get L (st_locmap s') a b = lm_Get L (st_locmap s) a b \<and>
    inBulkSetAck_msg L cfg None bsam s = Done s"
proof
  have keep: "lm_Get L (st_locmap s2) a b = lm_Get L (st_locmap s1) a b"
    if step: "inBulkSetAck_entry L cfg (Some ring) x s1 = Done s2" for x s1 s2
  proof (cases "rg_responsible ring (partition_of ring (fst (ly_get (c_layout cfg) x)))")
    case True
    then show ?thesis using step by (simp add: inBulkSetAck_entry_def split: prod.splits)
  next
    case False
    let ?ts = "getU64 x (ly_keys (c_layout cfg)) OR TSB_LOCAL_REMOVAL"
    obtain f r s3 where w: "store_write L cfg (fst (ly_get (c_layout cfg) x)) (snd (ly_get (c_layout cfg) x)) ?ts [] True (tally f s1) = Done (r, s3)"
      "st_locmap s2 = st_locmap s3"
      using step False
      by (auto simp: inBulkSetAck_entry_def Let_def tally_def split: if_splits prod.splits elim!: bind_outcome_DoneE)
    have "(a, b) \<noteq> (fst (ly_get (c_layout cfg) x), snd (ly_get (c_layout cfg) x))" using False assms(3) by (metis Pair_inject)
    then show ?thesis
      using locmap_contract.store_write_other [OF assms(1) w(1)] removal_bits w(2) by (simp add: tally_def)
  qed
  show "lm_Get L (st_locmap s') a b = lm_Get L (st_locmap s) a b"
    using fold_outcome_inv [OF assms(2) [unfolded inBulkSetAck_msg_def],
        of "\<lambda>s1. lm_Get L (st_locmap s1) a b = lm_Get L (st_locmap s) a b"] keep by simp
  have "fold_outcome (inBulkSetAck_entry L cfg None) xs s = Done s" for xs
    by (induction xs) (simp_all add: inBulkSetAck_entry_def split: prod.splits)
  then show "inBulkSetAck_msg L cfg None bsam s = Done s" by (simp add: inBulkSetAck_msg_def)
qed

definition ring_example :: ring where
  "ring_example = \<lparr>rg_partitionBitCount = 8, rg_responsible = (\<lambda>p. p < 128), rg_localNode = Some 7, rg_version = 1\<rparr>"

theorem inBulkSetAck_keeps_responsible_witness:
  "lm_Get alm_ops (st_locmap (tally (\<lambda>c. c) store_new)) 1 2 = lm_Get alm_ops (st_locmap store_new) 1 2 \<and>
    inBulkSetAck_msg alm_ops cfg_example None \<lparr>am_body = ack_put value_layout (1, 2, 0x300), am_cap = 100\<rparr> store_new = Done store_new"
  by (rule inBulkSetAck_keeps_responsible [OF alm.locmap_contract_axioms, where ring = ring_example])
    (simp_all add: inBulkSetAck_msg_def chunks.simps inBulkSetAck_entry_def value_keys.ack_put_fields cfg_example_def [THEN arg_cong, of c_layout] ring_example_def partition_of_def
      BULK_SET_ACK_MSG_ENTRY_LENGTH_def tally_def)

end
