(* ===== verification/BulkSet.thy ===== *)
theory BulkSet
  imports BulkSetAck
begin

unbundle bit_operations_syntax

text \<open>
  The bulk-set messages that carry values between nodes (\<open>src/valuebulkset_GEN_.go\<close>): building one,
  reading it from the ring, writing its entries to the store and acknowledging them.
\<close>

section \<open>State\<close>

fun BULK_SET_MSG_TYPE :: "template \<Rightarrow> u64" where
  "BULK_SET_MSG_TYPE ValueStore = 0x44f58445991a4aa1"
| "BULK_SET_MSG_TYPE GroupStore = 0xbe53367e1994c262"

definition BULK_SET_MSG_HEADER_LENGTH :: nat where "BULK_SET_MSG_HEADER_LENGTH = 8"

definition BULK_SET_MSG_ENTRY_HEADER_LENGTH :: "'b layout \<Rightarrow> nat" where
  "BULK_SET_MSG_ENTRY_HEADER_LENGTH Y = ly_keys Y + 12"

definition BULK_SET_MSG_MIN_ENTRY_LENGTH :: "'b layout \<Rightarrow> nat" where
  "BULK_SET_MSG_MIN_ENTRY_LENGTH Y = ly_keys Y + 12"

lemmas bulk_set_sizes = BULK_SET_MSG_HEADER_LENGTH_def BULK_SET_MSG_ENTRY_HEADER_LENGTH_def
  BULK_SET_MSG_MIN_ENTRY_LENGTH_def

record valueBulkSetMsg =
  bm_header :: bytes
  bm_body :: bytes
  bm_cap :: nat

record valueBulkSetState =
  bs_msgCap :: nat
  bs_inWorkers :: nat
  bs_inResponseMsgTimeout :: nat
  bs_inBulkSetMsgs :: nat
  bs_outBulkSetMsgs :: nat
  bs_started :: bool
  bs_inMsgChan :: "valueBulkSetMsg option list"
  bs_inFreeMsgChan :: "valueBulkSetMsg list"
  bs_outFreeMsgChan :: "valueBulkSetMsg list"
  bs_running :: nat

text \<open>The timeout is configured in milliseconds and kept in nanoseconds.\<close>

definition bulkSetConfig :: "nat \<Rightarrow> nat \<Rightarrow> nat \<Rightarrow> nat \<Rightarrow> nat \<Rightarrow> valueBulkSetState" where
  "bulkSetConfig msgCap inWorkers responseTimeout inMsgs outMsgs =
     \<lparr>bs_msgCap = msgCap, bs_inWorkers = inWorkers, bs_inResponseMsgTimeout = responseTimeout * 1000000,
      bs_inBulkSetMsgs = inMsgs, bs_outBulkSetMsgs = outMsgs,
      bs_started = False, bs_inMsgChan = [], bs_inFreeMsgChan = [], bs_outFreeMsgChan = [], bs_running = 0\<rparr>"

definition bulkSetStartup :: "valueBulkSetState \<Rightarrow> valueBulkSetState" where
  "bulkSetStartup st =
     (if bs_started st then st
      else let msg = \<lparr>bm_header = replicate BULK_SET_MSG_HEADER_LENGTH 0,
                      bm_body = replicate (bs_msgCap st) 0, bm_cap = bs_msgCap st\<rparr>
           in st\<lparr>bs_started := True, bs_inMsgChan := [],
                 bs_inFreeMsgChan := replicate (bs_inBulkSetMsgs st) msg,
                 bs_outFreeMsgChan := replicate (bs_outBulkSetMsgs st) msg,
                 bs_running := bs_inWorkers st\<rparr>)"

definition inBulkSetLauncher :: "bgNotificationAction \<Rightarrow> valueBulkSetState \<Rightarrow> valueBulkSetState" where
  "inBulkSetLauncher action st =
     (if action = BG_DISABLE
      then st\<lparr>bs_inMsgChan := bs_inMsgChan st @ replicate (bs_inWorkers st) None\<rparr> else st)"

definition bulkSetShutdown_notify :: "valueBulkSetState \<Rightarrow> valueBulkSetState" where
  "bulkSetShutdown_notify st = (if bs_started st then inBulkSetLauncher BG_DISABLE st else st)"

definition bulkSetShutdown_done :: "valueBulkSetState \<Rightarrow> valueBulkSetState outcome" where
  "bulkSetShutdown_done st =
     (if \<not> bs_started st then Done st
      else if 0 < bs_running st then Blocked
      else Done (st\<lparr>bs_started := False, bs_inMsgChan := [], bs_inFreeMsgChan := [], bs_outFreeMsgChan := []\<rparr>))"

section \<open>Receiving\<close>

abbreviation inBulkSet_invalid :: "'m valueStore \<Rightarrow> 'm valueStore" where
  "inBulkSet_invalid \<equiv> tally (\<lambda>c. c\<lparr>ct_inBulkSetInvalids := ct_inBulkSetInvalids c + 1\<rparr>)"

definition newInBulkSetMsg ::
  "'b layout \<Rightarrow> reader \<Rightarrow> nat \<Rightarrow> valueBulkSetState \<Rightarrow> 'm valueStore \<Rightarrow>
   (nat \<times> go_error option) \<times> reader \<times> valueBulkSetState \<times> 'm valueStore" where
  "newInBulkSetMsg Y r l st s =
     (case bs_inFreeMsgChan st of
        [] \<Rightarrow>
          (case read_toss l r of
             (left, Some err, r') \<Rightarrow> ((l - left, Some err), r', st, inBulkSet_invalid s)
           | (_, None, r') \<Rightarrow>
               ((l, None), r', st, tally (\<lambda>c. c\<lparr>ct_inBulkSetDrops := ct_inBulkSetDrops c + 1\<rparr>) s))
      | bsm # free \<Rightarrow>
          if l < BULK_SET_MSG_HEADER_LENGTH + BULK_SET_MSG_MIN_ENTRY_LENGTH Y
          then (case read_toss l r of
                  (left, err, r') \<Rightarrow>
                    ((l - left, err), r', st\<lparr>bs_inFreeMsgChan := free @ [bsm]\<rparr>, inBulkSet_invalid s))
          else
            (case read_full (length (bm_header bsm)) [] r of
               (header, Some err, r') \<Rightarrow>
                 ((length header, Some err), r',
                  st\<lparr>bs_inFreeMsgChan := free @ [bsm\<lparr>bm_header := put_at (bm_header bsm) 0 header\<rparr>]\<rparr>, inBulkSet_invalid s)
             | (header, None, r') \<Rightarrow>
                 let l' = l - length header
                 in case read_full l' [] r' of
                      (body, err, r'') \<Rightarrow>
                        let msg = bsm\<lparr>bm_header := header, bm_body := body, bm_cap := max l' (bm_cap bsm)\<rparr>
                        in case err of
                          Some e \<Rightarrow> ((length header + length body, Some e), r'',
                            st\<lparr>bs_inFreeMsgChan := free @ [msg]\<rparr>, inBulkSet_invalid s)
                        | None \<Rightarrow> ((length header + l', None), r'',
                            st\<lparr>bs_inFreeMsgChan := free, bs_inMsgChan := bs_inMsgChan st @ [Some msg]\<rparr>,
                            tally (\<lambda>c. c\<lparr>ct_inBulkSets := ct_inBulkSets c + 1\<rparr>) s)))"

section \<open>Acting on a message\<close>

definition nodeID :: "valueBulkSetMsg \<Rightarrow> u64" where
  "nodeID bsm = getU64 (bm_header bsm) 0"

text \<open>One entry is written, and acknowledged if that went well and this node is responsible for it.\<close>

definition inBulkSet_entry ::
  "('m, 'b) locmap_ops \<Rightarrow> 'b store_cfg \<Rightarrow> ring option \<Rightarrow> u64 \<times> 'b \<times> u64 \<times> bytes \<Rightarrow>
   valueBulkSetAckMsg option \<times> 'm valueStore \<Rightarrow> (valueBulkSetAckMsg option \<times> 'm valueStore) outcome" where
  "inBulkSet_entry L cfg rg e x =
     (case (e, x) of ((keyA, keyB, timestampbits, v), (bsam, s)) \<Rightarrow>
        let s1 = tally (\<lambda>c. c\<lparr>ct_inBulkSetWrites := ct_inBulkSetWrites c + 1\<rparr>) s
        in bind_outcome (store_write L cfg keyA keyB timestampbits v (timestampbits AND TSB_DELETION \<noteq> 0) s1)
             (\<lambda>((ptimestampbits, err), s2).
                let s3 = (if err \<noteq> None
                          then tally (\<lambda>c. c\<lparr>ct_inBulkSetWriteErrors := ct_inBulkSetWriteErrors c + 1\<rparr>) s2
                          else if timestampbits \<le> ptimestampbits
                          then tally (\<lambda>c. c\<lparr>ct_inBulkSetWritesOverridden := ct_inBulkSetWritesOverridden c + 1\<rparr>) s2
                          else s2);
                    bsam' = (case (bsam, rg) of
                        (Some m, Some ring) \<Rightarrow>
                          if err = None \<and> rg_responsible ring (partition_of ring keyA)
                          then Some (snd (ack_add (c_layout cfg) keyA keyB timestampbits m)) else bsam
                      | _ \<Rightarrow> bsam)
                in Done (bsam', s3)))"

text \<open>
  The loop over the body.  The length is taken from the message: the end of the value is computed in
  32 bits, and slicing past the body panics.
\<close>

function inBulkSet_loop ::
  "('m, 'b) locmap_ops \<Rightarrow> 'b store_cfg \<Rightarrow> ring option \<Rightarrow> bytes \<Rightarrow>
   valueBulkSetAckMsg option \<times> 'm valueStore \<Rightarrow> (valueBulkSetAckMsg option \<times> 'm valueStore) outcome" where
  "inBulkSet_loop L cfg rg body x =
     (let k = ly_keys (c_layout cfg); h = BULK_SET_MSG_ENTRY_HEADER_LENGTH (c_layout cfg)
      in if length body \<le> h then Done x
      else let (keyA, keyB) = ly_get (c_layout cfg) body; timestampbits = getU64 body k;
               l = getU32 body (k + 8); stop = unat (of_nat h + l :: u32)
           in if stop < h \<or> length body < stop then Panic
              else bind_outcome
                (inBulkSet_entry L cfg rg (keyA, keyB, timestampbits, take (stop - h) (drop h body)) x)
                (inBulkSet_loop L cfg rg (drop stop body)))"
  by pat_completeness auto
termination
  by (relation "measure (\<lambda>(_, _, _, body, _). length body)") (auto simp: bulk_set_sizes)

declare inBulkSet_loop.simps [simp del]

text \<open>
  One turn of a worker.  \<open>Some (ack, node)\<close> is the acknowledgement handed to the ring; there is none
  without a ring or a sender.
\<close>

definition inBulkSet ::
  "('m, 'b) locmap_ops \<Rightarrow> 'b store_cfg \<Rightarrow> ring option \<Rightarrow> valueBulkSetState \<Rightarrow> valueBulkSetAckState \<Rightarrow> 'm valueStore \<Rightarrow>
   ((valueBulkSetAckMsg \<times> u64) option \<times> valueBulkSetState \<times> valueBulkSetAckState \<times> 'm valueStore) outcome" where
  "inBulkSet L cfg rg st ast s =
     (case bs_inMsgChan st of
        [] \<Rightarrow> Blocked
      | None # q \<Rightarrow> Done (None, st\<lparr>bs_inMsgChan := q, bs_running := bs_running st - 1\<rparr>, ast, s)
      | Some bsm # q \<Rightarrow>
          bind_outcome
            (if rg \<noteq> None \<and> nodeID bsm \<noteq> 0
             then bind_outcome (newOutBulkSetAckMsg ast) (\<lambda>(m, ast'). Done (Some m, ast'))
             else Done (None, ast)) (\<lambda>(bsam, ast1).
          bind_outcome (inBulkSet_loop L cfg rg (bm_body bsm) (bsam, s)) (\<lambda>(bsam', s1).
            let st1 = st\<lparr>bs_inMsgChan := q, bs_inFreeMsgChan := bs_inFreeMsgChan st @ [bsm]\<rparr>
            in case bsam' of
                 None \<Rightarrow> Done (None, st1, ast1, s1)
               | Some m \<Rightarrow> Done (Some (m, nodeID bsm), st1, ast1,
                   tally (\<lambda>c. c\<lparr>ct_outBulkSetAcks := ct_outBulkSetAcks c + 1\<rparr>) s1))))"

section \<open>Sending\<close>

text \<open>Without a local node the header keeps what it had.\<close>

definition newOutBulkSetMsg :: "ring option \<Rightarrow> valueBulkSetState \<Rightarrow> (valueBulkSetMsg \<times> valueBulkSetState) outcome" where
  "newOutBulkSetMsg rg st =
     (case bs_outFreeMsgChan st of [] \<Rightarrow> Blocked
      | bsm # free \<Rightarrow>
        let header = (case rg of None \<Rightarrow> bm_header bsm
              | Some ring \<Rightarrow> (case rg_localNode ring of None \<Rightarrow> bm_header bsm
                             | Some n \<Rightarrow> put_at (bm_header bsm) 0 (putU64 n)))
        in Done (bsm\<lparr>bm_header := header, bm_body := []\<rparr>, st\<lparr>bs_outFreeMsgChan := free\<rparr>))"

definition MsgLength :: "valueBulkSetMsg \<Rightarrow> u64" where
  "MsgLength bsm = of_nat (length (bm_header bsm) + length (bm_body bsm))"

definition WriteContent :: "valueBulkSetMsg \<Rightarrow> bytes" where
  "WriteContent bsm = bm_header bsm @ bm_body bsm"

definition Free :: "valueBulkSetMsg \<Rightarrow> valueBulkSetState \<Rightarrow> valueBulkSetState" where
  "Free bsm st = st\<lparr>bs_outFreeMsgChan := bs_outFreeMsgChan st @ [bsm]\<rparr>"

definition add :: "'b layout \<Rightarrow> u64 \<Rightarrow> 'b \<Rightarrow> u64 \<Rightarrow> bytes \<Rightarrow> valueBulkSetMsg \<Rightarrow> bool \<times> valueBulkSetMsg" where
  "add Y keyA keyB timestampbits v bsm =
     (if bm_cap bsm \<le> length (bm_body bsm) + BULK_SET_MSG_ENTRY_HEADER_LENGTH Y + length v then (False, bsm)
      else (True, bsm\<lparr>bm_body := bm_body bsm @ ly_put Y keyA keyB @ putU64 timestampbits @
                       putU32 (of_nat (length v)) @ v\<rparr>))"

section \<open>The codec\<close>

type_synonym 'b bulk_entry = "u64 \<times> 'b \<times> u64 \<times> bytes"

definition bulk_put :: "'b layout \<Rightarrow> 'b bulk_entry \<Rightarrow> bytes" where
  "bulk_put Y e = (case e of (a, b, ts, v) \<Rightarrow> ly_put Y a b @ putU64 ts @ putU32 (of_nat (length v)) @ v)"

abbreviation entry_value :: "'b bulk_entry \<Rightarrow> bytes" where
  "entry_value e \<equiv> snd (snd (snd e))"

text \<open>What the loop takes from the front of a body.\<close>

definition bulk_get :: "'b layout \<Rightarrow> bytes \<Rightarrow> ('b bulk_entry \<times> bytes) option" where
  "bulk_get Y body =
     (let k = ly_keys Y; h = BULK_SET_MSG_ENTRY_HEADER_LENGTH Y
      in if length body \<le> h then None
      else let (a, b) = ly_get Y body; stop = unat (of_nat h + getU32 body (k + 8))
           in if stop < h \<or> length body < stop then None
              else Some ((a, b, getU64 body k, take (stop - h) (drop h body)), drop stop body))"

text \<open>An entry whose length fits the 32 bits of its end.\<close>

definition entry_fits :: "'b layout \<Rightarrow> 'b bulk_entry \<Rightarrow> bool" where
  "entry_fits Y e \<longleftrightarrow> BULK_SET_MSG_ENTRY_HEADER_LENGTH Y + length (entry_value e) < 2 ^ 32"

lemma unat_stop: "h + n < 2 ^ 32 \<Longrightarrow> unat (of_nat h + of_nat n :: u32) = h + n"
proof -
  assume "h + n < 2 ^ 32"
  then have "unat (of_nat (h + n) :: u32) = h + n" by (rule unat_of_nat_small32)
  then show ?thesis by simp
qed

context key_layout
begin

lemma bulk_put_fields:
  "ly_get Y (bulk_put Y (a, b, ts, v) @ rest) = (a, b)"
  "getU64 (bulk_put Y (a, b, ts, v) @ rest) (ly_keys Y) = ts"
  "getU32 (bulk_put Y (a, b, ts, v) @ rest) (ly_keys Y + 8) = of_nat (length v)"
  "drop (BULK_SET_MSG_ENTRY_HEADER_LENGTH Y) (bulk_put Y (a, b, ts, v) @ rest) = v @ rest"
  "length (bulk_put Y (a, b, ts, v)) = BULK_SET_MSG_ENTRY_HEADER_LENGTH Y + length v"
  by (simp_all add: bulk_put_def bulk_set_sizes getU64_def getU32_def)

lemma bulk_put_drop:
  "drop (BULK_SET_MSG_ENTRY_HEADER_LENGTH Y + length v) (bulk_put Y (a, b, ts, v) @ rest) = rest"
  using bulk_put_fields(5) [of a b ts v] by simp

lemma bulk_get_put:
  assumes "entry_value e \<noteq> [] \<and> entry_fits Y e"
  shows "bulk_get Y (bulk_put Y e @ rest) = Some (e, rest)"
proof -
  obtain a b ts v where e: "e = (a, b, ts, v)" by (metis prod_cases4)
  have v: "v \<noteq> []" "BULK_SET_MSG_ENTRY_HEADER_LENGTH Y + length v < 2 ^ 32"
    using assms by (simp_all add: e entry_fits_def)
  then show ?thesis
    unfolding e bulk_get_def Let_def bulk_put_fields(1-4) unat_stop [OF v(2)]
    by (simp add: bulk_put_fields(4,5) bulk_put_drop)
qed

lemma inBulkSet_loop_step:
  assumes "entry_fits Y e" "entry_value e \<noteq> [] \<or> rest \<noteq> []" "c_layout cfg = Y"
  shows "inBulkSet_loop L cfg rg (bulk_put Y e @ rest) x =
    bind_outcome (inBulkSet_entry L cfg rg e x) (inBulkSet_loop L cfg rg rest)"
proof -
  obtain a b ts v where e: "e = (a, b, ts, v)" by (metis prod_cases4)
  have v: "BULK_SET_MSG_ENTRY_HEADER_LENGTH Y + length v < 2 ^ 32" "v \<noteq> [] \<or> rest \<noteq> []"
    using assms(1,2) by (simp_all add: e entry_fits_def)
  then show ?thesis
    unfolding e
    by (subst inBulkSet_loop.simps)
      (auto simp: assms(3) Let_def bulk_put_fields bulk_put_fields(4) [of a b ts v "[]", simplified] bulk_put_drop
        unat_stop [OF v(1)])
qed

end

sublocale key_layout \<subseteq> bulk_codec: entry_codec "bulk_put Y" "bulk_get Y" "\<lambda>e. entry_value e \<noteq> [] \<and> entry_fits Y e"
  by unfold_locales (simp_all add: bulk_get_put, simp add: bulk_get_def bulk_set_sizes)

lemma inBulkSet_loop_stop:
  "length body \<le> BULK_SET_MSG_ENTRY_HEADER_LENGTH (c_layout cfg) \<Longrightarrow> inBulkSet_loop L cfg rg body x = Done x"
  by (simp add: inBulkSet_loop.simps)

section \<open>Properties\<close>

text \<open>The entries of a message that the loop reaches: all but a last one with an empty value.\<close>

definition delivered_entries :: "'b bulk_entry list \<Rightarrow> 'b bulk_entry list" where
  "delivered_entries es = (if es \<noteq> [] \<and> entry_value (last es) = [] then butlast es else es)"

text \<open>
  C19. Handling a message that carries these entries writes them to the store one after the other, in
  order, each once, with the acknowledgements that follow from it: the loop over the bytes is the loop
  over the entries, but for a last entry without a value, which it does not reach.
\<close>

theorem inBulkSet_loop_entries:
  assumes "key_layout (c_layout cfg)" "\<forall>e \<in> set es. entry_fits (c_layout cfg) e"
  shows "inBulkSet_loop L cfg rg (concat (map (bulk_put (c_layout cfg)) es)) x =
    fold_outcome (inBulkSet_entry L cfg rg) (delivered_entries es) x"
  using assms(2)
proof (induction es arbitrary: x)
  case Nil
  then show ?case by (simp add: inBulkSet_loop_stop delivered_entries_def)
next
  case (Cons e es)
  have len: "entry_fits (c_layout cfg) e" using Cons.prems by simp
  show ?case
  proof (cases "es = [] \<and> entry_value e = []")
    case True
    then have "length (bulk_put (c_layout cfg) e) = BULK_SET_MSG_ENTRY_HEADER_LENGTH (c_layout cfg)"
      by (cases e) (simp add: key_layout.bulk_put_fields(5) [OF assms(1)])
    then show ?thesis using True by (simp add: inBulkSet_loop_stop delivered_entries_def)
  next
    case False
    then have ne: "entry_value e \<noteq> [] \<or> concat (map (bulk_put (c_layout cfg)) es) \<noteq> []"
      by (cases es) (auto simp: bulk_put_def putU64_def split: prod.splits)
    have "inBulkSet_loop L cfg rg (concat (map (bulk_put (c_layout cfg)) es)) = fold_outcome (inBulkSet_entry L cfg rg) (delivered_entries es)"
      by (rule ext) (use Cons in simp)
    with key_layout.inBulkSet_loop_step [OF assms(1) len ne refl, of L rg x]
    have step: "inBulkSet_loop L cfg rg (concat (map (bulk_put (c_layout cfg)) (e # es))) x =
        bind_outcome (inBulkSet_entry L cfg rg e x) (fold_outcome (inBulkSet_entry L cfg rg) (delivered_entries es))"
      by simp
    have "delivered_entries (e # es) = e # delivered_entries es"
      using False by (auto simp: delivered_entries_def)
    with step show ?thesis by simp
  qed
qed

theorem inBulkSet_loop_entries_witness:
  "inBulkSet_loop alm_ops cfg_example None (concat (map (bulk_put value_layout) [(1, 2, 0x300, [7]), (3, 4, 0x380, [])])) (None, store_new) =
    fold_outcome (inBulkSet_entry alm_ops cfg_example None)
      (delivered_entries [(1, 2, 0x300, [7]), (3, 4, 0x380, [])]) (None, store_new)"
  using inBulkSet_loop_entries [of cfg_example "[(1, 2, 0x300, [7]), (3, 4, 0x380, [])]"]
  by (simp add: entry_fits_def bulk_set_sizes cfg_example_def [THEN arg_cong, of c_layout])

text \<open>
  A deletion at the end of a message is lost: a message with one entry and no value, which
  \<open>newInBulkSetMsg\<close> accepts as long enough, changes nothing and acknowledges nothing.
\<close>

theorem inBulkSet_last_deletion_lost:
  assumes "key_layout (c_layout cfg)"
  shows "inBulkSet_loop L cfg rg (bulk_put (c_layout cfg) (a, b, ts, [])) x = Done x \<and>
    \<not> BULK_SET_MSG_HEADER_LENGTH + length (bulk_put (c_layout cfg) (a, b, ts, [])) <
        BULK_SET_MSG_HEADER_LENGTH + BULK_SET_MSG_MIN_ENTRY_LENGTH (c_layout cfg)"
  using key_layout.bulk_put_fields(5) [OF assms, of a b ts]
  by (simp add: inBulkSet_loop_stop bulk_set_sizes)

theorem inBulkSet_last_deletion_lost_witness:
  "inBulkSet_loop alm_ops cfg_example None (bulk_put value_layout (1, 2, 0x301, [])) (None, store_new) = Done (None, store_new) \<and>
    \<not> BULK_SET_MSG_HEADER_LENGTH + length (bulk_put value_layout (1, 2, 0x301, [])) <
        BULK_SET_MSG_HEADER_LENGTH + BULK_SET_MSG_MIN_ENTRY_LENGTH value_layout"
  using inBulkSet_last_deletion_lost [of cfg_example alm_ops None 1 2 "0x301" "(None, store_new)"]
  by (simp add: cfg_example_def [THEN arg_cong, of c_layout])

text \<open>
  A message whose last entry claims more value bytes than there are stops the process: the worker
  slices past the body.  The length comes from the sender.
\<close>

theorem inBulkSet_panics_on_bad_length:
  assumes "key_layout (c_layout cfg)" "rest \<noteq> []" "length rest < unat l"
    "BULK_SET_MSG_ENTRY_HEADER_LENGTH (c_layout cfg) + length rest < 2 ^ 32"
  shows "inBulkSet_loop L cfg rg (ly_put (c_layout cfg) a b @ putU64 ts @ putU32 l @ rest) x = Panic"
proof -
  note put = key_layout.length_put [OF assms(1)] key_layout.get_put [OF assms(1)]
  let ?h = "BULK_SET_MSG_ENTRY_HEADER_LENGTH (c_layout cfg)"
  have "unat (of_nat ?h + l) < ?h \<or> ?h + length rest < unat (of_nat ?h + l)"
  proof (cases "?h + unat l < 2 ^ 32")
    case True
    then have "unat (of_nat ?h + l) = ?h + unat l" using unat_stop [of ?h "unat l"] by simp
    then show ?thesis using assms(3) by simp
  next
    case False
    have h: "unat (of_nat ?h :: u32) = ?h" using assms(4) by (intro unat_of_nat_small32) simp
    have "unat (of_nat ?h + l) = (?h + unat l) mod 2 ^ 32" by (simp add: unat_word_ariths h)
    moreover have "unat l < 2 ^ 32" using unsigned_less [of l] by simp
    ultimately have "unat (of_nat ?h + l) = ?h + unat l - 2 ^ 32" using False assms(4) by (simp add: mod_if)
    then show ?thesis using \<open>unat l < 2 ^ 32\<close> False by linarith
  qed
  then show ?thesis
    using assms(2) by (subst inBulkSet_loop.simps) (auto simp: put bulk_set_sizes Let_def getU32_def)
qed

theorem inBulkSet_panics_on_bad_length_witness:
  "inBulkSet_loop alm_ops cfg_example None (ly_put value_layout 1 2 @ putU64 0x300 @ putU32 9 @ [7]) (None, store_new) = Panic"
  using inBulkSet_panics_on_bad_length [of cfg_example "[7]" 9]
  by (simp add: bulk_set_sizes cfg_example_def [THEN arg_cong, of c_layout])

end
