(* ===== verification/Background.thy ===== *)
theory Background
  imports Messages
begin

unbundle bit_operations_syntax

text \<open>
  What the background tasks share: the division of the key space among workers, the order in which a
  worker visits the partitions, and the launcher loop that runs passes and answers notifications.
\<close>

section \<open>Ranges of keys\<close>

text \<open>
  The range of keys of a worker in a partition, as tombstone discarding and push replication compute
  it: the partition is the leading bits of the key, the rest is cut in equal pieces, the last worker
  takes what is left.
\<close>

definition work_range :: "nat \<Rightarrow> u64 \<Rightarrow> u64 \<Rightarrow> u64 \<Rightarrow> u64 \<Rightarrow> u64 \<times> u64" where
  "work_range partitionShift partitionMax workerMax part worker =
     (let workerPartitionPiece = push_bit partitionShift 1 div (workerMax + 1);
          partitionOnLeftBits = push_bit partitionShift part;
          rangeBegin = partitionOnLeftBits + workerPartitionPiece * worker;
          rangeEnd = (if worker \<noteq> workerMax
                      then partitionOnLeftBits + workerPartitionPiece * (worker + 1) - 1
                      else if part \<noteq> partitionMax then push_bit partitionShift (part + 1) - 1
                      else - 1)
      in (rangeBegin, rangeEnd))"

text \<open>The same as pull replication writes it.\<close>

definition pull_range :: "nat \<Rightarrow> u64 \<Rightarrow> u64 \<Rightarrow> u64 \<Rightarrow> u64 \<Rightarrow> u64 \<times> u64" where
  "pull_range rightwardPartitionShift partitionCount ws p w =
     (let pb = push_bit rightwardPartitionShift p;
          rb = pb + push_bit rightwardPartitionShift 1 div ws * w;
          re = (if w + 1 = ws
                then if p + 1 = partitionCount then - 1 else push_bit rightwardPartitionShift (p + 1) - 1
                else pb + push_bit rightwardPartitionShift 1 div ws * (w + 1) - 1)
      in (rb, re))"

text \<open>
  The contract of such a division, for a shift by 1 to 63 bits and no more workers than a partition
  has keys: worker \<open>w\<close> of \<open>W\<close> begins its piece of partition \<open>p\<close> where the one before it
  ends.
\<close>

locale key_division =
  fixes rng :: "nat \<Rightarrow> nat \<Rightarrow> nat \<Rightarrow> nat \<Rightarrow> u64 \<times> u64"
  assumes range_begin: "\<lbrakk>0 < sh; sh < 64; 0 < W; W \<le> 2 ^ sh; p < 2 ^ (64 - sh); w < W\<rbrakk> \<Longrightarrow>
      unat (fst (rng sh W p w)) = p * 2 ^ sh + w * (2 ^ sh div W)"
    and range_end: "\<lbrakk>0 < sh; sh < 64; 0 < W; W \<le> 2 ^ sh; p < 2 ^ (64 - sh); w < W\<rbrakk> \<Longrightarrow>
      unat (snd (rng sh W p w)) + 1 = p * 2 ^ sh + (if w + 1 = W then 2 ^ sh else (w + 1) * (2 ^ sh div W))"
begin

definition in_range :: "nat \<Rightarrow> nat \<Rightarrow> nat \<Rightarrow> nat \<Rightarrow> u64 \<Rightarrow> bool" where
  "in_range sh W p w k \<longleftrightarrow> fst (rng sh W p w) \<le> k \<and> k \<le> snd (rng sh W p w)"

text \<open>A key is in the range of exactly one worker and one partition, that of its leading bits.\<close>

lemma in_range_iff:
  assumes sh: "0 < sh" and ok: "sh < 64" "0 < W" "W \<le> 2 ^ sh" "p < 2 ^ (64 - sh)" "w < W"
  shows "in_range sh W p w k \<longleftrightarrow>
    p = unat k div 2 ^ sh \<and> w = min (unat k mod 2 ^ sh div (2 ^ sh div W)) (W - 1)"
proof -
  let ?n = "unat k" and ?S = "(2 :: nat) ^ sh" and ?q = "(2 :: nat) ^ sh div W"
  have q: "0 < ?q" using ok(2,3) by (simp add: div_greater_zero_iff)
  have qW: "W * ?q \<le> ?S" by (simp add: mult.commute)
  let ?hi = "if w + 1 = W then ?S else (w + 1) * ?q"
  have hi_le: "?hi \<le> ?S"
  proof (cases "w + 1 = W")
    case False
    then have "(w + 1) * ?q \<le> W * ?q" using ok(5) by (intro mult_le_mono) auto
    from order_trans [OF this qW] show ?thesis using False by simp
  qed simp
  have lo_less: "w * ?q < ?S"
  proof -
    have "w * ?q < W * ?q" using ok(5) q by simp
    from less_le_trans [OF this qW] show ?thesis .
  qed
  have "in_range sh W p w k \<longleftrightarrow> p * ?S + w * ?q \<le> ?n \<and> ?n < p * ?S + ?hi"
    using range_begin [OF sh ok] range_end [OF sh ok] by (auto simp: in_range_def word_le_nat_alt split: if_splits)
  also have "\<dots> \<longleftrightarrow> p = ?n div ?S \<and> w * ?q \<le> ?n mod ?S \<and> ?n mod ?S < ?hi" (is "?A \<longleftrightarrow> ?B")
  proof
    assume A: ?A
    then have p: "p * ?S \<le> ?n" "?n < p * ?S + ?S" using hi_le by linarith+
    then have "?n div ?S = p" by (simp add: div_nat_eqI mult.commute)
    moreover from this have "?n mod ?S = ?n - p * ?S" by (metis minus_div_mult_eq_mod)
    ultimately show ?B using A p by auto
  next
    assume ?B
    moreover have "?n = ?n div ?S * ?S + ?n mod ?S" by (rule div_mult_mod_eq [symmetric])
    ultimately show ?A by (metis add_le_cancel_left nat_add_left_cancel_less)
  qed
  also have "\<dots> \<longleftrightarrow> p = ?n div ?S \<and> w = min (?n mod ?S div ?q) (W - 1)"
  proof -
    have lo: "w * ?q \<le> ?n mod ?S \<longleftrightarrow> w \<le> ?n mod ?S div ?q" using q by (simp add: less_eq_div_iff_mult_less_eq)
    have up: "?n mod ?S < (w + 1) * ?q \<longleftrightarrow> ?n mod ?S div ?q < w + 1" using q by (simp add: div_less_iff_less_mult)
    show ?thesis
    proof (cases "w + 1 = W")
      case True
      then show ?thesis using lo by (auto simp: min_def)
    next
      case False
      then show ?thesis using lo up ok(5) by (auto simp: min_def)
    qed
  qed
  finally show ?thesis .
qed

lemma covers:
  assumes sh: "0 < sh" and ok: "sh < 64" "0 < W" "W \<le> 2 ^ sh"
  shows "\<exists>!(p, w). p < 2 ^ (64 - sh) \<and> w < W \<and> in_range sh W p w k"
proof -
  let ?p = "unat k div 2 ^ sh" and ?w = "min (unat k mod 2 ^ sh div (2 ^ sh div W)) (W - 1)"
  have "unat k < 2 ^ (64 - sh) * 2 ^ sh"
    using unsigned_less [of k] ok(1) by (simp flip: power_add)
  then have p: "?p < 2 ^ (64 - sh)" by (simp add: less_mult_imp_div_less)
  have w: "?w < W" using ok(2) by (simp add: min_less_iff_disj)
  show ?thesis
    by (rule ex1I [of _ "(?p, ?w)"]) (use p w in_range_iff [OF sh ok] in auto)
qed

lemma reaches:
  assumes "0 < sh" "sh < 64" "0 < W" "W \<le> 2 ^ sh"
  shows "\<exists>p w. p < 2 ^ (64 - sh) \<and> w < W \<and> fst (rng sh W p w) \<le> k \<and> k \<le> snd (rng sh W p w)"
  using covers [OF assms, of k] by (auto simp: in_range_def)

end

lemma word_of_nat_pred: "0 < n \<Longrightarrow> of_nat (n - 1) = (of_nat n - 1 :: u64)"
  by (simp add: of_nat_diff)

lemma unat_of_nat_small64: "n < 2 ^ 64 \<Longrightarrow> unat (of_nat n :: u64) = n"
  by (simp add: unat_of_nat take_bit_eq_mod)

lemma unat_push_bit_small: "n * 2 ^ sh < 2 ^ 64 \<Longrightarrow> unat (push_bit sh (of_nat n :: u64)) = n * 2 ^ sh"
proof -
  assume "n * 2 ^ sh < 2 ^ 64"
  have "push_bit sh (of_nat n :: u64) = of_nat (n * 2 ^ sh)" by (simp add: push_bit_eq_mult)
  then show ?thesis using unat_of_nat_small64 [OF \<open>n * 2 ^ sh < 2 ^ 64\<close>] by metis
qed

lemma division_bounds:
  assumes ok: "sh < 64" "0 < W" "W \<le> 2 ^ sh" "p < 2 ^ (64 - sh)" "w < W"
  defines "S \<equiv> (2 :: nat) ^ sh" and "q \<equiv> (2 :: nat) ^ sh div W"
  shows "unat (push_bit sh (of_nat p :: u64) + push_bit sh 1 div of_nat W * of_nat w) = p * S + w * q"
    and "w + 1 < W \<Longrightarrow> unat (push_bit sh (of_nat p :: u64) + push_bit sh 1 div of_nat W * (of_nat w + 1) - 1) + 1 = p * S + (w + 1) * q"
    and "p + 1 < 2 ^ (64 - sh) \<Longrightarrow> unat (push_bit sh (of_nat p + 1 :: u64) - 1) + 1 = p * S + S"
    and "p + 1 = 2 ^ (64 - sh) \<Longrightarrow> unat (- 1 :: u64) + 1 = p * S + S"
    and "of_nat w + 1 = (of_nat W :: u64) \<longleftrightarrow> w + 1 = W"
proof -
  have S64: "2 ^ (64 - sh) * S = 2 ^ 64" using ok(1) by (simp add: S_def flip: power_add)
  have q: "0 < q" "W * q \<le> S" using ok(2,3) by (simp_all add: q_def S_def div_greater_zero_iff mult.commute)
  have S_small: "S < 2 ^ 64" unfolding S_def by (rule power_strict_increasing) (use ok(1) in simp_all)
  have W_small: "W < 2 ^ 64" using ok(3) S_small by (simp add: S_def)
  have pS: "p * S + S \<le> 2 ^ 64"
  proof -
    have "(p + 1) * S \<le> 2 ^ (64 - sh) * S" using ok(4) by (intro mult_le_mono1) simp
    then show ?thesis using S64 by (simp add: algebra_simps)
  qed
  have piece: "push_bit sh 1 div of_nat W = (of_nat q :: u64)"
  proof -
    have "unat (push_bit sh 1 div of_nat W :: u64) = q"
      using unat_push_bit_small [of 1 sh] S_small W_small
      by (simp add: unat_div q_def S_def unat_of_nat_small64)
    moreover have "unat (of_nat q :: u64) = q"
      using q S_small ok(2) by (intro unat_of_nat_small64) (metis div_le_dividend le_less_trans q_def S_def)
    ultimately show ?thesis by (metis unat_inject)
  qed
  have push: "push_bit sh (of_nat p :: u64) = of_nat (p * S)" by (simp add: push_bit_eq_mult S_def)
  have wq: "w * q < S"
  proof -
    have "w * q < W * q" using ok(5) q(1) by simp
    then show ?thesis using q(2) by linarith
  qed
  show "unat (push_bit sh (of_nat p :: u64) + push_bit sh 1 div of_nat W * of_nat w) = p * S + w * q"
  proof -
    have "push_bit sh (of_nat p :: u64) + push_bit sh 1 div of_nat W * of_nat w = of_nat (p * S + w * q)"
      unfolding piece push by (simp add: mult.commute)
    moreover have "p * S + w * q < 2 ^ 64" using pS wq by linarith
    ultimately show ?thesis using unat_of_nat_small64 by metis
  qed
  show "unat (push_bit sh (of_nat p :: u64) + push_bit sh 1 div of_nat W * (of_nat w + 1) - 1) + 1 = p * S + (w + 1) * q"
    if "w + 1 < W"
  proof -
    have "(w + 1) * q \<le> S"
    proof -
      have "(w + 1) * q \<le> W * q" using that by (intro mult_le_mono1) simp
      then show ?thesis using q(2) by linarith
    qed
    then have le: "p * S + (w + 1) * q \<le> 2 ^ 64" and pos: "0 < p * S + (w + 1) * q" using pS q(1) by (linarith, simp)
    have "push_bit sh (of_nat p :: u64) + push_bit sh 1 div of_nat W * (of_nat w + 1) - 1 =
        of_nat (p * S + (w + 1) * q - 1)"
      unfolding piece push word_of_nat_pred [OF pos] by (simp add: algebra_simps)
    moreover have "p * S + (w + 1) * q - 1 < 2 ^ 64" using le pos by linarith
    ultimately show ?thesis using unat_of_nat_small64 [of "p * S + (w + 1) * q - 1"] pos by simp
  qed
  show "unat (push_bit sh (of_nat p + 1 :: u64) - 1) + 1 = p * S + S" if "p + 1 < 2 ^ (64 - sh)"
  proof -
    have pos: "0 < p * S + S" by (simp add: S_def)
    have "push_bit sh (of_nat p + 1 :: u64) - 1 = of_nat (p * S + S - 1)"
      unfolding word_of_nat_pred [OF pos] by (simp add: push_bit_eq_mult S_def algebra_simps)
    moreover have "p * S + S - 1 < 2 ^ 64" using pS pos by linarith
    ultimately show ?thesis using unat_of_nat_small64 [of "p * S + S - 1"] pos by simp
  qed
  show "unat (- 1 :: u64) + 1 = p * S + S" if "p + 1 = 2 ^ (64 - sh)"
  proof -
    have "p * S + S = 2 ^ 64" using S64 that by (metis add.commute mult_Suc plus_1_eq_Suc)
    then show ?thesis by (simp add: unsigned_minus_1_eq_mask mask_eq_exp_minus_1)
  qed
  show "of_nat w + 1 = (of_nat W :: u64) \<longleftrightarrow> w + 1 = W"
  proof
    assume "of_nat w + 1 = (of_nat W :: u64)"
    then have "unat (of_nat (w + 1) :: u64) = unat (of_nat W :: u64)" by (simp add: add.commute)
    then show "w + 1 = W" using unat_of_nat_small64 [of "w + 1"] unat_of_nat_small64 [of W] W_small ok(5) by simp
  qed auto
qed

lemma of_nat_eq_iff64: "m < 2 ^ 64 \<Longrightarrow> n < 2 ^ 64 \<Longrightarrow> (of_nat m :: u64) = of_nat n \<longleftrightarrow> m = n"
  by (metis unat_of_nat_small64)

lemma division_max:
  assumes ok: "sh < 64" "0 < W" "W \<le> 2 ^ sh" "p < 2 ^ (64 - sh)" "w < W"
  shows "of_nat (W - 1) + 1 = (of_nat W :: u64)"
    and "of_nat w = (of_nat (W - 1) :: u64) \<longleftrightarrow> w + 1 = W"
    and "of_nat p = (of_nat (2 ^ (64 - sh) - 1) :: u64) \<longleftrightarrow> p + 1 = 2 ^ (64 - sh)"
    and "0 < sh \<Longrightarrow> of_nat p + 1 = (of_nat (2 ^ (64 - sh)) :: u64) \<longleftrightarrow> p + 1 = 2 ^ (64 - sh)"
proof -
  have S: "(2 :: nat) ^ sh < 2 ^ 64" by (rule power_strict_increasing) (use ok(1) in simp_all)
  have P: "(2 :: nat) ^ (64 - sh) \<le> 2 ^ 64" by (rule power_increasing) simp_all
  have W: "W < 2 ^ 64" using ok(3) S by linarith
  show "of_nat (W - 1) + 1 = (of_nat W :: u64)" using word_of_nat_pred [OF ok(2)] by simp
  show "of_nat w = (of_nat (W - 1) :: u64) \<longleftrightarrow> w + 1 = W"
    using of_nat_eq_iff64 [of w "W - 1"] W ok(2,5) by auto
  show "of_nat p = (of_nat (2 ^ (64 - sh) - 1) :: u64) \<longleftrightarrow> p + 1 = 2 ^ (64 - sh)"
    using of_nat_eq_iff64 [of p "2 ^ (64 - sh) - 1"] P ok(4) by auto
  show "of_nat p + 1 = (of_nat (2 ^ (64 - sh)) :: u64) \<longleftrightarrow> p + 1 = 2 ^ (64 - sh)" if "0 < sh"
  proof -
    have "(2 :: nat) ^ (64 - sh) < 2 ^ 64" by (rule power_strict_increasing) (use that ok(1) in simp_all)
    then show ?thesis using of_nat_eq_iff64 [of "p + 1" "2 ^ (64 - sh)"] ok(4) by (simp add: add.commute)
  qed
qed

interpretation work: key_division
  "\<lambda>sh W p w. work_range sh (of_nat (2 ^ (64 - sh) - 1)) (of_nat (W - 1)) (of_nat p) (of_nat w)"
proof
  fix sh W p w :: nat
  assume ok: "sh < 64" "0 < W" "W \<le> 2 ^ sh" "p < 2 ^ (64 - sh)" "w < W"
  note max = division_max [OF ok]
  show "unat (fst (work_range sh (of_nat (2 ^ (64 - sh) - 1)) (of_nat (W - 1)) (of_nat p) (of_nat w))) =
      p * 2 ^ sh + w * (2 ^ sh div W)"
    unfolding work_range_def Let_def max(1) fst_conv by (rule division_bounds(1) [OF ok])
  show "unat (snd (work_range sh (of_nat (2 ^ (64 - sh) - 1)) (of_nat (W - 1)) (of_nat p) (of_nat w))) + 1 =
      p * 2 ^ sh + (if w + 1 = W then 2 ^ sh else (w + 1) * (2 ^ sh div W))"
    unfolding work_range_def Let_def max(1-3) snd_conv
    using division_bounds(2-4) [OF ok] ok(4,5) by simp
qed

interpretation pull: key_division
  "\<lambda>sh W p w. pull_range sh (of_nat (2 ^ (64 - sh))) (of_nat W) (of_nat p) (of_nat w)"
proof
  fix sh W p w :: nat
  assume sh: "0 < sh" and ok: "sh < 64" "0 < W" "W \<le> 2 ^ sh" "p < 2 ^ (64 - sh)" "w < W"
  show "unat (fst (pull_range sh (of_nat (2 ^ (64 - sh))) (of_nat W) (of_nat p) (of_nat w))) = p * 2 ^ sh + w * (2 ^ sh div W)"
    unfolding pull_range_def Let_def fst_conv by (rule division_bounds(1) [OF ok])
  show "unat (snd (pull_range sh (of_nat (2 ^ (64 - sh))) (of_nat W) (of_nat p) (of_nat w))) + 1 =
      p * 2 ^ sh + (if w + 1 = W then 2 ^ sh else (w + 1) * (2 ^ sh div W))"
    unfolding pull_range_def Let_def snd_conv division_max(4) [OF ok sh] division_bounds(5) [OF ok]
    using division_bounds(2-4) [OF ok] ok(4,5) by simp
qed

section \<open>The order of the partitions\<close>

text \<open>
  The loop that starts at \<open>first\<close>, counts on, wraps after the last partition and ends when it is back
  where it started.  \<open>cnt\<close> is the number of partitions.
\<close>

function circle :: "nat \<Rightarrow> nat \<Rightarrow> nat \<Rightarrow> nat list" where
  "circle cnt first p =
     (if cnt \<le> first \<or> cnt \<le> p then [p]
      else let p' = (if cnt - 1 < p + 1 then 0 else p + 1)
           in p # (if p' = first then [] else circle cnt first p'))"
  by pat_completeness auto
termination
  by (relation "measure (\<lambda>(cnt, first, p). if p < first then first - p else first + (cnt - p))") auto

declare circle.simps [simp del]

lemma circle_below: "p < first \<Longrightarrow> first < cnt \<Longrightarrow> circle cnt first p = [p..<first]"
proof (induction cnt first p rule: circle.induct)
  case (1 cnt first p)
  show ?case
  proof (cases "Suc p = first")
    case True
    then show ?thesis using 1(2,3) by (subst circle.simps) auto
  next
    case False
    then show ?thesis using 1 by (subst circle.simps) (auto simp: upt_conv_Cons)
  qed
qed

lemma circle_above: "first \<le> p \<Longrightarrow> p < cnt \<Longrightarrow> circle cnt first p = [p..<cnt] @ [0..<first]"
proof (induction "cnt - p" arbitrary: p)
  case (Suc d)
  show ?case
  proof (cases "Suc p = cnt")
    case True
    then show ?thesis
      using Suc.prems circle_below [of 0 first cnt]
      by (subst circle.simps) (auto simp: upt_conv_Cons)
  next
    case False
    then show ?thesis
      using Suc.prems Suc.hyps(1) [of "Suc p"] Suc.hyps(2)
      by (subst circle.simps) (auto simp: upt_conv_Cons)
  qed
qed simp

text \<open>Every partition is visited once.\<close>

lemma circle_all:
  assumes "first < cnt"
  shows "distinct (circle cnt first first)" "set (circle cnt first first) = {0..<cnt}"
  using circle_above [of first first cnt] assms by auto

section \<open>Launchers\<close>

text \<open>
  The loop of the background tasks: it waits for a notification or its time, runs a pass, which may
  itself take a notification and hand it back, and answers notifications.  \<open>la_chan\<close> is what was sent
  and not yet received, \<open>la_done\<close> the answers given.  A pass gets the channel and the state.
\<close>

record launcher =
  la_chan :: "bgNotification list"
  la_notification :: "bgNotification option"
  la_running :: bool
  la_done :: "nat list"

type_synonym 's bg_pass = "bgNotification list \<Rightarrow> 's \<Rightarrow> (bgNotification option \<times> bgNotification list \<times> 's) outcome"

text \<open>One turn of the loop; \<open>timeout\<close> says that the timer was chosen, which it is when nothing was sent.\<close>

definition launcher_turn :: "'s bg_pass \<Rightarrow> bool \<Rightarrow> launcher \<times> 's \<Rightarrow> (launcher \<times> 's) outcome" where
  "launcher_turn pass timeout x =
     (case x of (l, s) \<Rightarrow>
        if \<not> la_running l then Done (l, s)
        else
          let (n, l1) = (case la_notification l of
                Some n \<Rightarrow> (Some n, l)
              | None \<Rightarrow> (if timeout then (None, l)
                         else case la_chan l of [] \<Rightarrow> (None, l) | n # q \<Rightarrow> (Some n, l\<lparr>la_chan := q\<rparr>)))
          in case n of
               Some note \<Rightarrow>
                 (case bg_action note of
                    BG_PASS \<Rightarrow>
                      bind_outcome (pass (la_chan l1) s) (\<lambda>(n', q, s').
                        Done (l1\<lparr>la_chan := q, la_notification := n', la_done := la_done l1 @ [bg_doneChan note]\<rparr>, s'))
                  | BG_DISABLE \<Rightarrow>
                      Done (l1\<lparr>la_running := False, la_notification := None, la_done := la_done l1 @ [bg_doneChan note]\<rparr>, s))
             | None \<Rightarrow>
                 bind_outcome (pass (la_chan l1) s) (\<lambda>(n', q, s').
                   Done (l1\<lparr>la_chan := q, la_notification := n'\<rparr>, s')))"

definition launcher_start :: launcher where
  "launcher_start = \<lparr>la_chan = [], la_notification = None, la_running = True, la_done = []\<rparr>"

text \<open>The shutdown of a task sends \<open>BG_DISABLE\<close> and waits for the answer on its channel \<open>c\<close>.\<close>

definition launcher_disable :: "nat \<Rightarrow> launcher \<Rightarrow> launcher" where
  "launcher_disable c l = l\<lparr>la_chan := la_chan l @ [\<lparr>bg_action = BG_DISABLE, bg_doneChan = c\<rparr>]\<rparr>"

text \<open>Turns of the launcher and notifications sent to it, in any order.\<close>

inductive launcher_run :: "'s bg_pass \<Rightarrow> launcher \<times> 's \<Rightarrow> bgNotification list \<Rightarrow> launcher \<times> 's \<Rightarrow> bool" for pass where
  lr_nil: "launcher_run pass x [] x"
| lr_turn: "launcher_run pass x sent y \<Longrightarrow> launcher_turn pass timeout y = Done z \<Longrightarrow> launcher_run pass x sent z"
| lr_send: "launcher_run pass x sent (l, s) \<Longrightarrow> launcher_run pass x (sent @ [n]) (l\<lparr>la_chan := la_chan l @ [n]\<rparr>, s)"

text \<open>
  The contract of a pass: it hands back nothing, or the notification it received.  A task whose passes
  keep it answers its notifications one by one, in the order they were sent, and ends when it is told
  to.
\<close>

locale background_pass =
  fixes pass :: "'s bg_pass"
  assumes hands_back: "pass q s = Done (n, q', s') \<Longrightarrow> n = None \<and> q' = q \<or> (\<exists>x. n = Some x \<and> q = x # q')"
begin

definition to_answer :: "launcher \<Rightarrow> bgNotification list" where
  "to_answer l = (case la_notification l of None \<Rightarrow> [] | Some n \<Rightarrow> [n]) @ la_chan l"

lemma turn_answers:
  assumes "launcher_turn pass timeout (l, s) = Done (l', s')"
  shows "la_done l' @ map bg_doneChan (to_answer l') = la_done l @ map bg_doneChan (to_answer l)"
  using assms hands_back
  by (fastforce simp: launcher_turn_def to_answer_def Let_def
      split: if_splits option.splits list.splits bgNotificationAction.splits prod.splits elim!: bind_outcome_DoneE)

lemma answers_in_order:
  assumes "launcher_run pass (launcher_start, s) sent (l, s')"
  shows "la_done l @ map bg_doneChan (to_answer l) = map bg_doneChan sent"
  using assms
proof (induction "(launcher_start, s)" sent "(l, s')" arbitrary: l s' rule: launcher_run.induct)
  case lr_nil
  then show ?case by (simp add: launcher_start_def to_answer_def)
next
  case (lr_turn sent y timeout)
  obtain l1 s1 where y: "y = (l1, s1)" by (cases y)
  show ?case using lr_turn(2) [OF y] turn_answers [of timeout l1 s1 l s'] lr_turn(3) y by simp
next
  case (lr_send sent l s n)
  then show ?case by (simp add: to_answer_def)
qed

text \<open>A disabled task has answered a \<open>BG_DISABLE\<close>; while it runs it has not.\<close>

lemma ends_by_disable:
  assumes "launcher_turn pass timeout (l, s) = Done (l', s')" "la_running l" "\<not> la_running l'"
  shows "\<exists>n. n \<in> set (to_answer l) \<and> bg_action n = BG_DISABLE \<and> la_done l' = la_done l @ [bg_doneChan n]"
  using assms
  by (auto simp: launcher_turn_def to_answer_def Let_def
      split: if_splits option.splits list.splits bgNotificationAction.splits elim!: bind_outcome_DoneE)

end

section \<open>Launchers without passes on demand\<close>

text \<open>
  The loops of the flusher and the watcher: a notification is answered, and ends the loop if it says
  so; otherwise the check is run.
\<close>

definition plain_turn :: "('s \<Rightarrow> 's outcome) \<Rightarrow> bool \<Rightarrow> launcher \<times> 's \<Rightarrow> (launcher \<times> 's) outcome" where
  "plain_turn check timeout x =
     (case x of (l, s) \<Rightarrow>
        if \<not> la_running l then Done (l, s)
        else case (if timeout then [] else la_chan l) of
               note # q \<Rightarrow>
                 Done (l\<lparr>la_chan := q, la_running := (bg_action note \<noteq> BG_DISABLE),
                         la_done := la_done l @ [bg_doneChan note]\<rparr>, s)
             | [] \<Rightarrow> bind_outcome (check s) (\<lambda>s'. Done (l, s')))"

lemma plain_turn_answers:
  assumes "plain_turn check timeout (l, s) = Done (l', s')"
  shows "la_done l' @ map bg_doneChan (la_chan l') = la_done l @ map bg_doneChan (la_chan l)"
  using assms by (auto simp: plain_turn_def split: if_splits list.splits elim!: bind_outcome_DoneE)

section \<open>Properties\<close>



text \<open>
  C31. The loop of a worker over the partitions ends, wherever it starts: from its first partition it
  goes up to the last one, wraps around and stops before the first, so that it visits every partition
  once.
\<close>

theorem circle_visits_all:
  assumes "first < cnt"
  shows "circle cnt first first = [first..<cnt] @ [0..<first]"
  using assms circle_above [of first first cnt] by simp

theorem circle_visits_all_witness: "circle 4 2 2 = [2..<4] @ [0..<2]"
  by (rule circle_visits_all) simp

end
