(* ===== verification/Tombstone.thy ===== *)
theory Tombstone
  imports Background
begin

unbundle bit_operations_syntax

text \<open>
  Discarding tombstones (\<open>src/valuetombstonediscard_GEN_.go\<close>, \<open>src/grouptombstonediscard_GEN_.go\<close>): a pass first drops from the location
  map what is marked for local removal, then marks deletions that are old enough.  The workers are
  goroutines: the order in which their pieces of work are done is an input, the list of
  \<open>(partition, worker)\<close> pairs.
\<close>

section \<open>State\<close>

record valueTombstoneDiscardState =
  td_interval :: nat
  td_age :: u64
  td_batchSize :: nat
  td_workers :: nat
  td_launcher :: "launcher option"

text \<open>The age is configured in seconds and kept in the unit of timestamp bits.\<close>

definition tombstoneDiscardConfig :: "nat \<Rightarrow> nat \<Rightarrow> nat \<Rightarrow> nat \<Rightarrow> valueTombstoneDiscardState" where
  "tombstoneDiscardConfig interval age batchSize workers =
     \<lparr>td_interval = interval, td_age = push_bit TSB_UTIL_BITS (of_nat age * 1000000000 div 1000),
      td_batchSize = batchSize, td_workers = workers, td_launcher = None\<rparr>"

definition tombstoneDiscardStartup :: "valueTombstoneDiscardState \<Rightarrow> valueTombstoneDiscardState" where
  "tombstoneDiscardStartup st =
     (case td_launcher st of None \<Rightarrow> st\<lparr>td_launcher := Some launcher_start\<rparr> | Some _ \<Rightarrow> st)"

text \<open>The shutdown: the notification with its channel \<open>c\<close>, then the wait for the answer.\<close>

definition tombstoneDiscardShutdown_notify :: "nat \<Rightarrow> valueTombstoneDiscardState \<Rightarrow> valueTombstoneDiscardState" where
  "tombstoneDiscardShutdown_notify c st = st\<lparr>td_launcher := map_option (launcher_disable c) (td_launcher st)\<rparr>"

definition tombstoneDiscardShutdown_done :: "nat \<Rightarrow> valueTombstoneDiscardState \<Rightarrow> valueTombstoneDiscardState outcome" where
  "tombstoneDiscardShutdown_done c st =
     (case td_launcher st of None \<Rightarrow> Done st
      | Some l \<Rightarrow> if c \<in> set (la_done l) then Done (st\<lparr>td_launcher := None\<rparr>) else Blocked)"

section \<open>The partitions\<close>

text \<open>
  The shift and the last partition.  \<open>mr\<close> is the message ring: none, or one whose ring may not be
  there yet, which is dereferenced all the same.
\<close>

definition tombstone_partitions :: "ring option option \<Rightarrow> (nat \<times> u64) outcome" where
  "tombstone_partitions mr =
     (case mr of
        None \<Rightarrow> Done (0, 0)
      | Some None \<Rightarrow> Panic
      | Some (Some rg) \<Rightarrow> Done (64 - rg_partitionBitCount rg, push_bit (rg_partitionBitCount rg) 1 - 1))"

text \<open>The partitions each worker visits, in its order; \<open>P\<close> partitions and \<open>W\<close> workers.\<close>

definition removal_orders :: "nat \<Rightarrow> nat \<Rightarrow> (nat \<times> nat) list list" where
  "removal_orders P W =
     map (\<lambda>worker. let partitionBegin = P div W * worker
          in map (\<lambda>p. (p, worker)) ([partitionBegin..<P] @ [0..<partitionBegin])) [0..<W]"

definition expired_orders :: "nat \<Rightarrow> nat \<Rightarrow> (nat \<times> nat) list list" where
  "expired_orders P W =
     map (\<lambda>worker. let partitionBegin = P div W * worker
          in map (\<lambda>p. (p, worker)) (circle P partitionBegin partitionBegin)) [0..<W]"

text \<open>An interleaving of the workers; an abort cuts each short.\<close>

definition interleaves :: "(nat \<times> nat) list list \<Rightarrow> (nat \<times> nat) list \<Rightarrow> bool" where
  "interleaves orders sched \<longleftrightarrow> (\<forall>w < length orders. filter (\<lambda>x. snd x = w) sched = orders ! w)"

text \<open>A notification taken by the pass ends it early.\<close>

definition pass_result :: "bool \<Rightarrow> bgNotification list \<Rightarrow> 's \<Rightarrow> bgNotification option \<times> bgNotification list \<times> 's" where
  "pass_result took q s =
     (if took then (case q of [] \<Rightarrow> (None, [], s) | n # q' \<Rightarrow> (Some n, q', s)) else (None, q, s))"

section \<open>Local removals\<close>

definition removal_work :: "('m, 'b) locmap_ops \<Rightarrow> nat \<Rightarrow> u64 \<Rightarrow> u64 \<Rightarrow> nat \<times> nat \<Rightarrow> 'm valueStore \<Rightarrow> 'm valueStore" where
  "removal_work L partitionShift partitionMax workerMax x s =
     (case work_range partitionShift partitionMax workerMax (of_nat (fst x)) (of_nat (snd x)) of
        (rangeBegin, rangeEnd) \<Rightarrow>
          s\<lparr>st_locmap := lm_Discard L (st_locmap s) rangeBegin rangeEnd TSB_LOCAL_REMOVAL\<rparr>)"

definition tombstoneDiscardPassLocalRemovals ::
  "('m, 'b) locmap_ops \<Rightarrow> ring option option \<Rightarrow> valueTombstoneDiscardState \<Rightarrow> (nat \<times> nat) list \<Rightarrow> bool \<Rightarrow> 'm valueStore bg_pass" where
  "tombstoneDiscardPassLocalRemovals L mr st sched took q s =
     bind_outcome (tombstone_partitions mr) (\<lambda>(partitionShift, partitionMax).
       if td_workers st = 0 then Panic
       else Done (pass_result took q
              (foldl (\<lambda>s x. removal_work L partitionShift partitionMax (of_nat (td_workers st - 1)) x s) s sched)))"

section \<open>Expired deletions\<close>

text \<open>
  The loop over one range: scan for expired deletions, then write a local removal for each.  A scan
  that goes on forever is the reason for the fuel.
\<close>

definition expire_entry :: "('m, 'b) locmap_ops \<Rightarrow> 'b store_cfg \<Rightarrow> 'b scan_item \<Rightarrow> 'm valueStore \<Rightarrow> 'm valueStore outcome" where
  "expire_entry L cfg e s =
     (case e of (keyA, keyB, timestampbits, _) \<Rightarrow>
        bind_outcome (store_write L cfg keyA keyB (timestampbits OR TSB_LOCAL_REMOVAL) [] True s) (\<lambda>(_, s'). Done s'))"

fun expire_loop ::
  "nat \<Rightarrow> ('m, 'b) locmap_ops \<Rightarrow> 'b store_cfg \<Rightarrow> nat \<Rightarrow> u64 \<Rightarrow> u64 \<Rightarrow> u64 \<Rightarrow> 'm valueStore \<Rightarrow> 'm valueStore outcome" where
  "expire_loop 0 L cfg batchSize cutoff rangeBegin rangeEnd s = Blocked"
| "expire_loop (Suc fuel) L cfg batchSize cutoff rangeBegin rangeEnd s =
     (case lm_ScanCallback L (st_locmap s) rangeBegin rangeEnd TSB_DELETION TSB_LOCAL_REMOVAL cutoff (of_nat batchSize) of
        (items, rangeBegin', again) \<Rightarrow>
          if batchSize < length items then Panic
          else bind_outcome
            (fold_outcome (expire_entry L cfg) items
               (tally (\<lambda>c. c\<lparr>ct_expiredDeletions := ct_expiredDeletions c + of_nat (length items)\<rparr>) s))
            (\<lambda>s'. if again then expire_loop fuel L cfg batchSize cutoff rangeBegin' rangeEnd s' else Done s'))"

text \<open>\<open>now\<close> is the time in microseconds.\<close>

definition expire_cutoff :: "u64 \<Rightarrow> valueTombstoneDiscardState \<Rightarrow> u64" where
  "expire_cutoff now st = push_bit TSB_UTIL_BITS now - td_age st"

definition expire_work ::
  "nat \<Rightarrow> ('m, 'b) locmap_ops \<Rightarrow> 'b store_cfg \<Rightarrow> valueTombstoneDiscardState \<Rightarrow> u64 \<Rightarrow> nat \<Rightarrow> u64 \<Rightarrow> nat \<times> nat \<Rightarrow>
   'm valueStore \<Rightarrow> 'm valueStore outcome" where
  "expire_work fuel L cfg st now partitionShift partitionMax x s =
     (case work_range partitionShift partitionMax (of_nat (td_workers st - 1)) (of_nat (fst x)) (of_nat (snd x)) of
        (rangeBegin, rangeEnd) \<Rightarrow>
          expire_loop fuel L cfg (td_batchSize st) (expire_cutoff now st) rangeBegin rangeEnd s)"

definition tombstoneDiscardPassExpiredDeletions ::
  "nat \<Rightarrow> ('m, 'b) locmap_ops \<Rightarrow> 'b store_cfg \<Rightarrow> ring option option \<Rightarrow> valueTombstoneDiscardState \<Rightarrow> u64 \<Rightarrow> (nat \<times> nat) list \<Rightarrow> bool \<Rightarrow>
   'm valueStore bg_pass" where
  "tombstoneDiscardPassExpiredDeletions fuel L cfg mr st now sched took q s =
     bind_outcome (tombstone_partitions mr) (\<lambda>(partitionShift, partitionMax).
       if td_workers st = 0 then Panic
       else bind_outcome (fold_outcome (expire_work fuel L cfg st now partitionShift partitionMax) sched s) (\<lambda>s'.
              Done (pass_result took q s')))"

section \<open>The pass and its launcher\<close>

text \<open>A notification taken by the first half ends the pass before the second.\<close>

definition tombstoneDiscardPass ::
  "nat \<Rightarrow> ('m, 'b) locmap_ops \<Rightarrow> 'b store_cfg \<Rightarrow> ring option option \<Rightarrow> valueTombstoneDiscardState \<Rightarrow> u64 \<Rightarrow>
   (nat \<times> nat) list \<times> bool \<Rightarrow> (nat \<times> nat) list \<times> bool \<Rightarrow> i64 \<Rightarrow> 'm valueStore bg_pass" where
  "tombstoneDiscardPass fuel L cfg mr st now one two elapsed q s =
     bind_outcome (tombstoneDiscardPassLocalRemovals L mr st (fst one) (snd one) q s) (\<lambda>(n, q1, s1).
     bind_outcome
       (if n \<noteq> None then Done (n, q1, s1)
        else tombstoneDiscardPassExpiredDeletions fuel L cfg mr st now (fst two) (snd two) q1 s1) (\<lambda>(n2, q2, s2).
       Done (n2, q2, tally (\<lambda>c. c\<lparr>ct_tombstoneDiscardNanoseconds := elapsed\<rparr>) s2)))"

definition tombstoneDiscardLauncher where
  "tombstoneDiscardLauncher fuel L cfg mr st now one two elapsed =
     launcher_turn (tombstoneDiscardPass fuel L cfg mr st now one two elapsed)"

lemma pass_result_hands_back:
  "pass_result took q s = (n, q', s') \<Longrightarrow> n = None \<and> q' = q \<or> (\<exists>x. n = Some x \<and> q = x # q')"
  by (auto simp: pass_result_def split: if_splits list.splits)

interpretation tombstone_pass: background_pass "tombstoneDiscardPass fuel L cfg mr st now one two elapsed"
  for fuel and L :: "('m, 'b) locmap_ops" and cfg mr st now one two elapsed
proof
  fix q s n q' and s' :: "'m valueStore"
  assume "tombstoneDiscardPass fuel L cfg mr st now one two elapsed q s = Done (n, q', s')"
  then obtain n1 q1 s1 s2 where first: "tombstoneDiscardPassLocalRemovals L mr st (fst one) (snd one) q s = Done (n1, q1, s1)"
    and second: "(if n1 \<noteq> None then Done (n1, q1, s1)
        else tombstoneDiscardPassExpiredDeletions fuel L cfg mr st now (fst two) (snd two) q1 s1) = Done (n, q', s2)"
    by (auto simp: tombstoneDiscardPass_def elim!: bind_outcome_DoneE)
  have "n1 = None \<and> q1 = q \<or> (\<exists>x. n1 = Some x \<and> q = x # q1)"
    using first
    by (auto simp: tombstoneDiscardPassLocalRemovals_def split: if_splits elim!: bind_outcome_DoneE dest!: pass_result_hands_back)
  moreover have "n1 = None \<Longrightarrow> n = None \<and> q' = q1 \<or> (\<exists>x. n = Some x \<and> q1 = x # q')"
    using second
    by (auto simp: tombstoneDiscardPassExpiredDeletions_def split: if_splits elim!: bind_outcome_DoneE dest!: pass_result_hands_back)
  ultimately show "n = None \<and> q' = q \<or> (\<exists>x. n = Some x \<and> q = x # q')"
    using second by (cases n1) auto
qed

section \<open>Every key is reached\<close>

lemma orders_all:
  assumes "p < P" "w < W"
  shows "(p, w) \<in> set (removal_orders P W ! w)" "(p, w) \<in> set (expired_orders P W ! w)"
proof -
  have le: "P div W * w < P \<or> W = 0"
  proof (cases "P div W = 0")
    case False
    then have "P div W * w < P div W * W" using assms(2) by simp
    then show ?thesis using div_times_less_eq_dividend [of P W] by linarith
  qed (use assms in simp)
  show "(p, w) \<in> set (removal_orders P W ! w)" using assms by (auto simp: removal_orders_def Let_def image_iff)
  show "(p, w) \<in> set (expired_orders P W ! w)"
    using assms le circle_all(2) [of "P div W * w" P] by (auto simp: expired_orders_def Let_def)
qed

lemma interleaves_all:
  assumes "interleaves orders sched" "w < length orders" "(p, w) \<in> set (orders ! w)"
  shows "(p, w) \<in> set sched"
  using assms by (metis filter_is_subset interleaves_def subsetD)

text \<open>
  The shape of the key space a pass works on: without a ring one partition, otherwise those of a ring
  of 1 to 63 bits, with no more workers than a partition has keys.
\<close>

definition shape_ok :: "ring option option \<Rightarrow> nat \<Rightarrow> bool" where
  "shape_ok mr W \<longleftrightarrow> 0 < W \<and> W < 2 ^ 64 \<and>
     (case mr of None \<Rightarrow> True | Some None \<Rightarrow> False
      | Some (Some rg) \<Rightarrow> 0 < rg_partitionBitCount rg \<and> rg_partitionBitCount rg < 64 \<and>
          W \<le> 2 ^ (64 - rg_partitionBitCount rg))"

definition partition_count :: "ring option option \<Rightarrow> nat" where
  "partition_count mr = (case mr of Some (Some rg) \<Rightarrow> 2 ^ rg_partitionBitCount rg | _ \<Rightarrow> 1)"

lemma ranges_reach:
  assumes "shape_ok mr W" "tombstone_partitions mr = Done (shift, pmax)"
  shows "\<exists>p w. p < partition_count mr \<and> w < W \<and>
    fst (work_range shift pmax (of_nat (W - 1)) (of_nat p) (of_nat w)) \<le> k \<and>
    k \<le> snd (work_range shift pmax (of_nat (W - 1)) (of_nat p) (of_nat w))"
proof (cases mr)
  case None
  then have "shift = 0" "pmax = 0" "partition_count mr = 1" using assms(2)
    by (simp_all add: tombstone_partitions_def partition_count_def)
  moreover have "(of_nat (W - 1) :: u64) + 1 = of_nat W" using assms(1) word_of_nat_pred [of W] by (simp add: shape_ok_def)
  moreover have "1 div of_nat W = (if W = 1 then 1 else 0 :: u64)"
  proof (cases "W = 1")
    case False
    then have "1 < unat (of_nat W :: u64)" using assms(1) unat_of_nat_small64 [of W] by (simp add: shape_ok_def)
    then have "unat (1 div of_nat W :: u64) = 0" unfolding unat_div by simp
    then show ?thesis using False by (simp only: unat_eq_zero) simp
  qed simp
  ultimately show ?thesis
    using assms(1) by (intro exI [of _ 0]) (auto simp: work_range_def Let_def shape_ok_def)
next
  case (Some r)
  then obtain rg where rg: "mr = Some (Some rg)" "0 < rg_partitionBitCount rg" "rg_partitionBitCount rg < 64"
    "W \<le> 2 ^ (64 - rg_partitionBitCount rg)" "0 < W" using assms(1) by (cases r) (auto simp: shape_ok_def)
  let ?b = "rg_partitionBitCount rg"
  have "shift = 64 - ?b" "pmax = of_nat (2 ^ ?b - 1)" "partition_count mr = 2 ^ ?b"
    using assms(2) rg(1) word_of_nat_pred [of "2 ^ ?b"]
    by (auto simp: tombstone_partitions_def partition_count_def)
  moreover have "64 - (64 - ?b) = ?b" using rg(3) by simp
  moreover have "0 < 64 - ?b" "64 - ?b < 64" using rg(2,3) by simp_all
  ultimately show ?thesis using work.reaches [of "64 - ?b" W k] rg(4,5) by presburger
qed

lemma removals_get:
  assumes "locmap_contract L"
  shows "lm_Get L (st_locmap (foldl (\<lambda>s x. removal_work L shift pmax wmax x s) s sched)) a b =
    (if fst (lm_Get L (st_locmap s) a b) AND TSB_LOCAL_REMOVAL \<noteq> 0 \<and>
        (\<exists>x \<in> set sched. fst (work_range shift pmax wmax (of_nat (fst x)) (of_nat (snd x))) \<le> a \<and>
           a \<le> snd (work_range shift pmax wmax (of_nat (fst x)) (of_nat (snd x))))
     then loc_none else lm_Get L (st_locmap s) a b)"
proof (induction sched arbitrary: s)
  case (Cons x sched)
  have "lm_Get L (st_locmap (removal_work L shift pmax wmax x s)) a b =
      (if fst (lm_Get L (st_locmap s) a b) AND TSB_LOCAL_REMOVAL \<noteq> 0 \<and>
          fst (work_range shift pmax wmax (of_nat (fst x)) (of_nat (snd x))) \<le> a \<and>
          a \<le> snd (work_range shift pmax wmax (of_nat (fst x)) (of_nat (snd x)))
       then loc_none else lm_Get L (st_locmap s) a b)"
    by (auto simp: removal_work_def locmap_contract.Discard_get [OF assms] split: prod.splits)
  then show ?case using Cons.IH by (auto split: if_splits)
qed simp

section \<open>Properties\<close>

text \<open>
  C16. A pass over local removals that is not interrupted drops every entry marked for local removal and
  nothing else, whatever the number of workers and partitions and however the workers are interleaved;
  it does what one \<open>Discard\<close> over the whole key space would do.
\<close>

theorem local_removals_complete:
  assumes lm: "locmap_contract L" and shape: "shape_ok mr (td_workers st)"
    and sched: "interleaves (removal_orders (partition_count mr) (td_workers st)) sched"
  shows "\<exists>s'. tombstoneDiscardPassLocalRemovals L mr st sched False q s = Done (None, q, s') \<and>
    (\<forall>a b. lm_Get L (st_locmap s') a b = lm_Get L (lm_Discard L (st_locmap s) 0 (- 1) TSB_LOCAL_REMOVAL) a b)"
proof -
  let ?W = "td_workers st"
  obtain shift pmax where part: "tombstone_partitions mr = Done (shift, pmax)"
    using shape by (cases mr) (auto simp: shape_ok_def tombstone_partitions_def split: option.splits)
  let ?s' = "foldl (\<lambda>s x. removal_work L shift pmax (of_nat (?W - 1)) x s) s sched"
  have "lm_Get L (st_locmap ?s') a b = lm_Get L (lm_Discard L (st_locmap s) 0 (- 1) TSB_LOCAL_REMOVAL) a b" for a b
  proof -
    obtain p w where pw: "p < partition_count mr" "w < ?W"
      "fst (work_range shift pmax (of_nat (?W - 1)) (of_nat p) (of_nat w)) \<le> a"
      "a \<le> snd (work_range shift pmax (of_nat (?W - 1)) (of_nat p) (of_nat w))"
      using ranges_reach [OF shape part] by blast
    have "(p, w) \<in> set sched"
      using interleaves_all [OF sched] orders_all(1) [OF pw(1,2)] pw(2) by (simp add: removal_orders_def)
    then have "\<exists>x \<in> set sched. fst (work_range shift pmax (of_nat (?W - 1)) (of_nat (fst x)) (of_nat (snd x))) \<le> a \<and>
        a \<le> snd (work_range shift pmax (of_nat (?W - 1)) (of_nat (fst x)) (of_nat (snd x)))"
      using pw(3,4) by (metis fst_conv snd_conv)
    then show ?thesis
      unfolding removals_get [OF lm] by (simp add: locmap_contract.Discard_get [OF lm])
  qed
  then show ?thesis
    using part shape by (auto simp: tombstoneDiscardPassLocalRemovals_def pass_result_def shape_ok_def)
qed

lemma removal_orders_example: "removal_orders (Suc 0) 2 = [[(0, 0)], [(0, 1)]]"
  by code_simp

theorem local_removals_complete_witness:
  "\<exists>s'. tombstoneDiscardPassLocalRemovals alm_ops None (tombstoneDiscardConfig 10 3600 4 2) [(0, 1), (0, 0)] False [] store_new =
      Done (None, [], s') \<and>
    (\<forall>a b. lm_Get alm_ops (st_locmap s') a b =
       lm_Get alm_ops (lm_Discard alm_ops (st_locmap store_new) 0 (- 1) TSB_LOCAL_REMOVAL) a b)"
  by (rule local_removals_complete [OF alm.locmap_contract_axioms])
    (simp_all add: shape_ok_def tombstoneDiscardConfig_def interleaves_def partition_count_def removal_orders_example
      less_Suc_eq)

text \<open>
  C17. Expiring tombstones leaves everything else alone: a pass over expired deletions, interrupted or
  not, does not touch the location of a key that has a value, is marked for local removal already, or
  was deleted after the cutoff.
\<close>

theorem expiring_is_safe:
  assumes lm: "locmap_contract L"
    and pass: "tombstoneDiscardPassExpiredDeletions fuel L cfg mr st now sched took q s = Done (n, q', s')"
    and live: "\<not> scan_match TSB_DELETION TSB_LOCAL_REMOVAL (expire_cutoff now st) (fst (lm_Get L (st_locmap s) a b))"
  shows "lm_Get L (st_locmap s') a b = lm_Get L (st_locmap s) a b"
proof -
  let ?loc = "lm_Get L (st_locmap s) a b" and ?c = "expire_cutoff now st"
  let ?I = "\<lambda>s1. lm_Get L (st_locmap s1) a b = ?loc"
  have entry: "?I s2"
    if e: "expire_entry L cfg (ka, kb, ts, len) s1 = Done s2" and I: "?I s1" and "(ka, kb) \<noteq> (a, b)" for ka kb ts len s1 s2
  proof -
    obtain r where w: "store_write L cfg ka kb (ts OR TSB_LOCAL_REMOVAL) [] True s1 = Done (r, s2)"
      using e by (auto simp: expire_entry_def elim!: bind_outcome_DoneE)
    show ?thesis using locmap_contract.store_write_other [OF lm w, of a b] removal_bits I \<open>(ka, kb) \<noteq> (a, b)\<close> by auto
  qed
  have loop: "?I s2" if "expire_loop fuel L cfg k ?c rb re s1 = Done s2" "?I s1" for fuel k rb re s1 s2
    using that
  proof (induction fuel arbitrary: rb s1)
    case (Suc fuel)
    obtain items rb' again where scan: "lm_ScanCallback L (st_locmap s1) rb re TSB_DELETION TSB_LOCAL_REMOVAL ?c (of_nat k) =
        (items, rb', again)" by (metis prod_cases3)
    obtain s3 where fold: "fold_outcome (expire_entry L cfg) items
        (tally (\<lambda>c. c\<lparr>ct_expiredDeletions := ct_expiredDeletions c + of_nat (length items)\<rparr>) s1) = Done s3"
      and rest: "(if again then expire_loop fuel L cfg k ?c rb' re s3 else Done s3) = Done s2"
      using Suc.prems(1) scan by (auto split: if_splits elim!: bind_outcome_DoneE)
    have other: "(ka, kb) \<noteq> (a, b)" if "(ka, kb, ts, len) \<in> set items" for ka kb ts len
      using locmap_contract.Scan_sound [OF lm scan that] live Suc.prems(2) by (metis fst_conv prod.inject)
    have "?I s3"
    proof (rule fold_outcome_inv [OF fold])
      show "?I (tally (\<lambda>c. c\<lparr>ct_expiredDeletions := ct_expiredDeletions c + of_nat (length items)\<rparr>) s1)"
        using Suc.prems(2) by (simp add: tally_def)
    qed (use entry other in \<open>auto simp: split_paired_all\<close>)
    then show ?case using rest Suc.IH [of rb' s3] by (auto split: if_splits)
  qed simp
  have work: "?I s2" if "expire_work fuel L cfg st now shift pmax x s1 = Done s2" "?I s1" for shift pmax x s1 s2
    using that loop by (auto simp: expire_work_def split: prod.splits)
  obtain shift pmax s1 where fold: "fold_outcome (expire_work fuel L cfg st now shift pmax) sched s = Done s1"
    and "pass_result took q s1 = (n, q', s')"
    using pass by (auto simp: tombstoneDiscardPassExpiredDeletions_def split: if_splits elim!: bind_outcome_DoneE)
  then have "s' = s1" by (auto simp: pass_result_def split: if_splits list.splits)
  then show ?thesis using fold_outcome_inv [OF fold, of ?I] work by blast
qed

definition store_two :: "u64 alm valueStore" where
  "store_two = store_new\<lparr>st_locmap := [((1, 2), (0x300, 1, 0, 2))]\<rparr>"

theorem expiring_is_safe_witness:
  "lm_Get alm_ops (st_locmap (tally (\<lambda>c. c) store_two)) 1 2 = lm_Get alm_ops (st_locmap store_two) 1 2"
proof (rule expiring_is_safe [OF alm.locmap_contract_axioms])
  have "alm_items [((1, 2 :: u64), (0x300, 1, 0, 2))] 0 (- 1) TSB_DELETION TSB_LOCAL_REMOVAL
      (expire_cutoff 5000 (tombstoneDiscardConfig 10 0 4 1)) = []" by code_simp
  then show "tombstoneDiscardPassExpiredDeletions 1 alm_ops cfg_example None (tombstoneDiscardConfig 10 0 4 1) 5000
      [(0, 0)] False [] store_two = Done (None, [], tally (\<lambda>c. c) store_two)"
    by (simp add: tombstoneDiscardPassExpiredDeletions_def tombstone_partitions_def expire_work_def work_range_def
        alm_ops_def alm_ScanCallback_def store_two_def tombstoneDiscardConfig_def pass_result_def tally_def)
  show "\<not> scan_match TSB_DELETION TSB_LOCAL_REMOVAL (expire_cutoff 5000 (tombstoneDiscardConfig 10 0 4 1))
      (fst (lm_Get alm_ops (st_locmap store_two) 1 2))"
    by (simp add: store_two_def alm_ops_def alm_Get_def scan_match_def TSB_DELETION_def)
qed

end
