(* ===== verification/PushReplication.thy ===== *)
theory PushReplication
  imports BulkSet Tombstone StoreTheorems
begin

unbundle bit_operations_syntax

text \<open>
  Push replication (\<open>src/valuepushreplication_GEN_.go\<close>, \<open>src/grouppushreplication_GEN_.go\<close>): for every partition this node is not
  responsible for, each worker sends the values of its range of keys to the nodes that are.
\<close>

section \<open>State\<close>

record valuePushReplicationState =
  ps_interval :: nat
  ps_workers :: nat
  ps_msgTimeout :: nat
  ps_launcher :: "launcher option"

definition pushReplicationConfig :: "nat \<Rightarrow> nat \<Rightarrow> nat \<Rightarrow> valuePushReplicationState" where
  "pushReplicationConfig interval workers msgTimeout =
     \<lparr>ps_interval = interval, ps_workers = workers, ps_msgTimeout = msgTimeout * 1000000, ps_launcher = None\<rparr>"

definition pushReplicationStartup :: "valuePushReplicationState \<Rightarrow> valuePushReplicationState" where
  "pushReplicationStartup st =
     (case ps_launcher st of None \<Rightarrow> st\<lparr>ps_launcher := Some launcher_start\<rparr> | Some _ \<Rightarrow> st)"

definition pushReplicationShutdown_notify :: "nat \<Rightarrow> valuePushReplicationState \<Rightarrow> valuePushReplicationState" where
  "pushReplicationShutdown_notify c st = st\<lparr>ps_launcher := map_option (launcher_disable c) (ps_launcher st)\<rparr>"

definition pushReplicationShutdown_done :: "nat \<Rightarrow> valuePushReplicationState \<Rightarrow> valuePushReplicationState outcome" where
  "pushReplicationShutdown_done c st =
     (case ps_launcher st of None \<Rightarrow> Done st
      | Some l \<Rightarrow> if c \<in> set (la_done l) then Done (st\<lparr>ps_launcher := None\<rparr>) else Blocked)"

section \<open>One piece of work\<close>

text \<open>
  The callback of the scan: keys are listed until the bytes left in the message would not take another
  entry of the size of the last one.
\<close>

fun push_gather :: "'b layout \<Rightarrow> u64 \<Rightarrow> int \<Rightarrow> 'b scan_item list \<Rightarrow> 'b key list" where
  "push_gather Y tombstoneCutoff availableBytes [] = []"
| "push_gather Y tombstoneCutoff availableBytes ((keyA, keyB, timestampbits, len) # items) =
     (let inMsgLength = int (BULK_SET_MSG_ENTRY_HEADER_LENGTH Y) + int (unat len)
      in if timestampbits AND TSB_DELETION = 0 \<or> tombstoneCutoff \<le> timestampbits
         then (keyA, keyB) #
           (if availableBytes - inMsgLength < inMsgLength then []
            else push_gather Y tombstoneCutoff (availableBytes - inMsgLength) items)
         else push_gather Y tombstoneCutoff availableBytes items)"

definition push_wants :: "u64 \<Rightarrow> u64 \<Rightarrow> u64 \<Rightarrow> bool" where
  "push_wants cutoff tombstoneCutoff timestampbits \<longleftrightarrow>
     timestampbits AND TSB_LOCAL_REMOVAL = 0 \<and> timestampbits < cutoff \<and>
     (timestampbits AND TSB_DELETION = 0 \<or> tombstoneCutoff \<le> timestampbits)"

text \<open>
  A message is filled with what \<open>read\<close> gives for the keys: a value, or a deletion, which is reported
  as not found with a timestamp.  It ends when an entry does not fit.  Pull replication answers with
  the same loop, with its own condition and counter.
\<close>

fun bulk_fill ::
  "('m, 'b) locmap_ops \<Rightarrow> checksummed_read \<Rightarrow> 'b store_cfg \<Rightarrow> (u64 \<Rightarrow> bool) \<Rightarrow> (valueCounters \<Rightarrow> valueCounters) \<Rightarrow> 'b key list \<Rightarrow>
   valueBulkSetMsg \<times> 'm valueStore \<Rightarrow> (valueBulkSetMsg \<times> 'm valueStore) outcome" where
  "bulk_fill L rd cfg wants noted [] x = Done x"
| "bulk_fill L rd cfg wants noted ((keyA, keyB) # keys) (bsm, s) =
     bind_outcome (store_read L rd cfg keyA keyB [] s) (\<lambda>(timestampbits, valbuf, err).
       if IsNotFound err \<and> timestampbits = 0 \<or> \<not> IsNotFound err \<and> err \<noteq> None
       then bulk_fill L rd cfg wants noted keys (bsm, s)
       else if wants timestampbits
       then (case add (c_layout cfg) keyA keyB timestampbits valbuf bsm of
               (False, bsm') \<Rightarrow> Done (bsm', s)
             | (True, bsm') \<Rightarrow> bulk_fill L rd cfg wants noted keys (bsm', tally noted s))
       else bulk_fill L rd cfg wants noted keys (bsm, s))"

definition push_fill where
  "push_fill L rd cfg cutoff tombstoneCutoff =
     bulk_fill L rd cfg (push_wants cutoff tombstoneCutoff)
       (\<lambda>c. c\<lparr>ct_outBulkSetPushValues := ct_outBulkSetPushValues c + 1\<rparr>)"

text \<open>
  What a piece of work meets: the time in microseconds, whether the pass was aborted by then, and the
  ring there is by then.
\<close>

record push_env =
  pe_now :: u64
  pe_abort :: bool
  pe_ring :: "ring option"

text \<open>
  The state of a pass: the store, the messages of the bulk sets, and the messages handed to the other
  replicas of a partition.
\<close>

type_synonym 'm push_state = "'m valueStore \<times> valueBulkSetState \<times> (valueBulkSetMsg \<times> u32) list"

definition push_work ::
  "('m, 'b) locmap_ops \<Rightarrow> checksummed_read \<Rightarrow> 'b store_cfg \<Rightarrow> u64 \<Rightarrow> nat \<Rightarrow> ring \<Rightarrow> nat \<times> nat \<Rightarrow> push_env \<Rightarrow>
   'm push_state \<Rightarrow> 'm push_state outcome" where
  "push_work L rd cfg age workers rg x env y =
     (case y of (s, bst, sent) \<Rightarrow>
        let pbc = rg_partitionBitCount rg; timestampbitsNow = push_bit TSB_UTIL_BITS (pe_now env);
            cutoff = timestampbitsNow - c_replicationIgnoreRecent cfg;
            tombstoneCutoff = timestampbitsNow - age;
            (rangeBegin, rangeEnd) = work_range (64 - pbc) (push_bit pbc 1 - 1) (of_nat (workers - 1))
              (of_nat (fst x)) (of_nat (snd x));
            (items, _, _) = lm_ScanCallback L (st_locmap s) rangeBegin rangeEnd 0 TSB_LOCAL_REMOVAL cutoff (- 1);
            keys = push_gather (c_layout cfg) tombstoneCutoff (int (bs_msgCap bst)) items
        in if keys = [] \<or> pe_abort env then Done (s, bst, sent)
           else case pe_ring env of
             None \<Rightarrow> Done (s, bst, sent)
           | Some rg2 \<Rightarrow>
               if rg_version rg2 \<noteq> rg_version rg then Done (s, bst, sent)
               else bind_outcome (newOutBulkSetMsg (Some rg2) bst) (\<lambda>(bsm, bst').
                    bind_outcome (push_fill L rd cfg cutoff tombstoneCutoff keys (bsm, s)) (\<lambda>(bsm', s').
                      Done (tally (\<lambda>c. c\<lparr>ct_outBulkSetPushes := ct_outBulkSetPushes c + 1\<rparr>) s', bst',
                            sent @ [(bsm', of_nat (fst x))]))))"

section \<open>The pass\<close>

text \<open>The partitions each worker visits; a worker stops when the pass is aborted or the ring changes.\<close>

definition push_orders :: "nat \<Rightarrow> nat \<Rightarrow> (nat \<times> nat) list list" where
  "push_orders P W = expired_orders P W"

definition push_item where
  "push_item L rd cfg age workers rg x y =
     (case x of (pw, env) \<Rightarrow>
        if rg_responsible rg (of_nat (fst pw)) then Done y else push_work L rd cfg age workers rg pw env y)"

text \<open>\<open>mr\<close> is the message ring and its ring at the start of the pass.\<close>

definition pushReplicationPass ::
  "('m, 'b) locmap_ops \<Rightarrow> checksummed_read \<Rightarrow> 'b store_cfg \<Rightarrow> u64 \<Rightarrow> valuePushReplicationState \<Rightarrow> ring option option \<Rightarrow>
   ((nat \<times> nat) \<times> push_env) list \<Rightarrow> bool \<Rightarrow> i64 \<Rightarrow> 'm push_state bg_pass" where
  "pushReplicationPass L rd cfg age st mr sched took elapsed q y =
     (let stamp = (\<lambda>(s, bst, sent). (tally (\<lambda>c. c\<lparr>ct_outPushReplicationNanoseconds := elapsed\<rparr>) s, bst, sent))
      in case mr of
           None \<Rightarrow> Done (None, q, y)
         | Some None \<Rightarrow> Done (None, q, stamp y)
         | Some (Some rg) \<Rightarrow>
             if ps_workers st = 0 then Panic
             else bind_outcome (fold_outcome (push_item L rd cfg age (ps_workers st) rg) sched y) (\<lambda>y'.
                    Done (pass_result took q (stamp y'))))"

definition pushReplicationLauncher where
  "pushReplicationLauncher L rd cfg age st mr sched took elapsed =
     launcher_turn (pushReplicationPass L rd cfg age st mr sched took elapsed)"

interpretation push_pass: background_pass "pushReplicationPass L rd cfg age st mr sched took elapsed"
  for L :: "('m, 'b) locmap_ops" and rd cfg age st mr sched took elapsed
  by unfold_locales
    (auto simp: pushReplicationPass_def Let_def split: if_splits option.splits elim!: bind_outcome_DoneE
      dest!: pass_result_hands_back)

section \<open>What is sent\<close>

text \<open>An entry that may be sent: what the store gives for a key of the range, under the cutoffs.\<close>

definition sendable where
  "sendable L rd cfg lm blocks wants keys e \<longleftrightarrow>
     (case e of (a, b, ts, v) \<Rightarrow>
        (a, b) \<in> set keys \<and> wants ts \<and>
        (\<forall>s. st_locmap s = lm \<longrightarrow> st_locBlocks s = blocks \<longrightarrow>
           (\<exists>err. store_read L rd cfg a b [] s = Done (ts, v, err) \<and> (err = None \<or> err = Some ErrNotFound \<and> ts \<noteq> 0))))"

lemma bulk_fill_sound:
  assumes "bulk_fill L rd cfg wants noted keys (bsm, s) = Done (bsm', s')"
  shows "st_locmap s' = st_locmap s \<and> st_locBlocks s' = st_locBlocks s \<and> bm_header bsm' = bm_header bsm \<and>
    (\<exists>es. bm_body bsm' = bm_body bsm @ concat (map (bulk_put (c_layout cfg)) es) \<and>
      (\<forall>e \<in> set es. sendable L rd cfg (st_locmap s) (st_locBlocks s) wants keys e))"
  using assms
proof (induction keys arbitrary: bsm s)
  case (Cons k keys)
  obtain a b where k: "k = (a, b)" by (cases k)
  obtain ts v err where read: "store_read L rd cfg a b [] s = Done (ts, v, err)"
    using Cons.prems by (auto simp: k elim!: bind_outcome_DoneE)
  have mono: "sendable L rd cfg lm blocks wants keys e \<Longrightarrow> sendable L rd cfg lm blocks wants (k # keys) e" for lm blocks e
    by (auto simp: sendable_def split: prod.splits)
  have step: "bulk_fill L rd cfg wants noted (k # keys) (bsm, s) =
      (if IsNotFound err \<and> ts = 0 \<or> \<not> IsNotFound err \<and> err \<noteq> None \<or> \<not> wants ts
       then bulk_fill L rd cfg wants noted keys (bsm, s)
       else case add (c_layout cfg) a b ts v bsm of (False, bsm1) \<Rightarrow> Done (bsm1, s)
         | (True, bsm1) \<Rightarrow> bulk_fill L rd cfg wants noted keys
             (bsm1, tally noted s))"
    by (cases err) (simp_all add: k read)
  consider (skip) "bulk_fill L rd cfg wants noted keys (bsm, s) = Done (bsm', s')"
    | (full) "wants ts" "add (c_layout cfg) a b ts v bsm = (False, bsm')" "s' = s"
    | (more) bsm1 where "wants ts" "add (c_layout cfg) a b ts v bsm = (True, bsm1)"
        "bulk_fill L rd cfg wants noted keys (bsm1, tally noted s) = Done (bsm', s')"
        "err = None \<or> err = Some ErrNotFound \<and> ts \<noteq> 0"
  proof (cases "IsNotFound err \<and> ts = 0 \<or> \<not> IsNotFound err \<and> err \<noteq> None \<or> \<not> wants ts")
    case True
    then show thesis using Cons.prems skip unfolding step by simp
  next
    case False
    then have w: "wants ts" and err: "err = None \<or> err = Some ErrNotFound \<and> ts \<noteq> 0"
      by (auto simp: IsNotFound_def)
    obtain added bsm1 where add: "add (c_layout cfg) a b ts v bsm = (added, bsm1)" by (cases "add (c_layout cfg) a b ts v bsm")
    show thesis
    proof (cases added)
      case True
      then have "bulk_fill L rd cfg wants noted keys
          (bsm1, tally noted s) = Done (bsm', s')"
        using Cons.prems add False unfolding step by auto
      from more [OF w _ this err] add True show thesis by simp
    next
      case False': False
      then show thesis
        using Cons.prems w add False full unfolding step by auto
    qed
  qed
  then show ?case
  proof cases
    case skip
    from Cons.IH [OF this] show ?thesis using mono by blast
  next
    case full
    then have "bsm' = bsm" by (auto simp: add_def split: if_splits)
    then show ?thesis using full(3) by (auto intro!: exI [of _ "[]"])
  next
    case more
    have b1: "bm_body bsm1 = bm_body bsm @ bulk_put (c_layout cfg) (a, b, ts, v)" "bm_header bsm1 = bm_header bsm"
      using more(2) by (auto simp: add_def bulk_put_def split: if_splits)
    have new: "sendable L rd cfg (st_locmap s) (st_locBlocks s) wants (k # keys) (a, b, ts, v)"
      unfolding sendable_def k prod.case
    proof (intro conjI allI impI)
      fix s2 :: "'a valueStore"
      assume "st_locmap s2 = st_locmap s" "st_locBlocks s2 = st_locBlocks s"
      from store_read_cong [OF this, of L rd cfg a b "[]"] read
      show "\<exists>err. store_read L rd cfg a b [] s2 = Done (ts, v, err) \<and> (err = None \<or> err = Some ErrNotFound \<and> ts \<noteq> 0)"
        using more(4) by metis
    qed (use more(1) in simp_all)
    have same: "st_locmap (tally noted s) = st_locmap s" "st_locBlocks (tally noted s) = st_locBlocks s"
      by (simp_all add: tally_def)
    from Cons.IH [OF more(3)] obtain es where "bm_body bsm' = bm_body bsm1 @ concat (map (bulk_put (c_layout cfg)) es)"
      "\<forall>e \<in> set es. sendable L rd cfg (st_locmap s) (st_locBlocks s) wants keys e"
      "st_locmap s' = st_locmap s" "st_locBlocks s' = st_locBlocks s" "bm_header bsm' = bm_header bsm1"
      unfolding same by blast
    then show ?thesis
      using b1 new mono by (auto intro!: exI [of _ "(a, b, ts, v) # es"])
  qed
qed (auto intro!: exI [of _ "[]"])

lemma push_gather_sound:
  "(a, b) \<in> set (push_gather Y tc avail items) \<Longrightarrow>
   \<exists>ts len. (a, b, ts, len) \<in> set items \<and> (ts AND TSB_DELETION = 0 \<or> tc \<le> ts)"
  by (induction Y tc avail items rule: push_gather.induct) (auto simp: Let_def split: if_splits)

text \<open>The keys of a worker's range are keys of its partition.\<close>

lemma work_range_partition:
  assumes b: "0 < rg_partitionBitCount rg" "rg_partitionBitCount rg < 64"
    and W: "0 < W" "W \<le> 2 ^ (64 - rg_partitionBitCount rg)" and p: "p < 2 ^ rg_partitionBitCount rg" "w < W"
    and r: "work_range (64 - rg_partitionBitCount rg) (push_bit (rg_partitionBitCount rg) 1 - 1) (of_nat (W - 1))
      (of_nat p) (of_nat w) = (rb, re)" "rb \<le> a" "a \<le> re"
  shows "partition_of rg a = of_nat p"
proof -
  let ?b = "rg_partitionBitCount rg"
  have max: "push_bit ?b 1 - 1 = (of_nat (2 ^ (64 - (64 - ?b)) - 1) :: u64)"
    using b word_of_nat_pred [of "2 ^ ?b"] by simp
  have "unat a div 2 ^ (64 - ?b) = p"
    using work.in_range_iff [of "64 - ?b" W p w a] b W p r unfolding work.in_range_def max by auto
  then have "unat (drop_bit (64 - ?b) a) = p" by (simp only: unat_drop_bit_eq drop_bit_eq_div [where 'a = nat])
  then have "drop_bit (64 - ?b) a = of_nat p" by (auto simp: of_nat_unat)
  then show ?thesis by (simp add: partition_of_def unsigned_of_nat word_of_nat_eq_iff)
qed

section \<open>Properties\<close>

text \<open>
  C18. A push message tells the truth: what a worker sends for a partition is a well-formed sequence of
  entries, each of a key of that partition, each with the timestamp and the value the store reads for
  it, none marked for local removal, none newer than the cutoff and no expired deletion.
\<close>

theorem push_message_sound:
  assumes lm: "locmap_contract L" and b: "0 < rg_partitionBitCount rg" "rg_partitionBitCount rg < 64"
    and W: "0 < W" "W \<le> 2 ^ (64 - rg_partitionBitCount rg)" and p: "p < 2 ^ rg_partitionBitCount rg" "w < W"
    and work: "push_work L rd cfg age W rg (p, w) env (s, bst, sent) = Done (s', bst', sent')"
  shows "sent' = sent \<or> (\<exists>bsm es. sent' = sent @ [(bsm, of_nat p)] \<and> bm_body bsm = concat (map (bulk_put (c_layout cfg)) es) \<and>
    (\<forall>(a, b, ts, v) \<in> set es. partition_of rg a = of_nat p \<and>
       push_wants (push_bit TSB_UTIL_BITS (pe_now env) - c_replicationIgnoreRecent cfg)
         (push_bit TSB_UTIL_BITS (pe_now env) - age) ts \<and>
       (\<exists>err. store_read L rd cfg a b [] s = Done (ts, v, err) \<and> (err = None \<or> err = Some ErrNotFound \<and> ts \<noteq> 0))))"
proof (cases "sent' = sent")
  case False
  let ?pbc = "rg_partitionBitCount rg"
  define cutoff where "cutoff = push_bit TSB_UTIL_BITS (pe_now env) - c_replicationIgnoreRecent cfg"
  define tc where "tc = push_bit TSB_UTIL_BITS (pe_now env) - age"
  obtain rb re where r: "work_range (64 - ?pbc) (push_bit ?pbc 1 - 1) (of_nat (W - 1)) (of_nat p) (of_nat w) = (rb, re)"
    by (meson surj_pair)
  obtain items at again where scan: "lm_ScanCallback L (st_locmap s) rb re 0 TSB_LOCAL_REMOVAL cutoff (- 1) = (items, at, again)"
    by (metis prod_cases3)
  define keys where "keys = push_gather (c_layout cfg) tc (int (bs_msgCap bst)) items"
  note unfolded = work [unfolded push_work_def Let_def prod.case fst_conv snd_conv r scan cutoff_def [symmetric]
      tc_def [symmetric] keys_def [symmetric]]
  have key: "partition_of rg a = of_nat p" if "(a, b) \<in> set keys" for a b
    using push_gather_sound [OF that [unfolded keys_def]] locmap_contract.Scan_sound [OF lm scan]
      work_range_partition [OF b W p r] by blast
  obtain rg2 bsm bst1 bsm' s1 where "newOutBulkSetMsg (Some rg2) bst = Done (bsm, bst1)"
    and fill: "push_fill L rd cfg cutoff tc keys (bsm, s) = Done (bsm', s1)"
    and sent: "sent' = sent @ [(bsm', of_nat p)]"
    using False unfolded by (auto split: if_splits option.splits elim!: bind_outcome_DoneE) blast
  then have "bm_body bsm = []" by (auto simp: newOutBulkSetMsg_def Let_def split: list.splits)
  then obtain es where es: "bm_body bsm' = concat (map (bulk_put (c_layout cfg)) es)"
    "\<forall>e \<in> set es. sendable L rd cfg (st_locmap s) (st_locBlocks s) (push_wants cutoff tc) keys e"
    using bulk_fill_sound [OF fill [unfolded push_fill_def]] by auto
  show ?thesis
    unfolding cutoff_def [symmetric] tc_def [symmetric]
    by (intro disjI2 exI [of _ bsm'] exI [of _ es] conjI sent es(1))
      (use es(2) key in \<open>auto simp: sendable_def\<close>)
qed simp

text \<open>A store that holds one value in a memory block, and a ring for which it is not responsible.\<close>

definition store_one :: "u64 alm valueStore" where
  "store_one = store_new\<lparr>st_locmap := [((1, 2), (0x300, 1, 0, 2))],
     st_locBlocks := [1 \<mapsto> MemBlock \<lparr>mb_id = 1, mb_fileID = 0, mb_fileOffset = 0, mb_toc = [], mb_values = [7, 9]\<rparr>]\<rparr>"

definition push_ring :: ring where
  "push_ring = \<lparr>rg_partitionBitCount = 8, rg_responsible = (\<lambda>_. False), rg_localNode = Some 5, rg_version = 1\<rparr>"

lemma push_example:
  "\<exists>s' bst' bsm. push_work alm_ops (\<lambda>_ _ _ _. ([], None)) cfg_example 0 2 push_ring (0, 0)
     \<lparr>pe_now = 5, pe_abort = False, pe_ring = Some push_ring\<rparr> (store_one, bulkSetStartup (bulkSetConfig 100 1 0 1 1), []) =
   Done (s', bst', [(bsm, 0)]) \<and> bm_body bsm = bulk_put value_layout (1, 2, 0x300, [7, 9])"
proof -
  have range: "work_range 56 255 1 0 0 = (0, 0x7fffffffffffff)" by code_simp
  have items: "alm_items [((1, 2 :: u64), (0x300, 1, 0, 2))] 0 0x7fffffffffffff 0 TSB_LOCAL_REMOVAL (push_bit TSB_UTIL_BITS 5) =
      [(1, 2, 0x300, 2)]" by code_simp
  have scan: "lm_ScanCallback alm_ops [((1, 2 :: u64), (0x300, 1, 0, 2))] 0 0x7fffffffffffff 0 TSB_LOCAL_REMOVAL
      (push_bit TSB_UTIL_BITS 5) (- 1) = ([(1, 2, 0x300, 2)], 0x7fffffffffffff, False)"
    by (simp add: alm_ops_def alm_ScanCallback_def items Let_def unsigned_minus_1_eq_mask mask_eq_exp_minus_1)
  have gather: "push_gather value_layout (push_bit TSB_UTIL_BITS 5) 100 [(1, 2 :: u64, 0x300, 2)] = [(1, 2)]" by code_simp
  have wants [simp]: "push_wants (push_bit TSB_UTIL_BITS 5) (push_bit TSB_UTIL_BITS 5) 0x300" by code_simp
  have bits: "(0x300 :: u64) AND TSB_DELETION = 0" "(0x300 :: u64) AND TSB_LOCAL_REMOVAL = 0" by code_simp+
  have get: "lm_Get alm_ops [((1, 2 :: u64), (0x300, 1, 0, 2))] 1 2 = (0x300, 1, 0, 2)" by (simp add: alm_ops_def alm_Get_def)
  have read: "store_read alm_ops (\<lambda>_ _ _ _. ([], None)) cfg_example 1 2 [] store_one = Done (0x300, [7, 9], None)"
    unfolding store_read_def read_fuel_def numeral_2_eq_2
    by (simp add: store_one_def get bits locBlock_def MaxUint16_def)
  have recent: "c_replicationIgnoreRecent cfg_example = 0" "c_layout cfg_example = value_layout" by (simp_all add: cfg_example_def)
  show ?thesis
    by (simp add: push_work_def push_fill_def recent range bits scan gather wants read push_ring_def store_one_def [THEN arg_cong, of st_locmap]
        newOutBulkSetMsg_def bulkSetStartup_def bulkSetConfig_def add_def bulk_put_def IsNotFound_def
        Let_def bulk_set_sizes)
qed

theorem push_message_sound_witness:
  "\<exists>(bsm :: valueBulkSetMsg) es. bm_body bsm = bulk_put value_layout (1, 2, 0x300, [7, 9]) \<and> bm_body bsm = concat (map (bulk_put value_layout) es) \<and>
    (\<forall>(a, b, ts, v) \<in> set es. partition_of push_ring a = 0 \<and>
       push_wants (push_bit TSB_UTIL_BITS 5 - c_replicationIgnoreRecent cfg_example) (push_bit TSB_UTIL_BITS 5 - 0) ts \<and>
       (\<exists>err. store_read alm_ops (\<lambda>_ _ _ _. ([], None)) cfg_example a b [] store_one = Done (ts, v, err) \<and>
          (err = None \<or> err = Some ErrNotFound \<and> ts \<noteq> 0)))"
proof -
  obtain s' bst' bsm where ex: "push_work alm_ops (\<lambda>_ _ _ _. ([], None)) cfg_example 0 2 push_ring (0, 0)
      \<lparr>pe_now = 5, pe_abort = False, pe_ring = Some push_ring\<rparr> (store_one, bulkSetStartup (bulkSetConfig 100 1 0 1 1), []) =
    Done (s', bst', [(bsm, 0)])" and body: "bm_body bsm = bulk_put value_layout (1, 2, 0x300, [7, 9])"
    using push_example by blast
  have shape: "0 < rg_partitionBitCount push_ring" "rg_partitionBitCount push_ring < 64" "0 < (2 :: nat)"
    "2 \<le> (2 :: nat) ^ (64 - rg_partitionBitCount push_ring)" "0 < (2 :: nat) ^ rg_partitionBitCount push_ring"
    by (simp_all add: push_ring_def)
  have "[(bsm, 0 :: u32)] \<noteq> []" by simp
  with push_message_sound [OF alm.locmap_contract_axioms shape shape(3) ex] body
    cfg_example_def [THEN arg_cong, of c_layout] show ?thesis
    by - (rule exI [of _ bsm], simp)
qed

end
