(* ===== verification/Bloom.thy ===== *)
theory Bloom
  imports Messages Layout
begin

unbundle bit_operations_syntax

text \<open>
  The key and timestamp Bloom filter of pull replication (\<open>src/valuektbloomfilter_GEN_.go\<close>,
  \<open>src/groupktbloomfilter_GEN_.go\<close>) and the
  message that carries it.  The hash \<open>murmur3.Sum128\<close> is another package and a parameter.  The number
  of bytes and of hash rounds for \<open>n\<close> entries and error rate \<open>p\<close> come from floating point logarithms:
  they are a parameter \<open>dims\<close> too, a function of \<open>n\<close> and of the bits of \<open>p\<close>.
\<close>

section \<open>Fields of a header\<close>

lemma get_put_at:
  "i + 8 \<le> length buf \<Longrightarrow> getU64 (put_at buf i (putU64 x)) i = x"
  "i + 4 \<le> length buf \<Longrightarrow> getU32 (put_at buf i (putU32 w)) i = w"
  "i + 2 \<le> length buf \<Longrightarrow> getU16 (put_at buf i (putU16 v)) i = v"
  "j + 8 \<le> i \<Longrightarrow> i \<le> length buf \<Longrightarrow> getU64 (put_at buf i src) j = getU64 buf j"
  "j + 4 \<le> i \<Longrightarrow> i \<le> length buf \<Longrightarrow> getU32 (put_at buf i src) j = getU32 buf j"
  by (auto simp: getU64_def getU32_def getU16_def put_at_def drop_take min_def)

section \<open>The filter\<close>

definition VALUE_KT_BLOOM_FILTER_HEADER_BYTES :: nat where "VALUE_KT_BLOOM_FILTER_HEADER_BYTES = 20"

record valuePullReplicationMsg =
  pm_header :: bytes
  pm_body :: bytes

record valueKTBloomFilter =
  kt_n :: u64
  kt_p :: u64
  kt_salt :: u32
  kt_m :: u32
  kt_kDiv4 :: u32
  kt_bits :: bytes

type_synonym sum128 = "bytes \<Rightarrow> u64 \<times> u64"
type_synonym bloom_dims = "u64 \<Rightarrow> u64 \<Rightarrow> u32 \<times> u32"

definition newValueKTBloomFilter :: "bloom_dims \<Rightarrow> u64 \<Rightarrow> u64 \<Rightarrow> u16 \<Rightarrow> valueKTBloomFilter" where
  "newValueKTBloomFilter dims n p salt =
     (case dims n p of (bytesN, k) \<Rightarrow>
        \<lparr>kt_n = n, kt_p = p, kt_salt = push_bit 16 (ucast salt), kt_m = bytesN * 8, kt_kDiv4 = k,
         kt_bits = replicate (unat bytesN) 0\<rparr>)"

definition newValueKTBloomFilterFromMsg :: "bloom_dims \<Rightarrow> valuePullReplicationMsg \<Rightarrow> nat \<Rightarrow> valueKTBloomFilter" where
  "newValueKTBloomFilterFromMsg dims prm headerOffset =
     (let n = getU64 (pm_header prm) headerOffset; p = getU64 (pm_header prm) (headerOffset + 8);
          salt = getU16 (pm_header prm) (headerOffset + 16)
      in case dims n p of (bytesN, k) \<Rightarrow>
        \<lparr>kt_n = n, kt_p = p, kt_salt = push_bit 16 (ucast salt), kt_m = bytesN * 8, kt_kDiv4 = k,
         kt_bits = pm_body prm\<rparr>)"

text \<open>\<open>copy\<close> copies no more than fits.\<close>

definition toMsg :: "valueKTBloomFilter \<Rightarrow> valuePullReplicationMsg \<Rightarrow> nat \<Rightarrow> valuePullReplicationMsg" where
  "toMsg ktbf prm headerOffset =
     (let h1 = put_at (pm_header prm) headerOffset (putU64 (kt_n ktbf));
          h2 = put_at h1 (headerOffset + 8) (putU64 (kt_p ktbf));
          h3 = put_at h2 (headerOffset + 16) (putU16 (ucast (drop_bit 16 (kt_salt ktbf))))
      in prm\<lparr>pm_header := h3,
             pm_body := put_at (pm_body prm) 0 (take (length (pm_body prm)) (kt_bits ktbf))\<rparr>)"

section \<open>Adding and asking\<close>

text \<open>The four 32-bit hashes of one round, in the order the code uses them.\<close>

definition kt_hashes :: "'b layout \<Rightarrow> sum128 \<Rightarrow> u32 \<Rightarrow> u64 \<Rightarrow> 'b \<Rightarrow> u64 \<Rightarrow> u32 \<Rightarrow> u32 list" where
  "kt_hashes Y sum128 salt keyA keyB timestamp i =
     (case sum128 (putU32 (salt OR i) @ ly_put Y keyA keyB @ putU64 timestamp) of
        (h1, h2) \<Rightarrow> [ucast (drop_bit 32 h1), ucast (h1 AND 0xffffffff),
                     ucast (drop_bit 32 h2), ucast (h2 AND 0xffffffff)])"

text \<open>The rounds count down from \<open>kDiv4\<close> to 1.\<close>

definition kt_probes :: "'b layout \<Rightarrow> sum128 \<Rightarrow> valueKTBloomFilter \<Rightarrow> u64 \<Rightarrow> 'b \<Rightarrow> u64 \<Rightarrow> u32 list" where
  "kt_probes Y sum128 ktbf keyA keyB timestamp =
     concat (map (\<lambda>i. kt_hashes Y sum128 (kt_salt ktbf) keyA keyB timestamp (of_nat i))
       (rev [1..<Suc (unat (kt_kDiv4 ktbf))]))"

text \<open>Setting and testing one bit.  A filter of no bits divides by zero; a short slice is indexed past its end.\<close>

definition kt_set :: "u32 \<Rightarrow> u32 \<Rightarrow> bytes \<Rightarrow> bytes outcome" where
  "kt_set m h bits =
     (if m = 0 then Panic
      else let b = h mod m; j = unat (b div 8)
           in if j < length bits then Done (bits[j := (bits ! j) OR push_bit (unat (b mod 8)) 1]) else Panic)"

fun kt_test :: "u32 \<Rightarrow> bytes \<Rightarrow> u32 list \<Rightarrow> bool outcome" where
  "kt_test m bits [] = Done True"
| "kt_test m bits (h # hs) =
     (if m = 0 then Panic
      else let b = h mod m; j = unat (b div 8)
           in if \<not> j < length bits then Panic
              else if (bits ! j) AND push_bit (unat (b mod 8)) 1 = 0 then Done False
              else kt_test m bits hs)"

definition kt_add :: "'b layout \<Rightarrow> sum128 \<Rightarrow> u64 \<Rightarrow> 'b \<Rightarrow> u64 \<Rightarrow> valueKTBloomFilter \<Rightarrow> valueKTBloomFilter outcome" where
  "kt_add Y sum128 keyA keyB timestamp ktbf =
     bind_outcome (fold_outcome (kt_set (kt_m ktbf)) (kt_probes Y sum128 ktbf keyA keyB timestamp) (kt_bits ktbf))
       (\<lambda>bits. Done (ktbf\<lparr>kt_bits := bits\<rparr>))"

definition kt_mayHave :: "'b layout \<Rightarrow> sum128 \<Rightarrow> u64 \<Rightarrow> 'b \<Rightarrow> u64 \<Rightarrow> valueKTBloomFilter \<Rightarrow> bool outcome" where
  "kt_mayHave Y sum128 keyA keyB timestamp ktbf =
     kt_test (kt_m ktbf) (kt_bits ktbf) (kt_probes Y sum128 ktbf keyA keyB timestamp)"

definition kt_reset :: "u16 \<Rightarrow> valueKTBloomFilter \<Rightarrow> valueKTBloomFilter" where
  "kt_reset salt ktbf =
     ktbf\<lparr>kt_bits := map (\<lambda>_. 0) (kt_bits ktbf), kt_salt := push_bit 16 (ucast salt)\<rparr>"

section \<open>No false negatives\<close>

text \<open>A filter whose slice holds the bits it addresses.\<close>

definition kt_ok :: "valueKTBloomFilter \<Rightarrow> bool" where
  "kt_ok f \<longleftrightarrow> kt_m f \<noteq> 0 \<and> unat (kt_m f) \<le> 8 * length (kt_bits f)"

definition kt_has :: "u32 \<Rightarrow> bytes \<Rightarrow> u32 \<Rightarrow> bool" where
  "kt_has m bits h \<longleftrightarrow> bit (bits ! unat (h mod m div 8)) (unat (h mod m mod 8))"

lemma kt_index:
  fixes m :: u32
  assumes "m \<noteq> 0" "unat m \<le> 8 * n"
  shows "unat (h mod m div 8) < n"
proof -
  have "h mod m < m" using assms(1) by (simp add: word_mod_less_divisor word_neq_0_conv)
  then have "unat (h mod m) < 8 * n" using assms(2) by (simp add: word_less_nat_alt)
  then show ?thesis by (simp add: unat_div less_mult_imp_div_less mult.commute)
qed

lemma and_single_bit: "k < 8 \<Longrightarrow> (x :: u8) AND push_bit k 1 = 0 \<longleftrightarrow> \<not> bit x k"
  by (metis and_exp_eq_0_iff_not_bit push_bit_of_1)

lemma mod8_less: "unat ((h :: u32) mod 8) < 8"
  by (simp add: unat_mod)

lemma kt_test_iff:
  assumes "m \<noteq> 0" "unat m \<le> 8 * length bits"
  shows "kt_test m bits hs = Done (\<forall>h \<in> set hs. kt_has m bits h)"
  using kt_index [OF assms] and_single_bit [OF mod8_less] assms(1)
  by (induction hs) (auto simp: kt_has_def Let_def)

lemma kt_set_ok:
  assumes "m \<noteq> 0" "unat m \<le> 8 * length bits"
  shows "\<exists>bits'. kt_set m h bits = Done bits' \<and> length bits' = length bits \<and> kt_has m bits' h \<and>
    (\<forall>h'. kt_has m bits h' \<longrightarrow> kt_has m bits' h')"
  using kt_index [OF assms] assms(1) mod8_less
  by (auto simp: kt_set_def kt_has_def Let_def nth_list_update bit_simps)

lemma kt_sets_ok:
  assumes "m \<noteq> 0" "unat m \<le> 8 * length bits"
  shows "\<exists>bits'. fold_outcome (kt_set m) hs bits = Done bits' \<and> length bits' = length bits \<and>
    (\<forall>h \<in> set hs. kt_has m bits' h) \<and> (\<forall>h. kt_has m bits h \<longrightarrow> kt_has m bits' h)"
  using assms(2)
proof (induction hs arbitrary: bits)
  case (Cons h hs)
  obtain b1 where b1: "kt_set m h bits = Done b1" "length b1 = length bits" "kt_has m b1 h"
    "\<forall>h'. kt_has m bits h' \<longrightarrow> kt_has m b1 h'" using kt_set_ok [OF assms(1) Cons.prems, of h] by blast
  with Cons.prems Cons.IH [of b1] show ?case by auto
qed simp

fun kt_addAll :: "'b layout \<Rightarrow> sum128 \<Rightarrow> (u64 \<times> 'b \<times> u64) list \<Rightarrow> valueKTBloomFilter \<Rightarrow> valueKTBloomFilter outcome" where
  "kt_addAll Y sum128 [] f = Done f"
| "kt_addAll Y sum128 ((a, b, ts) # es) f = bind_outcome (kt_add Y sum128 a b ts f) (kt_addAll Y sum128 es)"

lemma kt_add_ok:
  assumes "kt_ok f"
  shows "\<exists>f'. kt_add Y sum128 a b ts f = Done f' \<and> kt_ok f' \<and> kt_mayHave Y sum128 a b ts f' = Done True \<and>
    (\<forall>a' b' ts'. kt_probes Y sum128 f' a' b' ts' = kt_probes Y sum128 f a' b' ts') \<and>
    (\<forall>h. kt_has (kt_m f) (kt_bits f) h \<longrightarrow> kt_has (kt_m f') (kt_bits f') h)"
proof -
  have m: "kt_m f \<noteq> 0" "unat (kt_m f) \<le> 8 * length (kt_bits f)" using assms by (simp_all add: kt_ok_def)
  obtain bits where b: "fold_outcome (kt_set (kt_m f)) (kt_probes Y sum128 f a b ts) (kt_bits f) = Done bits"
    "length bits = length (kt_bits f)" "\<forall>h \<in> set (kt_probes Y sum128 f a b ts). kt_has (kt_m f) bits h"
    "\<forall>h. kt_has (kt_m f) (kt_bits f) h \<longrightarrow> kt_has (kt_m f) bits h"
    using kt_sets_ok [OF m] by blast
  have p: "kt_probes Y sum128 (f\<lparr>kt_bits := bits\<rparr>) a' b' ts' = kt_probes Y sum128 f a' b' ts'" for a' b' ts'
    by (simp add: kt_probes_def)
  show ?thesis
    using m b p kt_test_iff [of "kt_m f" bits "kt_probes Y sum128 f a b ts"]
    by (simp add: kt_add_def kt_ok_def kt_mayHave_def)
qed

lemma kt_mayHave_mono:
  assumes "kt_ok f" "kt_ok f'" "kt_mayHave Y sum128 a b ts f = Done True"
    "kt_probes Y sum128 f' a b ts = kt_probes Y sum128 f a b ts"
    "\<forall>h. kt_has (kt_m f) (kt_bits f) h \<longrightarrow> kt_has (kt_m f') (kt_bits f') h"
  shows "kt_mayHave Y sum128 a b ts f' = Done True"
  using assms by (auto simp: kt_mayHave_def kt_ok_def kt_test_iff)

lemma kt_addAll_ok:
  assumes "kt_ok f"
  shows "\<exists>f'. kt_addAll Y sum128 es f = Done f' \<and> kt_ok f' \<and>
    (\<forall>a b ts. (a, b, ts) \<in> set es \<or> kt_mayHave Y sum128 a b ts f = Done True \<longrightarrow> kt_mayHave Y sum128 a b ts f' = Done True)"
  using assms
proof (induction es arbitrary: f)
  case (Cons e es)
  obtain a b ts where e: "e = (a, b, ts)" by (cases e)
  obtain f1 where f1: "kt_add Y sum128 a b ts f = Done f1" "kt_ok f1" "kt_mayHave Y sum128 a b ts f1 = Done True"
    "\<forall>a' b' ts'. kt_probes Y sum128 f1 a' b' ts' = kt_probes Y sum128 f a' b' ts'"
    "\<forall>h. kt_has (kt_m f) (kt_bits f) h \<longrightarrow> kt_has (kt_m f1) (kt_bits f1) h"
    using kt_add_ok [OF Cons.prems, of Y sum128 a b ts] by blast
  have "kt_mayHave Y sum128 a' b' ts' f1 = Done True" if "kt_mayHave Y sum128 a' b' ts' f = Done True" for a' b' ts'
    using kt_mayHave_mono [OF Cons.prems f1(2) that] f1(4,5) by blast
  with Cons.IH [OF f1(2)] f1(1,3) show ?case by (auto simp: e)
qed auto

section \<open>Through a message\<close>

text \<open>A filter as the sender has it: of the size its parameters give, with a salt of 16 bits.\<close>

definition ktbf_made :: "bloom_dims \<Rightarrow> valueKTBloomFilter \<Rightarrow> bool" where
  "ktbf_made dims f \<longleftrightarrow> kt_m f = fst (dims (kt_n f) (kt_p f)) * 8 \<and> kt_kDiv4 f = snd (dims (kt_n f) (kt_p f)) \<and>
     (\<exists>salt :: u16. kt_salt f = push_bit 16 (ucast salt))"

lemma toMsg_fromMsg:
  assumes "ktbf_made dims f" "length (pm_body prm) = length (kt_bits f)"
    "off + VALUE_KT_BLOOM_FILTER_HEADER_BYTES \<le> length (pm_header prm)"
  shows "newValueKTBloomFilterFromMsg dims (toMsg f prm off) off = f"
proof -
  obtain salt :: u16 where salt: "kt_salt f = push_bit 16 (ucast salt)" using assms(1) by (auto simp: ktbf_made_def)
  have len: "off + 20 \<le> length (pm_header prm)" using assms(3) by (simp add: VALUE_KT_BLOOM_FILTER_HEADER_BYTES_def)
  have unsalt: "ucast (drop_bit 16 (push_bit 16 (ucast salt :: u32))) = salt"
    by (rule bit_word_eqI) (auto simp: bit_simps)
  have "kt_bits f = pm_body (toMsg f prm off)"
    using assms(2) by (simp add: toMsg_def put_at_def Let_def)
  then show ?thesis
    using len assms(1) salt unsalt
    by (simp add: newValueKTBloomFilterFromMsg_def toMsg_def Let_def get_put_at ktbf_made_def split: prod.splits)
qed

text \<open>What stays of a filter when entries are added or it is reset.\<close>

lemma kt_set_length: "fold_outcome (kt_set m) hs bits = Done bits' \<Longrightarrow> length bits' = length bits"
  by (rule fold_outcome_inv [where I = "\<lambda>b. length b = length bits"])
    (auto simp: kt_set_def Let_def split: if_splits)

lemma kt_addAll_keeps:
  "kt_addAll Y sum128 es f = Done f' \<Longrightarrow> \<exists>bits. f' = f\<lparr>kt_bits := bits\<rparr> \<and> length bits = length (kt_bits f)"
proof (induction es arbitrary: f)
  case (Cons e es)
  obtain a b ts where e: "e = (a, b, ts)" by (cases e)
  obtain f1 where f1: "kt_add Y sum128 a b ts f = Done f1" "kt_addAll Y sum128 es f1 = Done f'"
    using Cons.prems by (auto simp: e elim!: bind_outcome_DoneE)
  obtain bits where "f1 = f\<lparr>kt_bits := bits\<rparr>" "length bits = length (kt_bits f)"
    using f1(1) kt_set_length by (fastforce simp: kt_add_def elim!: bind_outcome_DoneE)
  with Cons.IH [OF f1(2)] show ?case by auto
qed (auto intro!: exI [of _ "kt_bits f'"])

lemma ktbf_made_new: "ktbf_made dims (newValueKTBloomFilter dims n p salt)"
  by (auto simp: ktbf_made_def newValueKTBloomFilter_def split: prod.splits)

lemma kt_reset_keeps:
  "ktbf_made dims f \<Longrightarrow> ktbf_made dims (kt_reset salt f)" "kt_ok f \<Longrightarrow> kt_ok (kt_reset salt f)"
  by (auto simp: ktbf_made_def kt_ok_def kt_reset_def)

section \<open>Properties\<close>

text \<open>
  C24. The filter has no false negatives: a filter made for some size, filled with any entries in any
  order, neither panics nor denies one of them.
\<close>

theorem bloom_no_false_negative:
  assumes "dims n p = (bytesN, k)" "bytesN \<noteq> 0" "8 * unat bytesN < 2 ^ 32" "(a, b, ts) \<in> set es"
  shows "\<exists>f. kt_addAll Y sum128 es (newValueKTBloomFilter dims n p salt) = Done f \<and>
    kt_mayHave Y sum128 a b ts f = Done True"
proof -
  have "unat (bytesN * 8) = 8 * unat bytesN" using assms(3) by (simp add: unat_word_ariths)
  then have "kt_ok (newValueKTBloomFilter dims n p salt)"
    using assms(1,2) by (auto simp: kt_ok_def newValueKTBloomFilter_def unat_eq_zero [symmetric] simp del: unat_eq_zero)
  from kt_addAll_ok [OF this, of Y sum128 es] assms(4) show ?thesis by blast
qed

definition bloom_hash_example :: sum128 where
  "bloom_hash_example bs = (sum_list (map ucast bs) * 0x9e3779b97f4a7c15, sum_list (map ucast bs))"

theorem bloom_no_false_negative_witness:
  "\<exists>f. kt_addAll group_layout bloom_hash_example [(1, (2, 3, 4), 0x300)] (newValueKTBloomFilter (\<lambda>_ _. (2, 1)) 10 5 3) = Done f \<and>
    kt_mayHave group_layout bloom_hash_example 1 (2, 3, 4) 0x300 f = Done True"
  by (rule bloom_no_false_negative [where bytesN = 2 and k = 1]) simp_all

end
