(* ===== verification/PullReplication.thy ===== *)
theory PullReplication
  imports Bloom PushReplication
begin

unbundle bit_operations_syntax

text \<open>
  Pull replication (\<open>src/valuepullreplication_GEN_.go\<close>): each node sends Bloom filters of what it has
  to the other replicas of its partitions, and they answer with bulk-set messages of what the filters
  deny.  The filter is in \<open>Bloom\<close>, the loop that fills an answer in \<open>PushReplication\<close>.
\<close>

section \<open>State\<close>

fun PULL_REPLICATION_MSG_TYPE :: "template \<Rightarrow> u64" where
  "PULL_REPLICATION_MSG_TYPE ValueStore = 0x579c4bd162f045b3"
| "PULL_REPLICATION_MSG_TYPE GroupStore = 0x34bf87953e59e8d1"

definition VALUE_PULL_REPLICATION_MSG_HEADER_BYTES :: nat where "VALUE_PULL_REPLICATION_MSG_HEADER_BYTES = 44"

lemmas pull_sizes = VALUE_PULL_REPLICATION_MSG_HEADER_BYTES_def VALUE_KT_BLOOM_FILTER_HEADER_BYTES_def

text \<open>\<open>pl_inStarted\<close> says whether \<open>inNotifyChan\<close> is there; \<open>pl_outLauncher\<close> stands for \<open>outNotifyChan\<close>.\<close>

record valuePullReplicationState =
  pl_inWorkers :: nat
  pl_inMsgs :: nat
  pl_inResponseMsgTimeout :: nat
  pl_outInterval :: nat
  pl_outIteration :: u16
  pl_outWorkers :: u64
  pl_outMsgs :: nat
  pl_outMsgTimeout :: nat
  pl_outBloomN :: u64
  pl_outBloomP :: u64
  pl_inStarted :: bool
  pl_inMsgChan :: "valuePullReplicationMsg option list"
  pl_inFreeMsgChan :: "valuePullReplicationMsg list"
  pl_inRunning :: nat
  pl_outLauncher :: "launcher option"
  pl_outMsgChan :: "valuePullReplicationMsg list"
  pl_outKTBFs :: "valueKTBloomFilter list"

text \<open>The part of the configuration it uses; \<open>random\<close> is what \<open>Rand\<close> gives.\<close>

record pullReplicationCfg =
  pc_inWorkers :: nat
  pc_inMsgs :: nat
  pc_inResponseMsgTimeout :: nat
  pc_outInterval :: nat
  pc_outWorkers :: nat
  pc_outMsgs :: nat
  pc_outMsgTimeout :: nat
  pc_outBloomN :: nat
  pc_outBloomP :: u64

definition pullReplicationConfig :: "pullReplicationCfg \<Rightarrow> u32 \<Rightarrow> valuePullReplicationState" where
  "pullReplicationConfig cfg random =
     \<lparr>pl_inWorkers = pc_inWorkers cfg, pl_inMsgs = pc_inMsgs cfg,
      pl_inResponseMsgTimeout = pc_inResponseMsgTimeout cfg * 1000000, pl_outInterval = pc_outInterval cfg,
      pl_outIteration = ucast random, pl_outWorkers = of_nat (pc_outWorkers cfg), pl_outMsgs = pc_outMsgs cfg,
      pl_outMsgTimeout = pc_outMsgTimeout cfg * 1000000, pl_outBloomN = of_nat (pc_outBloomN cfg),
      pl_outBloomP = pc_outBloomP cfg, pl_inStarted = False, pl_inMsgChan = [], pl_inFreeMsgChan = [], pl_inRunning = 0,
      pl_outLauncher = None, pl_outMsgChan = [], pl_outKTBFs = []\<rparr>"

abbreviation pull_header_size :: nat where
  "pull_header_size \<equiv> VALUE_KT_BLOOM_FILTER_HEADER_BYTES + VALUE_PULL_REPLICATION_MSG_HEADER_BYTES"

definition inPullReplicationStartup :: "valuePullReplicationState \<Rightarrow> valuePullReplicationState" where
  "inPullReplicationStartup st =
     (if pl_inStarted st then st
      else st\<lparr>pl_inStarted := True, pl_inMsgChan := [],
              pl_inFreeMsgChan := replicate (pl_inMsgs st) \<lparr>pm_header = replicate pull_header_size 0, pm_body = []\<rparr>,
              pl_inRunning := pl_inWorkers st\<rparr>)"

definition inPullReplicationLauncher :: "bgNotificationAction \<Rightarrow> valuePullReplicationState \<Rightarrow> valuePullReplicationState" where
  "inPullReplicationLauncher action st =
     (if action = BG_DISABLE
      then st\<lparr>pl_inMsgChan := pl_inMsgChan st @ replicate (pl_inWorkers st) None\<rparr> else st)"

definition inPullReplicationShutdown_notify :: "valuePullReplicationState \<Rightarrow> valuePullReplicationState" where
  "inPullReplicationShutdown_notify st = (if pl_inStarted st then inPullReplicationLauncher BG_DISABLE st else st)"

definition inPullReplicationShutdown_done :: "valuePullReplicationState \<Rightarrow> valuePullReplicationState outcome" where
  "inPullReplicationShutdown_done st =
     (if \<not> pl_inStarted st then Done st
      else if 0 < pl_inRunning st then Blocked
      else Done (st\<lparr>pl_inStarted := False, pl_inMsgChan := [], pl_inFreeMsgChan := []\<rparr>))"

definition outPullReplicationStartupHelper :: "bloom_dims \<Rightarrow> valuePullReplicationState \<Rightarrow> valuePullReplicationState" where
  "outPullReplicationStartupHelper dims st =
     (let ktbf = newValueKTBloomFilter dims (pl_outBloomN st) (pl_outBloomP st) 0
      in st\<lparr>pl_outLauncher := Some launcher_start, pl_outKTBFs := [ktbf],
            pl_outMsgChan := replicate (pl_outMsgs st)
              \<lparr>pm_header = replicate pull_header_size 0, pm_body = replicate (length (kt_bits ktbf)) 0\<rparr>\<rparr>)"

definition outPullReplicationStartup :: "bloom_dims \<Rightarrow> valuePullReplicationState \<Rightarrow> valuePullReplicationState" where
  "outPullReplicationStartup dims st =
     (case pl_outLauncher st of None \<Rightarrow> outPullReplicationStartupHelper dims st | Some _ \<Rightarrow> st)"

definition outPullReplicationShutdownHelper :: "valuePullReplicationState \<Rightarrow> valuePullReplicationState" where
  "outPullReplicationShutdownHelper st = st\<lparr>pl_outLauncher := None, pl_outMsgChan := [], pl_outKTBFs := []\<rparr>"

definition outPullReplicationShutdown_notify :: "nat \<Rightarrow> valuePullReplicationState \<Rightarrow> valuePullReplicationState" where
  "outPullReplicationShutdown_notify c st = st\<lparr>pl_outLauncher := map_option (launcher_disable c) (pl_outLauncher st)\<rparr>"

definition outPullReplicationShutdown_done :: "nat \<Rightarrow> valuePullReplicationState \<Rightarrow> valuePullReplicationState outcome" where
  "outPullReplicationShutdown_done c st =
     (case pl_outLauncher st of None \<Rightarrow> Done st
      | Some l \<Rightarrow> if c \<in> set (la_done l) then Done (outPullReplicationShutdownHelper st) else Blocked)"

definition pullReplicationStartup :: "bloom_dims \<Rightarrow> valuePullReplicationState \<Rightarrow> valuePullReplicationState" where
  "pullReplicationStartup dims st = outPullReplicationStartup dims (inPullReplicationStartup st)"

section \<open>The message\<close>

definition pull_MsgLength :: "valuePullReplicationMsg \<Rightarrow> u64" where
  "pull_MsgLength prm = of_nat (length (pm_header prm)) + of_nat (length (pm_body prm))"

definition pull_nodeID :: "valuePullReplicationMsg \<Rightarrow> u64" where
  "pull_nodeID prm = getU64 (pm_header prm) 0"

definition ringVersion :: "valuePullReplicationMsg \<Rightarrow> i64" where
  "ringVersion prm = getU64 (pm_header prm) 8"

definition pull_partition :: "valuePullReplicationMsg \<Rightarrow> u32" where
  "pull_partition prm = getU32 (pm_header prm) 16"

definition pull_cutoff :: "valuePullReplicationMsg \<Rightarrow> u64" where
  "pull_cutoff prm = getU64 (pm_header prm) 20"

definition rangeStart :: "valuePullReplicationMsg \<Rightarrow> u64" where
  "rangeStart prm = getU64 (pm_header prm) 28"

definition rangeStop :: "valuePullReplicationMsg \<Rightarrow> u64" where
  "rangeStop prm = getU64 (pm_header prm) 36"

definition ktBloomFilter :: "bloom_dims \<Rightarrow> valuePullReplicationMsg \<Rightarrow> valueKTBloomFilter" where
  "ktBloomFilter dims prm = newValueKTBloomFilterFromMsg dims prm VALUE_PULL_REPLICATION_MSG_HEADER_BYTES"

text \<open>\<open>WriteContent\<close> to a writer that takes \<open>room\<close> bytes: what was written and whether it failed.\<close>

definition pull_WriteContent :: "nat \<Rightarrow> valuePullReplicationMsg \<Rightarrow> bytes \<times> bool" where
  "pull_WriteContent room prm =
     (if room < length (pm_header prm) then (take room (pm_header prm), True)
      else let left = room - length (pm_header prm)
           in (pm_header prm @ take left (pm_body prm), left < length (pm_body prm)))"

definition pull_Free :: "valuePullReplicationMsg \<Rightarrow> valuePullReplicationState \<Rightarrow> valuePullReplicationState" where
  "pull_Free prm st = st\<lparr>pl_outMsgChan := pl_outMsgChan st @ [prm]\<rparr>"

definition newOutPullReplicationMsg ::
  "ring option \<Rightarrow> i64 \<Rightarrow> u32 \<Rightarrow> u64 \<Rightarrow> u64 \<Rightarrow> u64 \<Rightarrow> valueKTBloomFilter \<Rightarrow> valuePullReplicationState \<Rightarrow>
   (valuePullReplicationMsg \<times> valuePullReplicationState) outcome" where
  "newOutPullReplicationMsg rg version part cutoff start stop ktbf st =
     (case pl_outMsgChan st of [] \<Rightarrow> Blocked
      | prm # free \<Rightarrow>
        let h0 = (case rg of None \<Rightarrow> pm_header prm
              | Some ring \<Rightarrow> (case rg_localNode ring of None \<Rightarrow> pm_header prm
                             | Some n \<Rightarrow> put_at (pm_header prm) 0 (putU64 n)));
            h1 = put_at h0 8 (putU64 version);
            h2 = put_at h1 16 (putU32 part);
            h3 = put_at h2 20 (putU64 cutoff);
            h4 = put_at h3 28 (putU64 start);
            h5 = put_at h4 36 (putU64 stop)
        in Done (toMsg ktbf (prm\<lparr>pm_header := h5\<rparr>) VALUE_PULL_REPLICATION_MSG_HEADER_BYTES,
                 st\<lparr>pl_outMsgChan := free\<rparr>))"

section \<open>Receiving\<close>

text \<open>
  The loops that read the header and the body look at the error of the last \<open>Read\<close> before the next one:
  an error that comes with the last bytes of the header ends the loop of the body, one that comes with
  the last bytes of the body is not seen.  The result is what was read, the error returned, the error
  pending, and the rest.
\<close>

function read_late :: "nat \<Rightarrow> go_error option \<Rightarrow> bytes \<Rightarrow> reader \<Rightarrow> bytes \<times> go_error option \<times> go_error option \<times> reader" where
  "read_late left err acc r =
     (if left = 0 then (acc, None, err, r)
      else case err of
        Some e \<Rightarrow> (acc, Some e, err, r)
      | None \<Rightarrow> (case reader_read left r of (c, err', r') \<Rightarrow> read_late (left - length c) err' (acc @ c) r'))"
  by pat_completeness auto

lemma reader_read_late:
  "reader_read n r = (c, e, r') \<Longrightarrow> 0 < n \<Longrightarrow>
   length r' + (n - length c) + (if e = None then 1 else 0) < length r + n + 1"
  by (cases "(n, r)" rule: reader_read.cases) (auto split: if_splits)

termination read_late
  by (relation "measure (\<lambda>(left, err, _, r). length r + left + (if err = None then 1 else 0))")
    (auto dest!: sym [of "(_, _, _)"] reader_read_late)

declare read_late.simps [simp del]

text \<open>What \<open>make\<close> can allocate; a longer slice panics.\<close>

definition max_alloc :: nat where "max_alloc = 2 ^ 48"

abbreviation inPull_invalid :: "'m valueStore \<Rightarrow> 'm valueStore" where
  "inPull_invalid \<equiv> tally (\<lambda>c. c\<lparr>ct_inPullReplicationInvalids := ct_inPullReplicationInvalids c + 1\<rparr>)"

text \<open>
  The length of the body is that of the message less that of the headers, in 64 bits.  What a failed
  read leaves in the slices of the message it returns is overwritten by the next one.
\<close>

definition newInPullReplicationMsg ::
  "reader \<Rightarrow> u64 \<Rightarrow> valuePullReplicationState \<Rightarrow> 'm valueStore \<Rightarrow>
   ((nat \<times> go_error option) \<times> reader \<times> valuePullReplicationState \<times> 'm valueStore) outcome" where
  "newInPullReplicationMsg r l st s =
     (case pl_inFreeMsgChan st of
        [] \<Rightarrow>
          (case read_toss (unat l) r of
             (left, Some err, r') \<Rightarrow> Done ((unat l - left, Some err), r', st, inPull_invalid s)
           | (_, None, r') \<Rightarrow>
               Done ((unat l, None), r', st,
                 tally (\<lambda>c. c\<lparr>ct_inPullReplicationDrops := ct_inPullReplicationDrops c + 1\<rparr>) s))
      | prm # free \<Rightarrow>
          let bl = unat (l - of_nat VALUE_PULL_REPLICATION_MSG_HEADER_BYTES - of_nat VALUE_KT_BLOOM_FILTER_HEADER_BYTES)
          in if max_alloc < bl then Panic
             else case read_late (length (pm_header prm)) None [] r of
                 (header, Some err, _, r') \<Rightarrow>
                   Done ((length header, Some err), r', st\<lparr>pl_inFreeMsgChan := free @ [prm]\<rparr>, inPull_invalid s)
               | (header, None, pending, r') \<Rightarrow>
                   (case read_late bl pending [] r' of
                      (body, Some err, _, r'') \<Rightarrow>
                        Done ((length header + length body, Some err), r'',
                          st\<lparr>pl_inFreeMsgChan := free @ [prm\<lparr>pm_header := header\<rparr>]\<rparr>, inPull_invalid s)
                    | (body, None, _, r'') \<Rightarrow>
                        Done ((unat l, None), r'',
                          st\<lparr>pl_inFreeMsgChan := free,
                             pl_inMsgChan := pl_inMsgChan st @ [Some \<lparr>pm_header = header, pm_body = body\<rparr>]\<rparr>,
                          tally (\<lambda>c. c\<lparr>ct_inPullReplications := ct_inPullReplications c + 1\<rparr>) s)))"

section \<open>Answering\<close>

text \<open>What the answer asks of the ring besides: the number of replicas and which one this node is.\<close>

record pull_ring = ring +
  rg_replicaCount :: nat
  rg_nodeCount :: nat
  rg_responsibleReplica :: "u32 \<Rightarrow> int"

text \<open>The callback of the scans: the keys so far and the room left.\<close>

fun pull_gather ::
  "'b layout \<Rightarrow> sum128 \<Rightarrow> valueKTBloomFilter \<Rightarrow> u64 \<Rightarrow> 'b scan_item list \<Rightarrow> 'b key list \<times> int \<Rightarrow> ('b key list \<times> int) outcome" where
  "pull_gather Y sum128 ktbf tombstoneCutoff [] x = Done x"
| "pull_gather Y sum128 ktbf tombstoneCutoff ((keyA, keyB, timestampbits, len) # items) (k, l) =
     (if timestampbits AND TSB_DELETION = 0 \<or> tombstoneCutoff \<le> timestampbits
      then bind_outcome (kt_mayHave Y sum128 keyA keyB timestampbits ktbf) (\<lambda>may.
             if may then pull_gather Y sum128 ktbf tombstoneCutoff items (k, l)
             else let k' = k @ [(keyA, keyB)]; l' = l - (int (BULK_SET_MSG_ENTRY_HEADER_LENGTH Y) + int (unat len))
                  in if l' \<le> 0 then Done (k', l') else pull_gather Y sum128 ktbf tombstoneCutoff items (k', l'))
      else pull_gather Y sum128 ktbf tombstoneCutoff items (k, l))"

text \<open>
  The scan starts at a point that depends on the replica this node is, and wraps to the start of the
  range when there is room left.
\<close>

definition scan_start :: "pull_ring \<Rightarrow> valuePullReplicationMsg \<Rightarrow> u64 outcome" where
  "scan_start rg prm =
     (let responsible = rg_responsibleReplica rg (partition_of (ring.truncate rg) (rangeStart prm));
          replica = (if responsible < 0 then 0 else responsible)
      in if (of_nat (rg_replicaCount rg) :: u64) = 0 then Panic
         else Done (rangeStart prm + (rangeStop prm - rangeStart prm) div of_nat (rg_replicaCount rg) * of_int replica))"

definition pull_keys ::
  "'b layout \<Rightarrow> ('m, 'b) locmap_ops \<Rightarrow> sum128 \<Rightarrow> bloom_dims \<Rightarrow> nat \<Rightarrow> u64 \<Rightarrow> pull_ring \<Rightarrow> valuePullReplicationMsg \<Rightarrow> 'm \<Rightarrow> ('b key list \<times> int) outcome" where
  "pull_keys Y L sum128 dims msgCap tombstoneCutoff rg prm lm =
     bind_outcome (scan_start rg prm) (\<lambda>scanStart.
       let gather = pull_gather Y sum128 (ktBloomFilter dims prm) tombstoneCutoff;
           scan = (\<lambda>from to. fst (lm_ScanCallback L lm from to 0 TSB_LOCAL_REMOVAL (pull_cutoff prm) (- 1)))
       in bind_outcome (gather (scan scanStart (rangeStop prm)) ([], int msgCap)) (\<lambda>(k, l).
            if scanStart \<noteq> rangeStart prm \<and> 0 < l then gather (scan (rangeStart prm) (scanStart - 1)) (k, l)
            else Done (k, l)))"

text \<open>What the answer meets: the time in microseconds, the ring, and the ring the new message asks.\<close>

record pull_answer_env =
  an_now :: u64
  an_ring :: "pull_ring option option"
  an_msgRing :: "ring option"

text \<open>A worker takes one message.  \<open>sent\<close> is what was handed to the ring for which node.\<close>

definition inPullReplication ::
  "('m, 'b) locmap_ops \<Rightarrow> checksummed_read \<Rightarrow> sum128 \<Rightarrow> bloom_dims \<Rightarrow> 'b store_cfg \<Rightarrow> u64 \<Rightarrow> pull_answer_env \<Rightarrow>
   'm valueStore \<times> valuePullReplicationState \<times> valueBulkSetState \<times> (valueBulkSetMsg \<times> u64) list \<Rightarrow>
   ('m valueStore \<times> valuePullReplicationState \<times> valueBulkSetState \<times> (valueBulkSetMsg \<times> u64) list) outcome" where
  "inPullReplication L rd sum128 dims cfg age env x =
     (case x of (s, st, bst, sent) \<Rightarrow>
        case pl_inMsgChan st of
          [] \<Rightarrow> Blocked
        | None # q \<Rightarrow> Done (s, st\<lparr>pl_inMsgChan := q, pl_inRunning := pl_inRunning st - 1\<rparr>, bst, sent)
        | Some prm # q \<Rightarrow>
            let st' = st\<lparr>pl_inMsgChan := q, pl_inFreeMsgChan := pl_inFreeMsgChan st @ [prm]\<rparr>
            in case an_ring env of
                 Some (Some rg) \<Rightarrow>
                   bind_outcome (pull_keys (c_layout cfg) L sum128 dims (bs_msgCap bst)
                       (push_bit TSB_UTIL_BITS (an_now env) - age) rg prm (st_locmap s)) (\<lambda>(k, _).
                     if k = [] then Done (s, st', bst, sent)
                     else bind_outcome (newOutBulkSetMsg (an_msgRing env) bst) (\<lambda>(bsm, bst').
                          bind_outcome (bulk_fill L rd cfg (\<lambda>t. t AND TSB_LOCAL_REMOVAL = 0)
                              (\<lambda>c. c\<lparr>ct_outBulkSetValues := ct_outBulkSetValues c + 1\<rparr>) k
                              (bsm\<lparr>bm_header := put_at (bm_header bsm) 0 (putU64 0)\<rparr>, s)) (\<lambda>(bsm', s').
                            if bm_body bsm' \<noteq> []
                            then Done (tally (\<lambda>c. c\<lparr>ct_outBulkSets := ct_outBulkSets c + 1\<rparr>) s', st', bst',
                                       sent @ [(bsm', pull_nodeID prm)])
                            else Done (s', st', bst', sent))))
               | _ \<Rightarrow> Done (s, st', bst, sent))"

section \<open>Asking\<close>

text \<open>
  What a turn of the loop over a range meets: whether the pass was aborted, the ring, and the ring the
  new message asks.
\<close>

record pull_env =
  pv_abort :: bool
  pv_ring :: "ring option"
  pv_msgRing :: "ring option"

type_synonym 'm pull_state = "'m valueStore \<times> valuePullReplicationState \<times> (valuePullReplicationMsg \<times> u32) list"

text \<open>
  The loop: a filter of at most \<open>outBloomN\<close> entries and a message for the part of the range they span.
  The turns it takes are those of the list.
\<close>

fun pull_loop ::
  "'b layout \<Rightarrow> ('m, 'b) locmap_ops \<Rightarrow> sum128 \<Rightarrow> i64 \<Rightarrow> nat \<Rightarrow> nat \<Rightarrow> u64 \<Rightarrow> u64 \<Rightarrow> u64 \<Rightarrow> pull_env list \<Rightarrow> 'm pull_state \<Rightarrow> 'm pull_state outcome" where
  "pull_loop Y L sum128 version p w cutoff re rb [] y = Blocked"
| "pull_loop Y L sum128 version p w cutoff re rb (env # envs) (s, st, sent) =
     (if pv_abort env then Done (s, st, sent)
      else let ktbf = kt_reset (pl_outIteration st) (pl_outKTBFs st ! w);
               (items, rb', again) = lm_ScanCallback L (st_locmap s) rb re 0 TSB_LOCAL_REMOVAL cutoff (pl_outBloomN st)
           in bind_outcome (kt_addAll Y sum128 (map (\<lambda>(a, b, ts, _). (a, b, ts)) items) ktbf) (\<lambda>ktbf'.
                let st1 = st\<lparr>pl_outKTBFs := (pl_outKTBFs st)[w := ktbf']\<rparr>
                in case pv_ring env of
                     None \<Rightarrow> Done (s, st1, sent)
                   | Some rg2 \<Rightarrow>
                       if rg_version rg2 \<noteq> version then Done (s, st1, sent)
                       else bind_outcome (newOutPullReplicationMsg (pv_msgRing env) version (of_nat p) cutoff rb
                               (if again then rb' - 1 else re) ktbf' st1) (\<lambda>(prm, st2).
                              let s' = tally (\<lambda>c. c\<lparr>ct_outPullReplications := ct_outPullReplications c + 1\<rparr>) s;
                                  sent' = sent @ [(prm, of_nat p)]
                              in if again then pull_loop Y L sum128 version p w cutoff re rb' envs (s', st2, sent')
                                 else Done (s', st2, sent'))))"

text \<open>\<open>now\<close> is the time in microseconds.\<close>

definition pull_work ::
  "('m, 'b) locmap_ops \<Rightarrow> sum128 \<Rightarrow> 'b store_cfg \<Rightarrow> ring \<Rightarrow> nat \<times> nat \<Rightarrow> u64 \<times> pull_env list \<Rightarrow> 'm pull_state \<Rightarrow> 'm pull_state outcome" where
  "pull_work L sum128 cfg rg pw meets y =
     (case y of (s, st, sent) \<Rightarrow>
        case pull_range (64 - rg_partitionBitCount rg) (push_bit (rg_partitionBitCount rg) 1) (pl_outWorkers st)
            (of_nat (fst pw)) (of_nat (snd pw)) of
          (rb, re) \<Rightarrow>
            pull_loop (c_layout cfg) L sum128 (rg_version rg) (fst pw) (snd pw)
              (push_bit TSB_UTIL_BITS (fst meets) - c_replicationIgnoreRecent cfg) re rb (snd meets) y)"

text \<open>The partitions each worker visits; a worker stops when the pass is aborted or the ring changes.\<close>

definition pull_orders :: "nat \<Rightarrow> nat \<Rightarrow> (nat \<times> nat) list list" where
  "pull_orders P W = removal_orders P W"

definition pull_item where
  "pull_item L sum128 cfg rg x y =
     (case x of (pw, meets) \<Rightarrow>
        if rg_responsible rg (of_nat (fst pw)) then pull_work L sum128 cfg rg pw meets y else Done y)"

definition outPullReplicationPass ::
  "('m, 'b) locmap_ops \<Rightarrow> sum128 \<Rightarrow> bloom_dims \<Rightarrow> 'b store_cfg \<Rightarrow> pull_ring option option \<Rightarrow>
   ((nat \<times> nat) \<times> u64 \<times> pull_env list) list \<Rightarrow> bool \<Rightarrow> i64 \<Rightarrow> 'm pull_state bg_pass" where
  "outPullReplicationPass L sum128 dims cfg mr sched took elapsed q y =
     (case mr of
        Some (Some rg) \<Rightarrow>
          if rg_replicaCount rg < 2 \<or> rg_nodeCount rg < 2 then Done (None, q, y)
          else (case y of (s, st, sent) \<Rightarrow>
            let filters = pl_outKTBFs st;
                ktbf = newValueKTBloomFilter dims (pl_outBloomN st) (pl_outBloomP st) 0;
                st1 = st\<lparr>pl_outIteration := (if pl_outIteration st = - 1 then 0 else pl_outIteration st + 1),
                         pl_outKTBFs := filters @ replicate (unat (pl_outWorkers st) - length filters) ktbf\<rparr>
            in bind_outcome (fold_outcome (pull_item L sum128 cfg (ring.truncate rg)) sched (s, st1, sent))
                 (\<lambda>(s', st', sent').
                    Done (pass_result took q
                      (tally (\<lambda>c. c\<lparr>ct_outPullReplicationNanoseconds := elapsed\<rparr>) s', st', sent'))))
      | _ \<Rightarrow> Done (None, q, y))"

definition outPullReplicationLauncher where
  "outPullReplicationLauncher L sum128 dims cfg mr sched took elapsed =
     launcher_turn (outPullReplicationPass L sum128 dims cfg mr sched took elapsed)"

interpretation pull_pass: background_pass "outPullReplicationPass L sum128 dims cfg mr sched took elapsed"
  for L :: "('m, 'b) locmap_ops" and sum128 dims cfg mr sched took elapsed
  by unfold_locales
    (auto simp: outPullReplicationPass_def Let_def split: if_splits option.splits elim!: bind_outcome_DoneE
      dest!: pass_result_hands_back)

text \<open>A pass on demand: with no launcher it is run at once, otherwise the launcher is asked to.\<close>

definition OutPullReplicationPass_run where
  "OutPullReplicationPass_run L sum128 dims cfg mr sched elapsed y =
     (case y of (s, st, sent) \<Rightarrow>
        bind_outcome (outPullReplicationPass L sum128 dims cfg mr sched False elapsed []
            (s, outPullReplicationStartupHelper dims st, sent)) (\<lambda>(_, _, s', st', sent').
          Done (s', outPullReplicationShutdownHelper st', sent')))"

definition OutPullReplicationPass_notify :: "nat \<Rightarrow> launcher \<Rightarrow> launcher" where
  "OutPullReplicationPass_notify c l = l\<lparr>la_chan := la_chan l @ [\<lparr>bg_action = BG_PASS, bg_doneChan = c\<rparr>]\<rparr>"

definition OutPullReplicationPass where
  "OutPullReplicationPass L sum128 dims cfg mr sched elapsed c y =
     (case y of (s, st, sent) \<Rightarrow>
        case pl_outLauncher st of
          None \<Rightarrow> OutPullReplicationPass_run L sum128 dims cfg mr sched elapsed y
        | Some l \<Rightarrow> Done (s, st\<lparr>pl_outLauncher := Some (OutPullReplicationPass_notify c l)\<rparr>, sent))"

section \<open>The message arrives\<close>

lemma read_late_clean:
  assumes "clean r" "left \<le> length (arriving r)"
  shows "\<exists>r'. read_late left None acc r = (acc @ take left (arriving r), None, None, r') \<and> clean r' \<and>
    arriving r' = drop left (arriving r)"
  using assms
proof (induction left "None :: go_error option" acc r rule: read_late.induct)
  case (1 left acc r)
  show ?case
  proof (cases "left = 0")
    case True
    then show ?thesis using 1(2) by (simp add: read_late.simps)
  next
    case False
    then obtain c r' where rd: "reader_read left r = (c, None, r')" "clean r'" "arriving r = c @ arriving r'" "length c \<le> left"
      using clean_read [OF 1(2,3)] by blast
    from 1(1) [OF False refl rd(1) [symmetric] refl rd(2)] rd(3,4) 1(3) False rd(1) show ?thesis
      by (auto simp: read_late.simps [of left])
  qed
qed

lemma newIn_clean:
  assumes free: "pl_inFreeMsgChan st = m # free" "length (pm_header m) = pull_header_size"
    and r: "clean r" "arriving r = pm_header prm @ pm_body prm @ rest" "length (pm_header prm) = pull_header_size"
    and small: "length (pm_body prm) \<le> max_alloc"
  shows "\<exists>r'. newInPullReplicationMsg r (pull_MsgLength prm) st s =
      Done ((pull_header_size + length (pm_body prm), None), r',
        st\<lparr>pl_inFreeMsgChan := free, pl_inMsgChan := pl_inMsgChan st @ [Some prm]\<rparr>,
        tally (\<lambda>c. c\<lparr>ct_inPullReplications := ct_inPullReplications c + 1\<rparr>) s) \<and>
    clean r' \<and> arriving r' = rest"
proof -
  have n: "unat (of_nat (length (pm_body prm)) :: u64) = length (pm_body prm)"
    "unat (64 + of_nat (length (pm_body prm)) :: u64) = 64 + length (pm_body prm)"
    using small unat_of_nat_small64 [of "length (pm_body prm)"] unat_of_nat_small64 [of "64 + length (pm_body prm)"]
    by (simp_all add: max_alloc_def)
  obtain r1 where r1: "read_late pull_header_size None [] r = (pm_header prm, None, None, r1)" "clean r1"
    "arriving r1 = pm_body prm @ rest"
    using read_late_clean [OF r(1), of pull_header_size "[]"] r(2,3) by auto
  obtain r2 where r2: "read_late (length (pm_body prm)) None [] r1 = (pm_body prm, None, None, r2)" "clean r2"
    "arriving r2 = rest"
    using read_late_clean [OF r1(2), of "length (pm_body prm)" "[]"] r1(3) by auto
  show ?thesis
    using small free r(3) r1 r2 n
    by (simp add: newInPullReplicationMsg_def pull_MsgLength_def pull_sizes algebra_simps)
qed

lemma take_put_at_before: "n \<le> i \<Longrightarrow> i \<le> length buf \<Longrightarrow> take n (put_at buf i src) = take n buf"
  by (simp add: put_at_def min_def)

lemma newOut_fields:
  assumes "pl_outMsgChan st = prm0 # free" "length (pm_header prm0) = pull_header_size"
    "length (pm_body prm0) = length (kt_bits ktbf)" "ktbf_made dims ktbf"
  shows "\<exists>prm. newOutPullReplicationMsg rgo version part co start stop ktbf st = Done (prm, st\<lparr>pl_outMsgChan := free\<rparr>) \<and>
    length (pm_header prm) = pull_header_size \<and> length (pm_body prm) = length (kt_bits ktbf) \<and>
    (\<forall>rg n. rgo = Some rg \<longrightarrow> rg_localNode rg = Some n \<longrightarrow> pull_nodeID prm = n) \<and>
    ringVersion prm = version \<and> pull_partition prm = part \<and> pull_cutoff prm = co \<and>
    rangeStart prm = start \<and> rangeStop prm = stop \<and> ktBloomFilter dims prm = ktbf"
proof -
  define h0 where "h0 = (case rgo of None \<Rightarrow> pm_header prm0 | Some ring \<Rightarrow>
      (case rg_localNode ring of None \<Rightarrow> pm_header prm0 | Some n \<Rightarrow> put_at (pm_header prm0) 0 (putU64 n)))"
  have h0: "length h0 = 64" "\<And>rg n. rgo = Some rg \<Longrightarrow> rg_localNode rg = Some n \<Longrightarrow> getU64 h0 0 = n"
    using assms(2) by (auto simp: h0_def length_put_at pull_sizes get_put_at split: option.splits)
  let ?h = "put_at (put_at (put_at (put_at (put_at h0 8 (putU64 version)) 16
    (putU32 part)) 20 (putU64 co)) 28 (putU64 start)) 36 (putU64 stop)"
  let ?prm = "toMsg ktbf (prm0\<lparr>pm_header := ?h\<rparr>) 44"
  have h: "length ?h = 64" using h0(1) by (simp add: length_put_at)
  have keep: "length (pm_header ?prm) = 64" "length (pm_body ?prm) = length (kt_bits ktbf)"
    "take 44 (pm_header ?prm) = take 44 ?h"
    using h assms(3) by (simp_all add: toMsg_def Let_def length_put_at take_put_at_before)
  have u64: "getU64 (pm_header ?prm) i = getU64 (take 44 ?h) i" if "i + 8 \<le> 44" for i
    unfolding keep(3) [symmetric] using that by (simp add: getU64_def drop_take min_def)
  have u32: "getU32 (pm_header ?prm) 16 = getU32 (take 44 ?h) 16"
    unfolding keep(3) [symmetric] by (simp add: getU32_def drop_take min_def)
  have t64: "getU64 (take 44 ?h) i = getU64 ?h i" if "i + 8 \<le> 44" for i
    using that by (simp add: getU64_def drop_take min_def)
  have t32: "getU32 (take 44 ?h) 16 = getU32 ?h 16" by (simp add: getU32_def drop_take min_def)
  have fields: "pull_nodeID ?prm = getU64 h0 0" "ringVersion ?prm = version" "pull_partition ?prm = part"
    "pull_cutoff ?prm = co" "rangeStart ?prm = start" "rangeStop ?prm = stop"
    using h0(1) u64 u32 t64 t32
    by (simp_all add: pull_nodeID_def ringVersion_def pull_partition_def pull_cutoff_def rangeStart_def rangeStop_def
        get_put_at length_put_at)
  have "ktBloomFilter dims ?prm = ktbf"
    using toMsg_fromMsg [OF assms(4), of "prm0\<lparr>pm_header := ?h\<rparr>" 44] assms(3) h
    by (simp add: ktBloomFilter_def pull_sizes)
  with fields keep(1,2) assms(1) h0(2) show ?thesis
    by (simp add: newOutPullReplicationMsg_def Let_def pull_sizes h0_def [symmetric])
qed

section \<open>The filters of a pass\<close>

lemma le_pred_iff: "0 < (x :: u64) \<Longrightarrow> a \<le> x - 1 \<longleftrightarrow> a < x"
  by uint_arith

text \<open>What the filter of a message must not deny: what the map holds in its range, up to its cutoff.\<close>

definition filter_covers :: "'b layout \<Rightarrow> ('m, 'b) locmap_ops \<Rightarrow> sum128 \<Rightarrow> bloom_dims \<Rightarrow> 'm \<Rightarrow> valuePullReplicationMsg \<Rightarrow> bool" where
  "filter_covers Y L sum128 dims lm prm \<longleftrightarrow>
     (\<forall>a b ts i off len. lm_Get L lm a b = (ts, i, off, len) \<longrightarrow> i \<noteq> 0 \<longrightarrow>
        rangeStart prm \<le> a \<longrightarrow> a \<le> rangeStop prm \<longrightarrow> ts AND TSB_LOCAL_REMOVAL = 0 \<longrightarrow> ts \<le> pull_cutoff prm \<longrightarrow>
        kt_mayHave Y sum128 a b ts (ktBloomFilter dims prm) = Done True)"

text \<open>The ranges of the messages follow each other.\<close>

fun tiled :: "u64 \<Rightarrow> valuePullReplicationMsg list \<Rightarrow> bool" where
  "tiled start [] = True"
| "tiled start (prm # prms) \<longleftrightarrow> rangeStart prm = start \<and> tiled (rangeStop prm + 1) prms"

text \<open>A worker's filter and the free messages are as they were made.\<close>

definition out_ready :: "bloom_dims \<Rightarrow> nat \<Rightarrow> valuePullReplicationState \<Rightarrow> bool" where
  "out_ready dims w st \<longleftrightarrow> w < length (pl_outKTBFs st) \<and> ktbf_made dims (pl_outKTBFs st ! w) \<and> kt_ok (pl_outKTBFs st ! w) \<and>
     (\<forall>prm \<in> set (pl_outMsgChan st). length (pm_header prm) = pull_header_size \<and>
        length (pm_body prm) = length (kt_bits (pl_outKTBFs st ! w)))"

text \<open>A scan that stops early does not stop at key 0, so the range before its stop can be told.\<close>

definition scan_resumes :: "('m, 'b) locmap_ops \<Rightarrow> 'm \<Rightarrow> u64 \<Rightarrow> u64 \<Rightarrow> u64 \<Rightarrow> bool" where
  "scan_resumes L lm re cutoff n \<longleftrightarrow>
     (\<forall>start items at. lm_ScanCallback L lm start re 0 TSB_LOCAL_REMOVAL cutoff n = (items, at, True) \<longrightarrow> at \<noteq> 0)"

lemma pull_loop_sound:
  assumes lm: "locmap_contract L"
    and resumes: "scan_resumes L (st_locmap s) re cutoff (pl_outBloomN st)"
    and "out_ready dims w st" "pull_loop Y L sum128 version p w cutoff re rb envs (s, st, sent) = Done (s', st', sent')"
  shows "\<exists>prms. sent' = sent @ map (\<lambda>prm. (prm, of_nat p)) prms \<and> tiled rb prms \<and>
    (\<forall>prm \<in> set prms. filter_covers Y L sum128 dims (st_locmap s) prm \<and> pull_cutoff prm = cutoff)"
  using assms(2-4)
proof (induction envs arbitrary: rb s st sent)
  case (Cons env envs)
  let ?f = "kt_reset (pl_outIteration st) (pl_outKTBFs st ! w)"
  obtain items rb' again where scan:
    "lm_ScanCallback L (st_locmap s) rb re 0 TSB_LOCAL_REMOVAL cutoff (pl_outBloomN st) = (items, rb', again)"
    by (metis prod_cases3)
  let ?es = "map (\<lambda>(a, b, ts, _). (a, b, ts)) items"
  have f: "ktbf_made dims ?f" "kt_ok ?f" using Cons.prems(2) kt_reset_keeps by (auto simp: out_ready_def)
  obtain f' where f': "kt_addAll Y sum128 ?es ?f = Done f'" "kt_ok f'"
    "\<And>a b ts. (a, b, ts) \<in> set ?es \<Longrightarrow> kt_mayHave Y sum128 a b ts f' = Done True"
    using kt_addAll_ok [OF f(2), of Y sum128 ?es] by blast
  have made: "ktbf_made dims f'" and len: "length (kt_bits f') = length (kt_bits (pl_outKTBFs st ! w))"
    using kt_addAll_keeps [OF f'(1)] f(1) by (auto simp: kt_reset_def ktbf_made_def)
  let ?st1 = "st\<lparr>pl_outKTBFs := (pl_outKTBFs st)[w := f']\<rparr>" and ?stop = "if again then rb' - 1 else re"
  note unf = Cons.prems(3) [unfolded pull_loop.simps Let_def scan prod.case f'(1) bind_outcome.simps]
  show ?case
  proof (cases "pv_abort env \<or> (\<forall>rg2. pv_ring env = Some rg2 \<longrightarrow> rg_version rg2 \<noteq> version)")
    case True
    then have "sent' = sent" using unf by (auto split: if_splits option.splits)
    then show ?thesis by (intro exI [of _ "[]"]) simp
  next
    case False
    then obtain rg2 where rg2: "\<not> pv_abort env" "pv_ring env = Some rg2" "rg_version rg2 = version" by blast
    then obtain prm st2 where new: "newOutPullReplicationMsg (pv_msgRing env) version (of_nat p) cutoff rb ?stop f' ?st1 =
        Done (prm, st2)"
      and rest: "(if again then pull_loop Y L sum128 version p w cutoff re rb' envs
           (tally (\<lambda>c. c\<lparr>ct_outPullReplications := ct_outPullReplications c + 1\<rparr>) s, st2, sent @ [(prm, of_nat p)])
         else Done (tally (\<lambda>c. c\<lparr>ct_outPullReplications := ct_outPullReplications c + 1\<rparr>) s, st2, sent @ [(prm, of_nat p)])) =
         Done (s', st', sent')"
      using unf by (auto elim!: bind_outcome_DoneE)
    obtain prm0 free where chan: "pl_outMsgChan st = prm0 # free"
      using new by (auto simp: newOutPullReplicationMsg_def split: list.splits)
    then have st2: "st2 = ?st1\<lparr>pl_outMsgChan := free\<rparr>" and fields: "pull_cutoff prm = cutoff" "rangeStart prm = rb"
      "rangeStop prm = ?stop" "ktBloomFilter dims prm = f'"
      using newOut_fields [of ?st1 prm0 free f' dims "pv_msgRing env" version "of_nat p" cutoff rb ?stop] new made len Cons.prems(2)
      by (auto simp: out_ready_def)
    have covers: "filter_covers Y L sum128 dims (st_locmap s) prm"
      unfolding filter_covers_def fields
    proof (intro allI impI)
      fix a b ts i off len
      assume get: "lm_Get L (st_locmap s) a b = (ts, i, off, len)" "i \<noteq> 0" "rb \<le> a" "a \<le> ?stop"
        "ts AND TSB_LOCAL_REMOVAL = 0" "ts \<le> cutoff"
      have "a < rb'" if again
      proof -
        have "0 < rb'" using Cons.prems(1) scan that by (auto simp: word_neq_0_conv scan_resumes_def)
        then show ?thesis using get(4) that by (simp add: le_pred_iff)
      qed
      moreover have "a \<le> re"
        using get(4) locmap_contract.Scan_stops [OF lm scan] calculation by (cases again) auto
      ultimately have "(a, b, ts, len) \<in> set items"
        using locmap_contract.Scan_complete [OF lm scan get(1,2,3)] get(5,6) by (auto simp: scan_match_def)
      then show "kt_mayHave Y sum128 a b ts f' = Done True" by (intro f'(3)) force
    qed
    show ?thesis
    proof (cases again)
      case False
      then show ?thesis using rest covers fields by (intro exI [of _ "[prm]"]) auto
    next
      case True
      have ready: "out_ready dims w st2"
        using Cons.prems(2) chan made f'(2) len by (auto simp: st2 out_ready_def)
      let ?s1 = "tally (\<lambda>c. c\<lparr>ct_outPullReplications := ct_outPullReplications c + 1\<rparr>) s"
      have loop: "pull_loop Y L sum128 version p w cutoff re rb' envs (?s1, st2, sent @ [(prm, of_nat p)]) = Done (s', st', sent')"
        using rest True by simp
      have same: "st_locmap ?s1 = st_locmap s" "pl_outBloomN st2 = pl_outBloomN st" by (simp_all add: tally_def st2)
      obtain prms where "sent' = (sent @ [(prm, of_nat p)]) @ map (\<lambda>prm. (prm, of_nat p)) prms" "tiled rb' prms"
        "\<forall>prm \<in> set prms. filter_covers Y L sum128 dims (st_locmap s) prm \<and> pull_cutoff prm = cutoff"
        using Cons.IH [OF _ ready loop] Cons.prems(1) unfolding same by blast
      then show ?thesis using covers fields True by (intro exI [of _ "prm # prms"]) auto
    qed
  qed
qed simp

section \<open>The keys of an answer\<close>

abbreviation unexpired :: "u64 \<Rightarrow> u64 \<Rightarrow> bool" where
  "unexpired tombstoneCutoff ts \<equiv> ts AND TSB_DELETION = 0 \<or> tombstoneCutoff \<le> ts"

lemma pull_gather_sound:
  assumes "pull_gather Y sum128 ktbf tc items (k, l) = Done (k', l')" "(a, b) \<in> set k'"
  shows "(a, b) \<in> set k \<or> (\<exists>ts len. (a, b, ts, len) \<in> set items \<and> unexpired tc ts \<and> kt_mayHave Y sum128 a b ts ktbf = Done False)"
  using assms
proof (induction items arbitrary: k l)
  case (Cons e items)
  obtain ka kb ts len where e: "e = (ka, kb, ts, len)" by (cases e)
  consider (skip) "pull_gather Y sum128 ktbf tc items (k, l) = Done (k', l')"
    | (new) "unexpired tc ts" "kt_mayHave Y sum128 ka kb ts ktbf = Done False"
        "k' = k @ [(ka, kb)] \<or> pull_gather Y sum128 ktbf tc items (k @ [(ka, kb)], l - (int (BULK_SET_MSG_ENTRY_HEADER_LENGTH Y) + int (unat len))) = Done (k', l')"
    using Cons.prems(1) by (auto simp: e Let_def split: if_splits elim!: bind_outcome_DoneE)
  then show ?case
  proof cases
    case skip
    from Cons.IH [OF this Cons.prems(2)] show ?thesis by auto
  next
    case new
    then show ?thesis using Cons.IH [OF _ Cons.prems(2)] Cons.prems(2) by (fastforce simp: e)
  qed
qed simp

lemma pull_gather_complete:
  assumes "pull_gather Y sum128 ktbf tc items (k, l) = Done (k', l')" "0 < l'"
  shows "set k \<subseteq> set k' \<and> (\<forall>(a, b, ts, len) \<in> set items. unexpired tc ts \<longrightarrow> kt_mayHave Y sum128 a b ts ktbf = Done False \<longrightarrow>
    (a, b) \<in> set k')"
  using assms
proof (induction items arbitrary: k l)
  case (Cons e items)
  obtain ka kb ts len where e: "e = (ka, kb, ts, len)" by (cases e)
  consider (skip) "pull_gather Y sum128 ktbf tc items (k, l) = Done (k', l')"
      "unexpired tc ts \<longrightarrow> kt_mayHave Y sum128 ka kb ts ktbf \<noteq> Done False"
    | (new) "pull_gather Y sum128 ktbf tc items (k @ [(ka, kb)], l - (int (BULK_SET_MSG_ENTRY_HEADER_LENGTH Y) + int (unat len))) = Done (k', l')"
    using Cons.prems by (auto simp: e Let_def split: if_splits elim!: bind_outcome_DoneE)
  then show ?case
  proof cases
    case skip
    from Cons.IH [OF this(1) Cons.prems(2)] skip(2) show ?thesis by (auto simp: e)
  next
    case new
    from Cons.IH [OF this Cons.prems(2)] show ?thesis by (auto simp: e)
  qed
qed simp

text \<open>The two scans of an answer.\<close>

lemma pull_keysE:
  assumes "pull_keys Y L sum128 dims msgCap tc rg prm lm = Done (k, l)"
  obtains st k1 l1 where
    "pull_gather Y sum128 (ktBloomFilter dims prm) tc (fst (lm_ScanCallback L lm st (rangeStop prm) 0 TSB_LOCAL_REMOVAL (pull_cutoff prm) (- 1)))
       ([], int msgCap) = Done (k1, l1)"
    "if st \<noteq> rangeStart prm \<and> 0 < l1
     then pull_gather Y sum128 (ktBloomFilter dims prm) tc (fst (lm_ScanCallback L lm (rangeStart prm) (st - 1) 0 TSB_LOCAL_REMOVAL (pull_cutoff prm) (- 1)))
       (k1, l1) = Done (k, l)
     else (k1, l1) = (k, l)"
  using assms by (auto simp: pull_keys_def Let_def split: if_splits elim!: bind_outcome_DoneE)

text \<open>Every key of an answer is one whose entry the filter denies.\<close>

lemma pull_keys_sound:
  assumes lm: "locmap_contract L" and keys: "pull_keys Y L sum128 dims msgCap tc rg prm lm = Done (k, l)" "(a, b) \<in> set k"
  shows "\<exists>ts i off len. lm_Get L lm a b = (ts, i, off, len) \<and> i \<noteq> 0 \<and> ts AND TSB_LOCAL_REMOVAL = 0 \<and> ts \<le> pull_cutoff prm \<and>
    unexpired tc ts \<and> kt_mayHave Y sum128 a b ts (ktBloomFilter dims prm) = Done False"
proof -
  have item: "\<exists>ts i off len. lm_Get L lm a b = (ts, i, off, len) \<and> i \<noteq> 0 \<and> ts AND TSB_LOCAL_REMOVAL = 0 \<and> ts \<le> pull_cutoff prm \<and>
      unexpired tc ts \<and> kt_mayHave Y sum128 a b ts (ktBloomFilter dims prm) = Done False"
    if "(a, b, ts, len) \<in> set (fst (lm_ScanCallback L lm lo hi 0 TSB_LOCAL_REMOVAL (pull_cutoff prm) (- 1)))"
      "unexpired tc ts" "kt_mayHave Y sum128 a b ts (ktBloomFilter dims prm) = Done False" for ts len lo hi
  proof -
    obtain items at again where scan:
      "lm_ScanCallback L lm lo hi 0 TSB_LOCAL_REMOVAL (pull_cutoff prm) (- 1) = (items, at, again)" by (metis prod_cases3)
    from locmap_contract.Scan_sound [OF lm scan] that show ?thesis by (fastforce simp: scan scan_match_def)
  qed
  obtain st k1 l1 where one: "pull_gather Y sum128 (ktBloomFilter dims prm) tc
      (fst (lm_ScanCallback L lm st (rangeStop prm) 0 TSB_LOCAL_REMOVAL (pull_cutoff prm) (- 1))) ([], int msgCap) = Done (k1, l1)"
    and two: "if st \<noteq> rangeStart prm \<and> 0 < l1
     then pull_gather Y sum128 (ktBloomFilter dims prm) tc (fst (lm_ScanCallback L lm (rangeStart prm) (st - 1) 0 TSB_LOCAL_REMOVAL (pull_cutoff prm) (- 1)))
       (k1, l1) = Done (k, l)
     else (k1, l1) = (k, l)" using keys(1) by (rule pull_keysE)
  show ?thesis
  proof (cases "(a, b) \<in> set k1")
    case True
    from pull_gather_sound [OF one True] item show ?thesis by auto
  next
    case False
    then have "pull_gather Y sum128 (ktBloomFilter dims prm) tc
        (fst (lm_ScanCallback L lm (rangeStart prm) (st - 1) 0 TSB_LOCAL_REMOVAL (pull_cutoff prm) (- 1))) (k1, l1) = Done (k, l)"
      using two keys(2) by (auto split: if_splits)
    from pull_gather_sound [OF this keys(2)] False item show ?thesis by blast
  qed
qed

text \<open>A scan without a limit goes through.\<close>

definition scans_through :: "('m, 'b) locmap_ops \<Rightarrow> 'm \<Rightarrow> bool" where
  "scans_through L lm \<longleftrightarrow> (\<forall>lo hi msk nmsk co. \<not> snd (snd (lm_ScanCallback L lm lo hi msk nmsk co (- 1))))"

lemma scans_through_items:
  assumes "locmap_contract L" "scans_through L lm" "lm_Get L lm a b = (ts, i, off, len)" "i \<noteq> 0" "lo \<le> a" "a \<le> hi"
    "ts AND TSB_LOCAL_REMOVAL = 0" "ts \<le> co"
  shows "(a, b, ts, len) \<in> set (fst (lm_ScanCallback L lm lo hi 0 TSB_LOCAL_REMOVAL co (- 1)))"
proof -
  obtain items at again where scan: "lm_ScanCallback L lm lo hi 0 TSB_LOCAL_REMOVAL co (- 1) = (items, at, again)"
    by (metis prod_cases3)
  moreover have "\<not> again" using assms(2) scan by (metis scans_through_def snd_conv)
  ultimately show ?thesis
    using locmap_contract.Scan_complete [OF assms(1) scan assms(3-6)] assms(7,8) by (simp add: scan_match_def)
qed

section \<open>Properties\<close>

text \<open>
  C23. A pull message arrives as it was sent: filled in by the sender, written to the connection and read
  from it in pieces of any size, it is queued with its node, ring version, partition, cutoff, range and
  filter, and the connection is left at what follows.
\<close>

theorem pull_message_roundtrip:
  assumes out: "pl_outMsgChan st = prm0 # free" "length (pm_header prm0) = pull_header_size"
      "length (pm_body prm0) = length (kt_bits ktbf)" "ktbf_made dims ktbf" "rg_localNode rg = Some n"
    and small: "length (kt_bits ktbf) \<le> max_alloc" "pull_header_size + length (kt_bits ktbf) \<le> room"
    and new: "newOutPullReplicationMsg (Some rg) version part co start stop ktbf st = Done (prm, st')"
    and recv: "pl_inFreeMsgChan rst = m # mfree" "length (pm_header m) = pull_header_size"
    and conn: "clean r" "arriving r = fst (pull_WriteContent room prm) @ rest"
  shows "\<exists>r' rst' s'. newInPullReplicationMsg r (pull_MsgLength prm) rst s =
      Done ((length (fst (pull_WriteContent room prm)), None), r', rst', s') \<and> arriving r' = rest \<and>
    pl_inMsgChan rst' = pl_inMsgChan rst @ [Some prm] \<and>
    pull_nodeID prm = n \<and> ringVersion prm = version \<and> pull_partition prm = part \<and> pull_cutoff prm = co \<and>
    rangeStart prm = start \<and> rangeStop prm = stop \<and> ktBloomFilter dims prm = ktbf"
proof -
  have fields: "length (pm_header prm) = pull_header_size" "length (pm_body prm) = length (kt_bits ktbf)"
    "pull_nodeID prm = n" "ringVersion prm = version" "pull_partition prm = part" "pull_cutoff prm = co"
    "rangeStart prm = start" "rangeStop prm = stop" "ktBloomFilter dims prm = ktbf"
    using newOut_fields [OF out(1-4), of "Some rg" version part co start stop] new out(5) by auto
  have written: "fst (pull_WriteContent room prm) = pm_header prm @ pm_body prm"
    using fields(1,2) small(2) by (simp add: pull_WriteContent_def Let_def)
  from newIn_clean [OF recv conn(1), of prm rest s] conn(2) fields small(1) written show ?thesis by auto
qed

definition pull_st_example :: valuePullReplicationState where
  "pull_st_example = pullReplicationStartup (\<lambda>_ _. (2, 1))
     (pullReplicationConfig \<lparr>pc_inWorkers = 1, pc_inMsgs = 1, pc_inResponseMsgTimeout = 100, pc_outInterval = 10,
        pc_outWorkers = 1, pc_outMsgs = 2, pc_outMsgTimeout = 100, pc_outBloomN = 1, pc_outBloomP = 5\<rparr> 7)"

lemma pull_st_example_simps:
  "pl_outMsgChan pull_st_example = replicate 2 \<lparr>pm_header = replicate 64 0, pm_body = [0, 0]\<rparr>"
  "pl_inFreeMsgChan pull_st_example = [\<lparr>pm_header = replicate 64 0, pm_body = []\<rparr>]"
  "pl_outKTBFs pull_st_example = [newValueKTBloomFilter (\<lambda>_ _. (2, 1)) 1 5 0]"
  "pl_outBloomN pull_st_example = 1" "pl_outIteration pull_st_example = 7"
  by (simp_all add: pull_st_example_def pullReplicationStartup_def pullReplicationConfig_def inPullReplicationStartup_def
      outPullReplicationStartup_def outPullReplicationStartupHelper_def pull_sizes newValueKTBloomFilter_def Let_def)
    (simp add: numeral_2_eq_2)

theorem pull_message_roundtrip_witness:
  "\<exists>prm st' r' rst' s'. newOutPullReplicationMsg (Some ring_example) 1 3 0x500 0 9 (newValueKTBloomFilter (\<lambda>_ _. (2, 1)) 1 5 0)
      pull_st_example = Done (prm, st') \<and>
    newInPullReplicationMsg [(pm_header prm, None), (pm_body prm @ [1], None)] (pull_MsgLength prm) pull_st_example store_new =
      Done ((66, None), r', rst', s') \<and> arriving r' = [1] \<and> rangeStop prm = 9"
proof -
  have two: "replicate 2 x = [x, x]" for x :: "'x" by (simp add: numeral_2_eq_2)
  let ?f = "newValueKTBloomFilter (\<lambda>_ _. (2, 1)) 1 5 0" and ?m = "\<lparr>pm_header = replicate 64 0, pm_body = [0, 0]\<rparr>"
  have out: "pl_outMsgChan pull_st_example = ?m # [?m]" "length (pm_header ?m) = pull_header_size"
    "length (pm_body ?m) = length (kt_bits ?f)" "ktbf_made (\<lambda>_ _. (2, 1)) ?f" "rg_localNode ring_example = Some 7"
    by (simp_all add: pull_st_example_simps two ktbf_made_new pull_sizes ring_example_def)
      (simp add: newValueKTBloomFilter_def)
  have f: "length (kt_bits ?f) = 2" by (simp add: newValueKTBloomFilter_def)
  obtain prm st' where new: "newOutPullReplicationMsg (Some ring_example) 1 3 0x500 0 9 ?f pull_st_example = Done (prm, st')"
    "length (pm_header prm) = 64" "length (pm_body prm) = 2"
    using newOut_fields [OF out(1-4), where rgo = "Some ring_example" and version = 1 and part = 3 and co = "0x500" and start = 0 and stop = 9] f by (auto simp: pull_sizes)
  have wrote: "fst (pull_WriteContent 100 prm) = pm_header prm @ pm_body prm"
    using new(2,3) by (simp add: pull_WriteContent_def)
  have "\<exists>r' rst' s'. newInPullReplicationMsg [(pm_header prm, None), (pm_body prm @ [1], None)] (pull_MsgLength prm) pull_st_example store_new =
      Done ((length (fst (pull_WriteContent 100 prm)), None), r', rst', s') \<and> arriving r' = [1] \<and>
    pl_inMsgChan rst' = pl_inMsgChan pull_st_example @ [Some prm] \<and>
    pull_nodeID prm = 7 \<and> ringVersion prm = 1 \<and> pull_partition prm = 3 \<and> pull_cutoff prm = 0x500 \<and>
    rangeStart prm = 0 \<and> rangeStop prm = 9 \<and> ktBloomFilter (\<lambda>_ _. (2, 1)) prm = ?f"
    by (rule pull_message_roundtrip [OF out _ _ new(1) pull_st_example_simps(2)])
      (simp_all add: f max_alloc_def pull_sizes wrote)
  then show ?thesis using new wrote by auto
qed

text \<open>
  The filters a node sends have what it has: of the messages for a range of keys the ranges follow
  each other from the start of the range, and the filter of each denies nothing that the location map
  holds in the range of that message up to the cutoff and that is not marked for local removal.
\<close>

theorem pull_filters_cover:
  assumes lm: "locmap_contract L"
    and resumes: "scan_resumes L (st_locmap s) re cutoff (pl_outBloomN st)"
    and ready: "out_ready dims w st"
    and loop: "pull_loop Y L sum128 version p w cutoff re rb envs (s, st, sent) = Done (s', st', sent')"
  shows "\<exists>prms. sent' = sent @ map (\<lambda>prm. (prm, of_nat p)) prms \<and> tiled rb prms \<and>
    (\<forall>prm \<in> set prms. filter_covers Y L sum128 dims (st_locmap s) prm)"
  using pull_loop_sound [OF assms] by blast

text \<open>
  C21. An answer is complete: when the message has room left after the scans, every entry of the range that
  is under the cutoff, neither marked for local removal nor an expired deletion, and that the filter
  denies, is listed, wherever in the range the scan started.
\<close>

theorem pull_answer_complete:
  assumes lm: "locmap_contract L" and through: "scans_through L lm"
    and keys: "pull_keys Y L sum128 dims msgCap tc rg prm lm = Done (k, l)" and room: "0 < l"
    and entry: "lm_Get L lm a b = (ts, i, off, len)" "i \<noteq> 0" "rangeStart prm \<le> a" "a \<le> rangeStop prm"
      "ts AND TSB_LOCAL_REMOVAL = 0" "ts \<le> pull_cutoff prm" "unexpired tc ts"
    and denied: "kt_mayHave Y sum128 a b ts (ktBloomFilter dims prm) = Done False"
  shows "(a, b) \<in> set k"
proof -
  note item = scans_through_items [OF lm through entry(1,2) _ _ entry(5,6)]
  obtain st k1 l1 where one: "pull_gather Y sum128 (ktBloomFilter dims prm) tc
      (fst (lm_ScanCallback L lm st (rangeStop prm) 0 TSB_LOCAL_REMOVAL (pull_cutoff prm) (- 1))) ([], int msgCap) = Done (k1, l1)"
    and two: "if st \<noteq> rangeStart prm \<and> 0 < l1
     then pull_gather Y sum128 (ktBloomFilter dims prm) tc (fst (lm_ScanCallback L lm (rangeStart prm) (st - 1) 0 TSB_LOCAL_REMOVAL (pull_cutoff prm) (- 1)))
       (k1, l1) = Done (k, l)
     else (k1, l1) = (k, l)" using keys by (rule pull_keysE)
  have l1: "0 < l1" using two room by (auto split: if_splits)
  have up: "set k1 \<subseteq> set k" using two pull_gather_complete [of Y sum128 "ktBloomFilter dims prm" tc _ k1 l1 k l, OF _ room] by (auto split: if_splits)
  show ?thesis
  proof (cases "st \<le> a")
    case True
    then show ?thesis using pull_gather_complete [OF one l1] item [OF True entry(4)] entry(7) denied up by blast
  next
    case False
    then have "a < st" by simp
    moreover from this have "0 < st" by (metis not_gr_zero not_less_zero word_neq_0_conv word_not_simps(1))
    ultimately have "a \<le> st - 1" "st \<noteq> rangeStart prm" using entry(3) False by (auto simp: le_pred_iff)
    then have "pull_gather Y sum128 (ktBloomFilter dims prm) tc
        (fst (lm_ScanCallback L lm (rangeStart prm) (st - 1) 0 TSB_LOCAL_REMOVAL (pull_cutoff prm) (- 1))) (k1, l1) = Done (k, l)"
      using two l1 by simp
    from pull_gather_complete [OF this room] item [OF entry(3) \<open>a \<le> st - 1\<close>] entry(7) denied show ?thesis by blast
  qed
qed


text \<open>One message for a range is sent when the scan goes through.\<close>

lemma pull_loop_one:
  assumes ready: "out_ready dims w st" "pl_outMsgChan st = prm0 # free"
    and scan: "lm_ScanCallback L (st_locmap s) rb re 0 TSB_LOCAL_REMOVAL cutoff (pl_outBloomN st) = (items, at, False)"
    and env: "\<not> pv_abort env" "pv_ring env = Some rg2" "rg_version rg2 = version"
  shows "\<exists>s' st' prm f. pull_loop Y L hsh version p w cutoff re rb [env] (s, st, sent) = Done (s', st', sent @ [(prm, of_nat p)]) \<and>
    kt_addAll Y hsh (map (\<lambda>(a, b, ts, _). (a, b, ts)) items) (kt_reset (pl_outIteration st) (pl_outKTBFs st ! w)) = Done f \<and>
    ktBloomFilter dims prm = f \<and> rangeStart prm = rb \<and> rangeStop prm = re \<and> pull_cutoff prm = cutoff"
proof -
  let ?f = "kt_reset (pl_outIteration st) (pl_outKTBFs st ! w)" and ?es = "map (\<lambda>(a, b, ts, _). (a, b, ts)) items"
  have f: "ktbf_made dims ?f" "kt_ok ?f" using ready(1) kt_reset_keeps by (auto simp: out_ready_def)
  obtain f' where f': "kt_addAll Y hsh ?es ?f = Done f'" using kt_addAll_ok [OF f(2), of Y hsh ?es] by blast
  let ?st1 = "st\<lparr>pl_outKTBFs := (pl_outKTBFs st)[w := f']\<rparr>"
  have "ktbf_made dims f'" "length (kt_bits f') = length (kt_bits (pl_outKTBFs st ! w))"
    using kt_addAll_keeps [OF f'] f(1) by (auto simp: kt_reset_def ktbf_made_def)
  then have "\<exists>prm. newOutPullReplicationMsg (pv_msgRing env) version (of_nat p) cutoff rb re f' ?st1 =
      Done (prm, ?st1\<lparr>pl_outMsgChan := free\<rparr>) \<and> pull_cutoff prm = cutoff \<and> rangeStart prm = rb \<and> rangeStop prm = re \<and>
      ktBloomFilter dims prm = f'"
    using newOut_fields [of ?st1 prm0 free f' dims "pv_msgRing env" version "of_nat p" cutoff rb re] ready
    by (auto simp: out_ready_def)
  then show ?thesis using scan env f' by auto
qed

text \<open>A node that has one entry asks a node that has another.\<close>

definition pull_env_example :: pull_env where
  "pull_env_example = \<lparr>pv_abort = False, pv_ring = Some ring_example, pv_msgRing = Some ring_example\<rparr>"

definition pull_ring_example :: pull_ring where
  "pull_ring_example = \<lparr>rg_partitionBitCount = 8, rg_responsible = (\<lambda>_. True), rg_localNode = Some 5, rg_version = 1,
     rg_replicaCount = 3, rg_nodeCount = 4, rg_responsibleReplica = (\<lambda>_. 1)\<rparr>"

definition other_map :: "u64 alm" where
  "other_map = [((3, 4), (0x400, 1, 2, 2))]"

lemma alm_one_item: "length (alm_items [(k, l)] start stop msk nmsk co) \<le> 1"
  by (cases k) (simp add: alm_items_def split: prod.splits)

lemma alm_one_through:
  "n \<noteq> 0 \<Longrightarrow> lm_ScanCallback alm_ops [(k, l)] start stop msk nmsk co n = (alm_items [(k, l)] start stop msk nmsk co, stop, False)"
proof -
  assume "n \<noteq> 0"
  then have "1 \<le> unat n" by (simp add: Suc_le_eq unat_gt_0)
  then show ?thesis
    using order_trans [OF alm_one_item [of k l start stop msk nmsk co]] by (simp add: alm_ops_def alm_ScanCallback_def)
qed

lemma pull_example:
  "out_ready (\<lambda>_ _. (2, 1)) 0 pull_st_example" "scan_resumes alm_ops (st_locmap store_two) 9 0x500 (pl_outBloomN pull_st_example)"
  "scans_through alm_ops other_map"
  "\<exists>s' st' prm. pull_loop value_layout alm_ops bloom_hash_example 1 3 0 0x500 9 0 [pull_env_example] (store_two, pull_st_example, []) =
      Done (s', st', [(prm, 3)]) \<and> rangeStart prm = 0 \<and> rangeStop prm = 9 \<and> pull_cutoff prm = 0x500 \<and>
    kt_mayHave value_layout bloom_hash_example 3 4 0x400 (ktBloomFilter (\<lambda>_ _. (2, 1)) prm) = Done False"
proof -
  have two: "replicate 2 x = [x, x]" for x :: "'x" by (simp add: numeral_2_eq_2)
  have lm: "st_locmap store_two = [((1, 2), (0x300, 1, 0, 2))]" by (simp add: store_two_def)
  show ready: "out_ready (\<lambda>_ _. (2, 1)) 0 pull_st_example"
    by (simp add: out_ready_def pull_st_example_simps ktbf_made_new kt_ok_def pull_sizes)
      (simp add: newValueKTBloomFilter_def)
  show "scan_resumes alm_ops (st_locmap store_two) 9 0x500 (pl_outBloomN pull_st_example)"
    by (simp add: scan_resumes_def lm alm_one_through pull_st_example_simps)
  show "scans_through alm_ops other_map" by (simp add: scans_through_def other_map_def alm_one_through)
  have scan: "lm_ScanCallback alm_ops (st_locmap store_two) 0 9 0 TSB_LOCAL_REMOVAL 0x500 (pl_outBloomN pull_st_example) =
      ([(1, 2, 0x300, 2)], 9, False)"
  proof -
    have "alm_items [((1, 2 :: u64), (0x300, 1, 0, 2))] 0 9 0 TSB_LOCAL_REMOVAL 0x500 = [(1, 2, 0x300, 2)]" by code_simp
    then show ?thesis by (simp add: lm alm_one_through pull_st_example_simps)
  qed
  have denied: "bind_outcome (kt_addAll value_layout bloom_hash_example [(1, 2, 0x300)] (kt_reset 7 (newValueKTBloomFilter (\<lambda>_ _. (2, 1)) 1 5 0)))
      (kt_mayHave value_layout bloom_hash_example 3 4 0x400) = Done False" by code_simp
  let ?m = "\<lparr>pm_header = replicate 64 0, pm_body = [0, 0]\<rparr>"
  have chan: "pl_outMsgChan pull_st_example = ?m # [?m]" by (simp add: pull_st_example_simps two)
  have env: "\<not> pv_abort pull_env_example" "pv_ring pull_env_example = Some ring_example" "rg_version ring_example = 1"
    by (simp_all add: pull_env_example_def ring_example_def)
  obtain s' st' prm f where loop: "pull_loop value_layout alm_ops bloom_hash_example 1 3 0 0x500 9 0 [pull_env_example] (store_two, pull_st_example, []) =
      Done (s', st', [] @ [(prm, of_nat 3)])"
    and f: "kt_addAll value_layout bloom_hash_example (map (\<lambda>(a, b, ts, _). (a, b, ts)) [(1, 2, 0x300, 2 :: u32)])
        (kt_reset (pl_outIteration pull_st_example) (pl_outKTBFs pull_st_example ! 0)) = Done f"
    and prm: "ktBloomFilter (\<lambda>_ _. (2, 1)) prm = f" "rangeStart prm = 0" "rangeStop prm = 9" "pull_cutoff prm = 0x500"
    using pull_loop_one [OF ready chan scan env, of value_layout bloom_hash_example 3 "[]"] by blast
  have "kt_mayHave value_layout bloom_hash_example 3 4 0x400 f = Done False"
    using f denied by (simp only: pull_st_example_simps list.map prod.case nth_Cons_0 bind_outcome.simps)
  with loop prm show "\<exists>s' st' prm. pull_loop value_layout alm_ops bloom_hash_example 1 3 0 0x500 9 0 [pull_env_example] (store_two, pull_st_example, []) =
      Done (s', st', [(prm, 3)]) \<and> rangeStart prm = 0 \<and> rangeStop prm = 9 \<and> pull_cutoff prm = 0x500 \<and>
    kt_mayHave value_layout bloom_hash_example 3 4 0x400 (ktBloomFilter (\<lambda>_ _. (2, 1)) prm) = Done False"
    by (simp del: pull_loop.simps)
qed

theorem pull_filters_cover_witness:
  "\<exists>prm. tiled 0 [prm] \<and> rangeStop prm = 9 \<and> filter_covers value_layout alm_ops bloom_hash_example (\<lambda>_ _. (2, 1)) (st_locmap store_two) prm"
proof -
  obtain s' st' prm where loop: "pull_loop value_layout alm_ops bloom_hash_example 1 3 0 0x500 9 0 [pull_env_example] (store_two, pull_st_example, []) =
      Done (s', st', [(prm, 3)])" "rangeStop prm = 9" using pull_example(4) by blast
  from pull_filters_cover [OF alm.locmap_contract_axioms pull_example(2,1) loop(1)] loop(2) show ?thesis by force
qed

lemma pull_keys_example:
  assumes "rangeStart prm = 0" "rangeStop prm = 9" "pull_cutoff prm = 0x500"
    "kt_mayHave value_layout bloom_hash_example 3 4 0x400 (ktBloomFilter (\<lambda>_ _. (2, 1)) prm) = Done False"
  shows "pull_keys value_layout alm_ops bloom_hash_example (\<lambda>_ _. (2, 1)) 100 0 pull_ring_example prm other_map = Done ([(3, 4)], 70)"
proof -
  have start: "scan_start pull_ring_example prm = Done 3"
    using assms(1,2) by (simp add: scan_start_def pull_ring_example_def Let_def)
  have items: "alm_items [((3, 4 :: u64), (0x400, 1, 2, 2))] 3 9 0 TSB_LOCAL_REMOVAL 0x500 = [(3, 4, 0x400, 2)]"
    "alm_items [((3, 4 :: u64), (0x400, 1, 2, 2))] 0 2 0 TSB_LOCAL_REMOVAL 0x500 = []" by code_simp+
  show ?thesis
    using assms start by (simp add: pull_keys_def other_map_def alm_one_through items bulk_set_sizes)
qed

theorem pull_answer_complete_witness:
  "\<exists>prm k l. pull_keys value_layout alm_ops bloom_hash_example (\<lambda>_ _. (2, 1)) 100 0 pull_ring_example prm other_map = Done (k, l) \<and>
    rangeStart prm = 0 \<and> (3, 4) \<in> set k"
proof -
  obtain s' st' prm where ex: "rangeStart prm = 0" "rangeStop prm = 9" "pull_cutoff prm = 0x500"
    "kt_mayHave value_layout bloom_hash_example 3 4 0x400 (ktBloomFilter (\<lambda>_ _. (2, 1)) prm) = Done False" using pull_example(4) by blast
  have bits: "(0x400 :: u64) AND TSB_LOCAL_REMOVAL = 0" "(0x400 :: u64) AND TSB_DELETION = 0" by code_simp+
  have get: "lm_Get alm_ops other_map 3 4 = (0x400, 1, 2, 2)" by (simp add: other_map_def alm_ops_def alm_Get_def)
  have "(3, 4) \<in> set [(3 :: u64, 4 :: u64)]"
    by (rule pull_answer_complete [OF alm.locmap_contract_axioms pull_example(3) pull_keys_example [OF ex] _ get _ _ _ _ _ _ ex(4)])
      (use ex bits in simp_all)
  then show ?thesis using pull_keys_example [OF ex] ex(1) by blast
qed


end
