(* ===== verification/Watcher.thy ===== *)
theory Watcher
  imports Complex_Main Background
begin

unbundle bit_operations_syntax

text \<open>
  The watcher (\<open>src/valuewatcher_GEN_.go\<close>), which disables writes when disk or memory run short and
  enables them again later, and the flusher (\<open>src/valueflusher_GEN_.go\<close>), which flushes a store with
  few modifications.  What \<open>du\<close> and \<open>sigar\<close> measure is an input; the \<open>float64\<close> ratios are rationals.
\<close>

section \<open>The watcher\<close>

record valueWatcherState =
  wt_interval :: nat
  wt_diskFreeDisableThreshold :: u64
  wt_diskFreeReenableThreshold :: u64
  wt_diskUsageDisableThreshold :: rat
  wt_diskUsageReenableThreshold :: rat
  wt_memFreeDisableThreshold :: u64
  wt_memFreeReenableThreshold :: u64
  wt_memUsageDisableThreshold :: rat
  wt_memUsageReenableThreshold :: rat
  wt_disk :: "u64 \<times> u64 \<times> u64"
  wt_diskTOC :: "u64 \<times> u64 \<times> u64"
  wt_mem :: "u64 \<times> u64 \<times> u64"
  wt_launcher :: "launcher option"

text \<open>The thresholds of the configuration, in the order of the fields.\<close>

record watcherCfg =
  wc_diskFreeDisable :: u64
  wc_diskFreeReenable :: u64
  wc_diskUsageDisable :: rat
  wc_diskUsageReenable :: rat
  wc_memFreeDisable :: u64
  wc_memFreeReenable :: u64
  wc_memUsageDisable :: rat
  wc_memUsageReenable :: rat

definition watcherConfig :: "watcherCfg \<Rightarrow> valueWatcherState" where
  "watcherConfig cfg =
     \<lparr>wt_interval = 60,
      wt_diskFreeDisableThreshold = wc_diskFreeDisable cfg, wt_diskFreeReenableThreshold = wc_diskFreeReenable cfg,
      wt_diskUsageDisableThreshold = wc_diskUsageDisable cfg, wt_diskUsageReenableThreshold = wc_diskUsageReenable cfg,
      wt_memFreeDisableThreshold = wc_memFreeDisable cfg, wt_memFreeReenableThreshold = wc_memFreeReenable cfg,
      wt_memUsageDisableThreshold = wc_memUsageDisable cfg, wt_memUsageReenableThreshold = wc_memUsageReenable cfg,
      wt_disk = (0, 0, 0), wt_diskTOC = (0, 0, 0), wt_mem = (0, 0, 0), wt_launcher = None\<rparr>"

definition watcherStartup :: "valueWatcherState \<Rightarrow> valueWatcherState" where
  "watcherStartup st = (case wt_launcher st of None \<Rightarrow> st\<lparr>wt_launcher := Some launcher_start\<rparr> | Some _ \<Rightarrow> st)"

definition watcherShutdown_notify :: "nat \<Rightarrow> valueWatcherState \<Rightarrow> valueWatcherState" where
  "watcherShutdown_notify c st = st\<lparr>wt_launcher := map_option (launcher_disable c) (wt_launcher st)\<rparr>"

definition watcherShutdown_done :: "nat \<Rightarrow> valueWatcherState \<Rightarrow> valueWatcherState outcome" where
  "watcherShutdown_done c st =
     (case wt_launcher st of None \<Rightarrow> Done st
      | Some l \<Rightarrow> if c \<in> set (la_done l) then Done (st\<lparr>wt_launcher := None\<rparr>) else Blocked)"

text \<open>
  What is measured: free, used, size and usage of the disk of the values and of the TOC files, which
  may be the same, and of the memory, if it can be measured.
\<close>

record measure4 =
  me_free :: u64
  me_used :: u64
  me_size :: u64
  me_usage :: rat

record reading =
  re_disk :: measure4
  re_diskTOC :: measure4
  re_mem :: "measure4 option"

datatype watch = CLEAR | DISK_FREE | DISK_USAGE | MEM_FREE | MEM_USAGE

text \<open>When nothing was short: each test that trips overrides the ones before it.\<close>

definition watch_trip :: "valueWatcherState \<Rightarrow> reading \<Rightarrow> watch" where
  "watch_trip st r =
     (let w1 = (if 1 < wt_diskFreeDisableThreshold st \<and>
                   (me_free (re_disk r) \<le> wt_diskFreeDisableThreshold st \<or>
                    me_free (re_diskTOC r) \<le> wt_diskFreeDisableThreshold st) then DISK_FREE else CLEAR);
          w2 = (if 0 < wt_diskUsageDisableThreshold st \<and>
                   (wt_diskUsageDisableThreshold st \<le> me_usage (re_disk r) \<or>
                    wt_diskUsageDisableThreshold st \<le> me_usage (re_diskTOC r)) then DISK_USAGE else w1);
          w3 = (case re_mem r of
                  Some m \<Rightarrow> if 1 < wt_memFreeDisableThreshold st \<and> me_free m \<le> wt_memFreeDisableThreshold st then MEM_FREE else w2
                | None \<Rightarrow> w2)
      in case re_mem r of
           Some m \<Rightarrow> if 0 < wt_memUsageDisableThreshold st \<and> wt_memUsageDisableThreshold st \<le> me_usage m then MEM_USAGE else w3
         | None \<Rightarrow> w3)"

text \<open>When something was short: whether what was short is there again.\<close>

definition watch_clear :: "valueWatcherState \<Rightarrow> reading \<Rightarrow> watch \<Rightarrow> watch" where
  "watch_clear st r w =
     (case w of
        CLEAR \<Rightarrow> CLEAR
      | DISK_FREE \<Rightarrow>
          if 1 < wt_diskFreeReenableThreshold st \<and> wt_diskFreeReenableThreshold st \<le> me_free (re_disk r) \<and>
             wt_diskFreeReenableThreshold st \<le> me_free (re_diskTOC r) then CLEAR else w
      | DISK_USAGE \<Rightarrow>
          if 0 < wt_diskUsageReenableThreshold st \<and> me_usage (re_disk r) \<le> wt_diskUsageReenableThreshold st \<and>
             me_usage (re_diskTOC r) \<le> wt_diskUsageReenableThreshold st then CLEAR else w
      | MEM_FREE \<Rightarrow>
          (case re_mem r of
             Some m \<Rightarrow> if 1 < wt_memFreeReenableThreshold st \<and> wt_memFreeReenableThreshold st \<le> me_free m then CLEAR else w
           | None \<Rightarrow> w)
      | MEM_USAGE \<Rightarrow>
          (case re_mem r of
             Some m \<Rightarrow> if 0 < wt_memUsageReenableThreshold st \<and> me_usage m \<le> wt_memUsageReenableThreshold st then CLEAR else w
           | None \<Rightarrow> w))"

definition watch_record :: "reading \<Rightarrow> valueWatcherState \<Rightarrow> valueWatcherState" where
  "watch_record r st =
     (let three = (\<lambda>m. (me_free m, me_used m, me_size m))
      in st\<lparr>wt_disk := three (re_disk r), wt_diskTOC := three (re_diskTOC r),
            wt_mem := (case re_mem r of None \<Rightarrow> wt_mem st | Some m \<Rightarrow> three m)\<rparr>)"

text \<open>One check, on what was short, the watcher's state and the store.\<close>

definition watcher_check ::
  "('m, 'b) locmap_ops \<Rightarrow> 'b store_cfg \<Rightarrow> reading \<Rightarrow> watch \<times> valueWatcherState \<times> 'm valueStore \<Rightarrow>
   (watch \<times> valueWatcherState \<times> 'm valueStore) outcome" where
  "watcher_check L cfg r x =
     (case x of (w, st, s) \<Rightarrow>
        let st' = watch_record r st
        in if w = CLEAR
           then let w' = watch_trip st r
                in if w' \<noteq> CLEAR then bind_outcome (disableWrites L cfg False s) (\<lambda>s'. Done (w', st', s'))
                   else Done (w', st', s)
           else let w' = watch_clear st r w
                in if w' = CLEAR then bind_outcome (enableWrites L cfg False s) (\<lambda>s'. Done (w', st', s'))
                   else Done (w', st', s))"

definition watcherLauncher ::
  "('m, 'b) locmap_ops \<Rightarrow> 'b store_cfg \<Rightarrow> reading \<Rightarrow> bool \<Rightarrow> launcher \<times> watch \<times> valueWatcherState \<times> 'm valueStore \<Rightarrow>
   (launcher \<times> watch \<times> valueWatcherState \<times> 'm valueStore) outcome" where
  "watcherLauncher L cfg r = plain_turn (watcher_check L cfg r)"

section \<open>The flusher\<close>

record valueFlusherState =
  fl_interval :: nat
  fl_flusherThreshold :: u32
  fl_launcher :: "launcher option"

definition flusherConfig :: "u32 \<Rightarrow> valueFlusherState" where
  "flusherConfig threshold = \<lparr>fl_interval = 60, fl_flusherThreshold = threshold, fl_launcher = None\<rparr>"

definition flusherStartup :: "valueFlusherState \<Rightarrow> valueFlusherState" where
  "flusherStartup st = (case fl_launcher st of None \<Rightarrow> st\<lparr>fl_launcher := Some launcher_start\<rparr> | Some _ \<Rightarrow> st)"

definition flusherShutdown_notify :: "nat \<Rightarrow> valueFlusherState \<Rightarrow> valueFlusherState" where
  "flusherShutdown_notify c st = st\<lparr>fl_launcher := map_option (launcher_disable c) (fl_launcher st)\<rparr>"

definition flusherShutdown_done :: "nat \<Rightarrow> valueFlusherState \<Rightarrow> valueFlusherState outcome" where
  "flusherShutdown_done c st =
     (case fl_launcher st of None \<Rightarrow> Done st
      | Some l \<Rightarrow> if c \<in> set (la_done l) then Done (st\<lparr>fl_launcher := None\<rparr>) else Blocked)"

text \<open>
  One check: the modifications since the last one, an \<open>int32\<close>, are read and taken off the counter.  The
  state is whether it just flushed, whether it waits for the flush, and the store.
\<close>

definition flusher_due :: "u32 \<Rightarrow> u32 \<Rightarrow> bool \<Rightarrow> bool" where
  "flusher_due threshold m justFlushed \<longleftrightarrow>
     (m = 0 \<and> \<not> justFlushed) \<or> (0 < sint m \<and> sint m < sint threshold)"

definition flusher_check ::
  "('m, 'b) locmap_ops \<Rightarrow> 'b store_cfg \<Rightarrow> u32 \<Rightarrow> bool \<times> bool \<times> 'm valueStore \<Rightarrow> (bool \<times> bool \<times> 'm valueStore) outcome" where
  "flusher_check L cfg threshold x =
     (case x of (justFlushed, waiting, s) \<Rightarrow>
        if waiting then bind_outcome (Flush_wait s) (\<lambda>s'. Done (True, False, s'))
        else let m = ct_modifications (st_counters s);
                 s1 = tally (\<lambda>c. c\<lparr>ct_modifications := ct_modifications c - m\<rparr>) s
             in if flusher_due threshold m justFlushed
                then bind_outcome (Flush_send L cfg s1) (\<lambda>s'. Done (justFlushed, True, s'))
                else Done (False, False, s1))"

text \<open>While it waits for the flush the launcher does not look at its channel.\<close>

definition flusherLauncher ::
  "('m, 'b) locmap_ops \<Rightarrow> 'b store_cfg \<Rightarrow> u32 \<Rightarrow> bool \<Rightarrow> launcher \<times> bool \<times> bool \<times> 'm valueStore \<Rightarrow>
   (launcher \<times> bool \<times> bool \<times> 'm valueStore) outcome" where
  "flusherLauncher L cfg threshold timeout x =
     (case x of (_, _, waiting, _) \<Rightarrow> plain_turn (flusher_check L cfg threshold) (timeout \<or> waiting) x)"

section \<open>Disabling reaches every writer\<close>

lemma broadcast_switch:
  assumes "set ws \<subseteq> {0..<length (st_memWriters s)}"
  shows "broadcast L cfg (if on then EnableReq else DisableReq) ws s =
    Done (s\<lparr>st_memWriters := fold (\<lambda>w mws. mws[w := (mws ! w)\<lparr>mw_enabled := on\<rparr>]) ws (st_memWriters s)\<rparr>)"
  using assms
  by (induction ws arbitrary: s) (auto simp: memWriter_def set_memWriter_def split: if_splits)

lemma fold_switch:
  "length (fold (\<lambda>w mws. mws[w := (mws ! w)\<lparr>mw_enabled := on\<rparr>]) ws mws) = length mws"
  "k < length mws \<Longrightarrow> set ws \<subseteq> {0..<length mws} \<Longrightarrow>
   fold (\<lambda>w mws. mws[w := (mws ! w)\<lparr>mw_enabled := on\<rparr>]) ws mws ! k =
     (if k \<in> set ws then (mws ! k)\<lparr>mw_enabled := on\<rparr> else mws ! k)"
  by (induction ws arbitrary: mws) (auto simp: nth_list_update)

definition switched :: "bool \<Rightarrow> 'm valueStore \<Rightarrow> 'm valueStore" where
  "switched on s = s\<lparr>st_memWriters := map (\<lambda>mw. mw\<lparr>mw_enabled := on\<rparr>) (st_memWriters s)\<rparr>"

lemma broadcast_all_switch:
  "broadcast_all L cfg (if on then EnableReq else DisableReq) s = Done (switched on s)"
proof -
  let ?n = "length (st_memWriters s)"
  have "fold (\<lambda>w mws. mws[w := (mws ! w)\<lparr>mw_enabled := on\<rparr>]) [0..<?n] (st_memWriters s) =
      map (\<lambda>mw. mw\<lparr>mw_enabled := on\<rparr>) (st_memWriters s)"
    by (rule nth_equalityI) (simp_all add: fold_switch)
  then show ?thesis
    using broadcast_switch [of "[0..<?n]" s L cfg on] by (simp add: broadcast_all_def switched_def)
qed

lemmas enable_all = broadcast_all_switch [where on = True, simplified]
lemmas disable_all = broadcast_all_switch [where on = False, simplified]

section \<open>Properties\<close>

lemma writer_of_less: "st_memWriters s \<noteq> [] \<Longrightarrow> writer_of a s < length (st_memWriters s)"
  by (simp add: writer_of_def)

lemma store_write_disabled:
  assumes "st_memWriters s \<noteq> []"
  shows "store_write L cfg a b ts v False (switched False s) = Done ((ts, Some ErrDisabled), switched False s)"
  using assms writer_of_less [of s a]
  by (simp add: store_write_def memWriter_def switched_def writer_of_def)

lemma watch_trip_cases:
  "watch_trip st r = DISK_FREE \<Longrightarrow> me_free (re_disk r) \<le> wt_diskFreeDisableThreshold st \<or>
     me_free (re_diskTOC r) \<le> wt_diskFreeDisableThreshold st"
  "watch_trip st r = DISK_USAGE \<Longrightarrow> wt_diskUsageDisableThreshold st \<le> me_usage (re_disk r) \<or>
     wt_diskUsageDisableThreshold st \<le> me_usage (re_diskTOC r)"
  "watch_trip st r = MEM_FREE \<Longrightarrow> \<exists>m. re_mem r = Some m \<and> me_free m \<le> wt_memFreeDisableThreshold st"
  "watch_trip st r = MEM_USAGE \<Longrightarrow> \<exists>m. re_mem r = Some m \<and> wt_memUsageDisableThreshold st \<le> me_usage m"
  by (auto simp: watch_trip_def Let_def split: if_splits option.splits)


definition store_writers :: "u64 alm valueStore" where
  "store_writers = store_new\<lparr>st_memWriters := [\<lparr>mw_enabled = True, mw_block = None, mw_tocOffset = 0, mw_memOffset = 0,
     mw_running = True\<rparr>]\<rparr>"

definition watcher_example :: valueWatcherState where
  "watcher_example = watcherConfig \<lparr>wc_diskFreeDisable = 100, wc_diskFreeReenable = 200, wc_diskUsageDisable = 0,
     wc_diskUsageReenable = 0, wc_memFreeDisable = 0, wc_memFreeReenable = 0, wc_memUsageDisable = 0, wc_memUsageReenable = 0\<rparr>"

definition reading_example :: reading where
  "reading_example = (let m = \<lparr>me_free = 50, me_used = 950, me_size = 1000, me_usage = 1\<rparr>
     in \<lparr>re_disk = m, re_diskTOC = m, re_mem = None\<rparr>)"

lemma trip_example: "watch_trip watcher_example reading_example = DISK_FREE"
  by (simp add: watch_trip_def watcher_example_def watcherConfig_def reading_example_def Let_def)


text \<open>The thresholds to enable again leave a gap to those to disable.\<close>

definition apart :: "valueWatcherState \<Rightarrow> bool" where
  "apart st \<longleftrightarrow> wt_diskFreeDisableThreshold st < wt_diskFreeReenableThreshold st \<and>
     wt_diskUsageReenableThreshold st < wt_diskUsageDisableThreshold st \<and>
     wt_memFreeDisableThreshold st < wt_memFreeReenableThreshold st \<and>
     wt_memUsageReenableThreshold st < wt_memUsageDisableThreshold st"

text \<open>
  C37. The watcher does not flap: if the thresholds to enable writes again are apart from those to
  disable them, a check that tripped and is repeated on the same measurements changes nothing more.
\<close>

theorem watcher_no_flapping:
  assumes "apart st" "watcher_check L cfg r (CLEAR, st, s) = Done (w, st', s')" "w \<noteq> CLEAR"
  shows "watcher_check L cfg r (w, st', s') = Done (w, st', s')"
proof -
  have w: "w = watch_trip st r" "st' = watch_record r st"
    using assms(2) by (auto simp: watcher_check_def Let_def split: if_splits elim!: bind_outcome_DoneE)
  have same: "watch_clear (watch_record r st) r w = watch_clear st r w" "watch_record r (watch_record r st) = watch_record r st"
    by (auto simp: watch_clear_def watch_record_def Let_def split: watch.splits option.splits)
  have "watch_clear st r w = w"
    using assms(1) watch_trip_cases [of st r] w(1) by (cases w) (auto simp: watch_clear_def apart_def)
  then show ?thesis
    using assms(3) by (simp add: watcher_check_def w(2) same)
qed

theorem watcher_no_flapping_witness:
  "\<exists>s'. watcher_check alm_ops cfg_example reading_example (DISK_FREE, watch_record reading_example
      (watcher_example\<lparr>wt_diskUsageDisableThreshold := 2, wt_memFreeReenableThreshold := 5, wt_memUsageDisableThreshold := 2\<rparr>), s') =
    Done (DISK_FREE, watch_record reading_example
      (watcher_example\<lparr>wt_diskUsageDisableThreshold := 2, wt_memFreeReenableThreshold := 5, wt_memUsageDisableThreshold := 2\<rparr>), s')"
proof -
  let ?st = "watcher_example\<lparr>wt_diskUsageDisableThreshold := 2, wt_memFreeReenableThreshold := 5, wt_memUsageDisableThreshold := 2\<rparr>"
  have apart: "apart ?st" by (simp add: apart_def watcher_example_def watcherConfig_def)
  have "watch_trip ?st reading_example = DISK_FREE"
    by (simp add: watch_trip_def watcher_example_def watcherConfig_def reading_example_def Let_def)
  then have "watcher_check alm_ops cfg_example reading_example (CLEAR, ?st, store_writers) =
      Done (DISK_FREE, watch_record reading_example ?st, switched False (store_writers\<lparr>st_readOnly := True\<rparr>))"
    by (simp add: watcher_check_def disableWrites_def disable_all)
  from watcher_no_flapping [OF apart this] show ?thesis by blast
qed

text \<open>
  The watcher does not notice that a user enables writes while disk or memory is short: after
  \<open>EnableWrites\<close> the next checks leave the writers enabled as long as the shortage lasts.
\<close>

theorem watcher_misses_user_enable:
  assumes short: "w \<noteq> CLEAR" "watch_clear st r w = w"
    and user: "EnableWrites L cfg s = Done s'"
  shows "watcher_check L cfg r (w, st, s') = Done (w, watch_record r st, s') \<and>
    (\<forall>mw \<in> set (st_memWriters s'). mw_enabled mw)"
  using assms by (auto simp: watcher_check_def EnableWrites_def enableWrites_def enable_all switched_def)

theorem watcher_misses_user_enable_witness:
  "\<exists>s'. watcher_check alm_ops cfg_example reading_example (DISK_FREE, watcher_example, s') =
     Done (DISK_FREE, watch_record reading_example watcher_example, s') \<and> map mw_enabled (st_memWriters s') = [True]"
proof -
  let ?s = "switched True (store_writers\<lparr>st_readOnly := False, st_userDisabled := False\<rparr>)"
  have "watch_clear watcher_example reading_example DISK_FREE = DISK_FREE"
    "EnableWrites alm_ops cfg_example store_writers = Done ?s"
    by (simp_all add: watch_clear_def watcher_example_def watcherConfig_def reading_example_def Let_def
        EnableWrites_def enableWrites_def enable_all)
  from watcher_misses_user_enable [OF _ this] show ?thesis
    by (intro exI [of _ ?s]) (simp add: switched_def store_writers_def)
qed

end
