(* ===== verification/Compaction.thy ===== *)
theory Compaction
  imports Background "HOL-Library.List_Lexorder" "HOL-Library.Char_ord"
begin

unbundle bit_operations_syntax

text \<open>
  Compaction (\<open>src/valuecompaction_GEN_.go\<close>): a file with many stale entries is replaced by writing its
  live values again.  The file system is an input: what each call gives for a name.  The workers of a
  compaction share the store with every other goroutine: \<open>ifc e n\<close> is what the others do to the store
  before step \<open>n\<close> of entry \<open>e\<close>.
\<close>

section \<open>Names of files\<close>

definition has_suffix :: "string \<Rightarrow> string \<Rightarrow> bool" where
  "has_suffix suf name \<longleftrightarrow> length suf \<le> length name \<and> drop (length name - length suf) name = suf"

definition toc_suffix :: "template \<Rightarrow> string" where "toc_suffix T = ''.'' @ tp_t T @ ''toc''"

text \<open>The timestamp of a TOC file: none for another file or a bad timestamp.\<close>

definition toc_name :: "template \<Rightarrow> string \<Rightarrow> i64 option" where
  "toc_name T name =
     (if \<not> has_suffix (toc_suffix T) name then None
      else case ParseInt (take (length name - length (toc_suffix T)) name) of
        None \<Rightarrow> None
      | Some namets \<Rightarrow> if namets = 0 then None else Some namets)"

definition value_name :: "string \<Rightarrow> string" where
  "value_name name = take (length name - 3) name"

section \<open>The file system\<close>

text \<open>\<open>de_remove\<close> and \<open>de_rename\<close> say which calls fail.  Removing or renaming is recorded.\<close>

record dir_env =
  de_readdirnames :: "string list + go_error"
  de_openTOC :: "string \<Rightarrow> bytes + go_error"
  de_open :: "string \<Rightarrow> bytes + go_error"
  de_stat :: "string \<Rightarrow> nat + go_error"
  de_remove :: "string \<Rightarrow> bool"
  de_rename :: "string \<Rightarrow> bool"

datatype file_op = RemoveFile string | RenameFile string | CloseBlock u32

definition remove_or_rename :: "dir_env \<Rightarrow> string \<Rightarrow> file_op list" where
  "remove_or_rename env name =
     (if \<not> de_remove env name then [RemoveFile name]
      else if \<not> de_rename env name then [RenameFile name] else [])"

section \<open>State\<close>

text \<open>
  \<open>cp_free\<close> counts the batches in each of the \<open>compactionFreeBatchChans\<close>, of which there are none before
  the start and after the shutdown; \<open>cp_stuck\<close> counts goroutines of earlier calls that still wait on the
  channels.
\<close>

record valueCompactionState =
  cp_interval :: nat
  cp_threshold :: "u32 \<Rightarrow> u32"
  cp_ageThreshold :: i64
  cp_workerCount :: nat
  cp_launcher :: "launcher option"
  cp_free :: "nat list"
  cp_stuck :: nat

text \<open>\<open>threshold checked\<close> is \<open>uint32(float64(checked)*threshold)\<close>.\<close>

definition compactionConfig :: "nat \<Rightarrow> (u32 \<Rightarrow> u32) \<Rightarrow> nat \<Rightarrow> nat \<Rightarrow> valueCompactionState" where
  "compactionConfig interval threshold ageThreshold workers =
     \<lparr>cp_interval = interval, cp_threshold = threshold, cp_ageThreshold = of_nat (ageThreshold * 1000000000),
      cp_workerCount = workers, cp_launcher = None, cp_free = [], cp_stuck = 0\<rparr>"

definition compactionStartup :: "valueCompactionState \<Rightarrow> valueCompactionState" where
  "compactionStartup st =
     st\<lparr>cp_launcher := (case cp_launcher st of None \<Rightarrow> Some launcher_start | Some l \<Rightarrow> Some l),
        cp_free := replicate (cp_workerCount st) 3, cp_stuck := 0\<rparr>"

definition compactionShutdown_notify :: "nat \<Rightarrow> valueCompactionState \<Rightarrow> valueCompactionState" where
  "compactionShutdown_notify c st = st\<lparr>cp_launcher := map_option (launcher_disable c) (cp_launcher st)\<rparr>"

definition compactionShutdown_done :: "nat \<Rightarrow> valueCompactionState \<Rightarrow> valueCompactionState outcome" where
  "compactionShutdown_done c st =
     (case cp_launcher st of
        None \<Rightarrow> Done (st\<lparr>cp_free := [], cp_stuck := 0\<rparr>)
      | Some l \<Rightarrow> if c \<in> set (la_done l) then Done (st\<lparr>cp_launcher := None, cp_free := [], cp_stuck := 0\<rparr>) else Blocked)"

section \<open>Candidates\<close>

text \<open>\<open>now\<close> is the time in nanoseconds.\<close>

definition compactionCandidate :: "template \<Rightarrow> i64 \<Rightarrow> valueCompactionState \<Rightarrow> string \<Rightarrow> 'm valueStore \<Rightarrow> i64 \<times> bool" where
  "compactionCandidate T now st name s =
     (case toc_name T name of
        None \<Rightarrow> (0, False)
      | Some namets \<Rightarrow>
          if namets = st_activeTOCA s \<or> namets = st_activeTOCB s then (namets, False)
          else if sint (now - cp_ageThreshold st) \<le> sint namets then (namets, False)
          else (namets, True))"

section \<open>Batches\<close>

text \<open>
  What a call meets: when the reading of the TOC file is stopped by the control channel and which reads
  fail, whether the control channel is closed when the reading is over, in which order the batches of
  the different workers are taken, and what the other goroutines do.
\<close>

record ('m, 'b) call_env =
  ce_stop :: "nat \<Rightarrow> bool"
  ce_rderr :: "nat \<Rightarrow> go_error option"
  ce_cancel :: bool
  ce_arrange :: "(nat \<times> 'b valueTOCEntry list) list \<Rightarrow> (nat \<times> 'b valueTOCEntry list) list"
  ce_ifc :: "'b valueTOCEntry \<Rightarrow> nat \<Rightarrow> 'm valueStore \<Rightarrow> 'm valueStore"
  ce_reached :: bool

text \<open>Each worker takes its batches in the order they were sent.\<close>

definition arranges :: "((nat \<times> 'e list) list \<Rightarrow> (nat \<times> 'e list) list) \<Rightarrow> bool" where
  "arranges f \<longleftrightarrow> (\<forall>sent k. filter (\<lambda>b. fst b = k) (f sent) = filter (\<lambda>b. fst b = k) sent)"

text \<open>
  A reader that got past the header waits for a free batch of the first channel, and of each channel it
  has entries for.
\<close>

definition starved :: "template \<Rightarrow> bytes \<Rightarrow> nat list \<Rightarrow> (nat \<times> 'e list) list \<Rightarrow> bool" where
  "starved T fpr free sent \<longleftrightarrow> snd (snd (readValueHeaderTOC T fpr)) = None \<and>
     ((free \<noteq> [] \<and> hd free = 0) \<or> (\<exists>(k, _) \<in> set sent. k < length free \<and> free ! k = 0))"

definition lose_batches :: "nat list \<Rightarrow> (nat \<times> 'e list) list \<Rightarrow> nat list" where
  "lose_batches free lost = fold (\<lambda>(k, _) f. f[k := f ! k - 1]) lost free"

section \<open>Sampling a file\<close>

record sample =
  sm_stale :: u32
  sm_checked :: u32
  sm_skip :: "nat list"

definition sample_entry :: "('m, 'b) locmap_ops \<Rightarrow> u32 \<Rightarrow> nat \<Rightarrow> 'b valueTOCEntry \<Rightarrow> 'm valueStore \<Rightarrow> sample \<Rightarrow> sample" where
  "sample_entry L toCheck k wr s sm =
     (if k \<in> set (sm_skip sm) then sm
      else case lookup L (KeyA wr) (KeyB wr) s of (timestampBits, blockID, _, _) \<Rightarrow>
        let stale = (if timestampBits \<noteq> TimestampBits wr \<or> blockID \<noteq> BlockID wr then sm_stale sm + 1 else sm_stale sm);
            c = sm_checked sm + 1
        in sm\<lparr>sm_stale := stale, sm_checked := c,
              sm_skip := (if toCheck \<le> c then k # sm_skip sm else sm_skip sm)\<rparr>)"

text \<open>A batch taken after the worker was told to skip the rest is dropped, and not given back.\<close>

fun sample_batches ::
  "('m, 'b) locmap_ops \<Rightarrow> u32 \<Rightarrow> ('b valueTOCEntry \<Rightarrow> nat \<Rightarrow> 'm valueStore \<Rightarrow> 'm valueStore) \<Rightarrow> (nat \<times> 'b valueTOCEntry list) list \<Rightarrow>
   sample \<times> (nat \<times> 'b valueTOCEntry list) list \<times> 'm valueStore \<Rightarrow> sample \<times> (nat \<times> 'b valueTOCEntry list) list \<times> 'm valueStore" where
  "sample_batches L toCheck ifc [] x = x"
| "sample_batches L toCheck ifc ((k, batch) # bs) (sm, lost, s) =
     (if k \<in> set (sm_skip sm) then sample_batches L toCheck ifc bs (sm, lost @ [(k, batch)], s)
      else sample_batches L toCheck ifc bs
        (case foldl (\<lambda>(sm, s) wr. let s1 = ifc wr 0 s in (sample_entry L toCheck k wr s1 sm, s1)) (sm, s) batch of
           (sm', s') \<Rightarrow> (sm', lost, s')))"

definition needsCompaction ::
  "('m, 'b) locmap_ops \<Rightarrow> (bytes \<Rightarrow> u32) \<Rightarrow> 'b store_cfg \<Rightarrow> dir_env \<Rightarrow> ('m, 'b) call_env \<Rightarrow> string \<Rightarrow> u32 \<Rightarrow> u32 \<Rightarrow>
   valueCompactionState \<times> 'm valueStore \<Rightarrow> (bool \<times> valueCompactionState \<times> 'm valueStore) outcome" where
  "needsCompaction L sum32 cfg env ce nametoc candidateBlockID toCheck x =
     (case x of (st, s) \<Rightarrow>
        case de_openTOC env nametoc of
          Inr _ \<Rightarrow> Done (False, st\<lparr>cp_stuck := cp_stuck st + length (cp_free st)\<rparr>, s)
        | Inl fpr \<Rightarrow>
            (case valueReadTOCEntriesBatched (c_layout cfg) sum32 (ce_stop ce) (ce_rderr ce) fpr candidateBlockID
                    (length (cp_free st)) (c_recoveryBatchSize cfg) of
               None \<Rightarrow> Panic
             | Some (sent, _, errs) \<Rightarrow>
                 if starved (ly_template (c_layout cfg)) fpr (cp_free st) sent \<or> (0 < cp_stuck st \<and> \<not> ce_reached ce) then Blocked
                 else (case sample_batches L toCheck (ce_ifc ce) (ce_arrange ce sent)
                              (\<lparr>sm_stale = 0, sm_checked = 0, sm_skip = []\<rparr>, [], s) of
                         (sm, lost, s') \<Rightarrow>
                           Done (errs \<noteq> [] \<or> cp_threshold st (sm_checked sm) < sm_stale sm,
                                 st\<lparr>cp_free := lose_batches (cp_free st) lost\<rparr>, s'))))"

section \<open>Rewriting a file\<close>

record compact_counts =
  cc_readErrors :: u32
  cc_writeErrors :: u32
  cc_count :: u32
  cc_rewrote :: u32
  cc_stale :: u32

definition compact_start :: compact_counts where
  "compact_start = \<lparr>cc_readErrors = 0, cc_writeErrors = 0, cc_count = 0, cc_rewrote = 0, cc_stale = 0\<rparr>"

text \<open>One entry; the result says whether the batch goes on.\<close>

definition compact_entry ::
  "('m, 'b) locmap_ops \<Rightarrow> checksummed_read \<Rightarrow> 'b store_cfg \<Rightarrow> ('b valueTOCEntry \<Rightarrow> nat \<Rightarrow> 'm valueStore \<Rightarrow> 'm valueStore) \<Rightarrow>
   'b valueTOCEntry \<Rightarrow> compact_counts \<times> 'm valueStore \<Rightarrow> (bool \<times> compact_counts \<times> 'm valueStore) outcome" where
  "compact_entry L rd cfg ifc wr x =
     (case x of (cc0, s0) \<Rightarrow>
        let cc = cc0\<lparr>cc_count := cc_count cc0 + 1\<rparr>; stale = cc\<lparr>cc_stale := cc_stale cc + 1\<rparr>; s1 = ifc wr 0 s0
        in case lookup L (KeyA wr) (KeyB wr) s1 of (timestampBits, _, _, _) \<Rightarrow>
             if TimestampBits wr < timestampBits \<or> timestampBits = 0 then Done (True, stale, s1)
             else let s2 = ifc wr 1 s1
             in bind_outcome (store_read L rd cfg (KeyA wr) (KeyB wr) [] s2) (\<lambda>(timestampBits, val, err).
                  if IsNotFound err then Done (True, stale, s2)
                  else if err \<noteq> None then Done (True, cc\<lparr>cc_readErrors := cc_readErrors cc + 1\<rparr>, s2)
                  else if TimestampBits wr < timestampBits then Done (True, stale, s2)
                  else bind_outcome (store_write L cfg (KeyA wr) (KeyB wr) (TimestampBits wr OR TSB_COMPACTION_REWRITE)
                           val True (ifc wr 2 s2)) (\<lambda>((_, werr), s3).
                         if werr \<noteq> None then Done (False, cc\<lparr>cc_writeErrors := cc_writeErrors cc + 1\<rparr>, s3)
                         else Done (True, cc\<lparr>cc_rewrote := cc_rewrote cc + 1\<rparr>, s3))))"

fun compact_batch where
  "compact_batch L rd cfg ifc [] x = Done x"
| "compact_batch L rd cfg ifc (wr # batch) x =
     bind_outcome (compact_entry L rd cfg ifc wr x) (\<lambda>(again, x').
       if again then compact_batch L rd cfg ifc batch x' else Done x')"

text \<open>After a write error the batches are dropped, and not given back.\<close>

fun compact_batches ::
  "('m, 'b) locmap_ops \<Rightarrow> checksummed_read \<Rightarrow> 'b store_cfg \<Rightarrow> ('b valueTOCEntry \<Rightarrow> nat \<Rightarrow> 'm valueStore \<Rightarrow> 'm valueStore) \<Rightarrow>
   (nat \<times> 'b valueTOCEntry list) list \<Rightarrow> compact_counts \<times> (nat \<times> 'b valueTOCEntry list) list \<times> 'm valueStore \<Rightarrow>
   (compact_counts \<times> (nat \<times> 'b valueTOCEntry list) list \<times> 'm valueStore) outcome" where
  "compact_batches L rd cfg ifc [] x = Done x"
| "compact_batches L rd cfg ifc ((k, batch) # bs) (cc, lost, s) =
     (if cc_writeErrors cc \<noteq> 0 then compact_batches L rd cfg ifc bs (cc, lost @ [(k, batch)], s)
      else bind_outcome (compact_batch L rd cfg ifc batch (cc, s)) (\<lambda>(cc', s').
             compact_batches L rd cfg ifc bs (cc', lost, s')))"

definition spindown :: "dir_env \<Rightarrow> string \<Rightarrow> u32 \<Rightarrow> file_op list" where
  "spindown env nametoc blockID =
     remove_or_rename env nametoc @ remove_or_rename env (value_name nametoc) @
     (if blockID \<noteq> 0 then [CloseBlock blockID] else [])"

text \<open>
  The result is what was done to the files, the compaction state and the store.  A call that cannot open
  the file or is cancelled leaves its goroutines behind.
\<close>

definition compactFile ::
  "('m, 'b) locmap_ops \<Rightarrow> checksummed_read \<Rightarrow> (bytes \<Rightarrow> u32) \<Rightarrow> 'b store_cfg \<Rightarrow> dir_env \<Rightarrow> ('m, 'b) call_env \<Rightarrow> string \<Rightarrow> u32 \<Rightarrow>
   valueCompactionState \<times> 'm valueStore \<Rightarrow> (file_op list \<times> valueCompactionState \<times> 'm valueStore) outcome" where
  "compactFile L rd sum32 cfg env ce nametoc blockID x =
     (case x of (st, s) \<Rightarrow>
        let leave = st\<lparr>cp_stuck := cp_stuck st + length (cp_free st)\<rparr>
        in case de_openTOC env nametoc of
          Inr _ \<Rightarrow> Done ([], leave, s)
        | Inl fpr \<Rightarrow>
            (case valueReadTOCEntriesBatched (c_layout cfg) sum32 (ce_stop ce) (ce_rderr ce) fpr blockID
                    (length (cp_free st)) (c_recoveryBatchSize cfg) of
               None \<Rightarrow> Panic
             | Some (sent, fdc, errs) \<Rightarrow>
                 if starved (ly_template (c_layout cfg)) fpr (cp_free st) sent then Blocked
                 else bind_outcome (compact_batches L rd cfg (ce_ifc ce) (ce_arrange ce sent) (compact_start, [], s))
                   (\<lambda>(cc, lost, s').
                      if ce_cancel ce then Done ([], leave, s')
                      else if 0 < cp_stuck st \<and> \<not> ce_reached ce then Blocked
                      else let st' = st\<lparr>cp_free := lose_batches (cp_free st) lost\<rparr>
                           in if cc_readErrors cc \<noteq> 0 \<or> cc_writeErrors cc \<noteq> 0 \<or> (errs \<noteq> [] \<and> fdc = 0)
                              then Done ([], st', s')
                              else Done (spindown env nametoc blockID, st', s'))))"

section \<open>The pass\<close>

text \<open>A worker on one job; a file of less than 1000 entries is compacted without sampling it.\<close>

definition compactionWorker ::
  "('m, 'b) locmap_ops \<Rightarrow> checksummed_read \<Rightarrow> (bytes \<Rightarrow> u32) \<Rightarrow> 'b store_cfg \<Rightarrow> dir_env \<Rightarrow> ('m, 'b) call_env \<times> ('m, 'b) call_env \<Rightarrow>
   string \<times> u32 \<Rightarrow> valueCompactionState \<times> 'm valueStore \<Rightarrow> (file_op list \<times> valueCompactionState \<times> 'm valueStore) outcome" where
  "compactionWorker L rd sum32 cfg env ces job x =
     (case job of (nametoc, candidateBlockID) \<Rightarrow>
        case x of (st, s) \<Rightarrow>
          case valueTOCStat (c_layout cfg) (de_stat env nametoc) (de_openTOC env nametoc) of
            Inr _ \<Rightarrow> Done ([], st, s)
          | Inl entries \<Rightarrow>
              if entries < 1000
              then compactFile L rd sum32 cfg env (snd ces) nametoc candidateBlockID
                     (st, tally (\<lambda>c. c\<lparr>ct_smallFileCompactions := ct_smallFileCompactions c + 1\<rparr>) s)
              else bind_outcome (needsCompaction L sum32 cfg env (fst ces) nametoc candidateBlockID
                     (min (of_int entries) 1000000) (st, s)) (\<lambda>(needed, st', s').
                     if \<not> needed then Done ([], st', s')
                     else compactFile L rd sum32 cfg env (snd ces) nametoc candidateBlockID
                       (st', tally (\<lambda>c. c\<lparr>ct_compactions := ct_compactions c + 1\<rparr>) s')))"

text \<open>The jobs, in the order of the names.  The state is what was done to files, the compaction state and the store.\<close>

type_synonym 'm compact_state = "file_op list \<times> valueCompactionState \<times> 'm valueStore"

definition compact_name where
  "compact_name L rd sum32 cfg env ces now name x =
     (case x of (ops, st, s) \<Rightarrow>
        case compactionCandidate (ly_template (c_layout cfg)) now st name s of
          (_, False) \<Rightarrow> Done (ops, st, s)
        | (namets, True) \<Rightarrow>
            bind_outcome (locBlockIDFromTimestampnano namets s) (\<lambda>i.
            bind_outcome (compactionWorker L rd sum32 cfg env (ces name) (name, i) (st, s)) (\<lambda>(ops', x').
              Done (ops @ ops', x'))))"

text \<open>
  A notification that is found while the names are gone through (before the one at \<open>early\<close>) closes the
  control channel and waits for the workers, but their channel of jobs is not closed: they wait for
  another job.  One that comes later, \<open>took\<close>, finds that channel closed.
\<close>

definition compactionPass ::
  "('m, 'b) locmap_ops \<Rightarrow> checksummed_read \<Rightarrow> (bytes \<Rightarrow> u32) \<Rightarrow> 'b store_cfg \<Rightarrow> dir_env \<Rightarrow> (string \<Rightarrow> ('m, 'b) call_env \<times> ('m, 'b) call_env) \<Rightarrow>
   i64 \<Rightarrow> nat option \<Rightarrow> bool \<Rightarrow> i64 \<Rightarrow> 'm compact_state bg_pass" where
  "compactionPass L rd sum32 cfg env ces now early took elapsed q y =
     (let stamp = (\<lambda>(ops, st, s). (ops, st, tally (\<lambda>c. c\<lparr>ct_compactionNanoseconds := elapsed\<rparr>) s))
      in case de_readdirnames env of
           Inr _ \<Rightarrow> Done (None, q, stamp y)
         | Inl names \<Rightarrow>
             (case early of
                Some i \<Rightarrow>
                  if i < length names \<and> q \<noteq> []
                  then if cp_workerCount (fst (snd y)) = 0 then Done (Some (hd q), tl q, stamp y) else Blocked
                  else bind_outcome (fold_outcome (compact_name L rd sum32 cfg env ces now) (sort names) y) (\<lambda>y'.
                         Done (None, q, stamp y'))
              | None \<Rightarrow>
                  bind_outcome (fold_outcome (compact_name L rd sum32 cfg env ces now) (sort names) y) (\<lambda>y'.
                    Done (if took then case q of [] \<Rightarrow> (None, q, stamp y') | n # q' \<Rightarrow> (Some n, q', stamp y')
                          else (None, q, stamp y')))))"

definition compactionLauncher where
  "compactionLauncher L rd sum32 cfg env ces now early took elapsed =
     launcher_turn (compactionPass L rd sum32 cfg env ces now early took elapsed)"

interpretation compaction_pass: background_pass "compactionPass L rd sum32 cfg env ces now early took elapsed"
  for L :: "('m, 'b) locmap_ops" and rd sum32 cfg env ces now early took elapsed
  by unfold_locales
    (auto simp: compactionPass_def Let_def split: if_splits option.splits sum.splits list.splits elim!: bind_outcome_DoneE)

end
