(* ===== verification/CompactionSafe.thy ===== *)
theory CompactionSafe
  imports Compaction
begin

unbundle bit_operations_syntax

text \<open>
  What compaction keeps: a file is only removed after every live entry of it was written elsewhere.  The
  lemmas follow one location block through the writes of a compaction.
\<close>

section \<open>Writes put values in the blocks of the writers\<close>

definition wblocks :: "'m valueStore \<Rightarrow> u32 set" where
  "wblocks s = set (st_freeMemBlockChan s) \<union> {i. \<exists>mw \<in> set (st_memWriters s). mw_block mw = Some i}"

text \<open>No block the writers use has number \<open>B\<close>, and \<open>B\<close> is a file.\<close>

definition block_apart :: "u32 \<Rightarrow> 'm valueStore \<Rightarrow> bool" where
  "block_apart B s \<longleftrightarrow> B \<noteq> 0 \<and> (\<exists>fl. st_locBlocks s (unat B) = Some (FileBlock fl)) \<and>
     (\<forall>i \<in> wblocks s. \<forall>m. st_locBlocks s (unat i) = Some (MemBlock m) \<longrightarrow> mb_id m \<noteq> B \<and> mb_id m \<noteq> 0)"

lemma wblocks_update: "wblocks (set_memWriter w mw s) \<subseteq> wblocks s \<union> set_option (mw_block mw)"
  using set_update_subset_insert [of "st_memWriters s" w mw] by (fastforce simp: wblocks_def set_memWriter_def)

lemma wblocks_writer: "w < length (st_memWriters s) \<Longrightarrow> set_option (mw_block (st_memWriters s ! w)) \<subseteq> wblocks s"
  by (fastforce simp: wblocks_def)

lemma wblocks_other [simp]:
  "wblocks (st_fileMemBlockChan_update f s) = wblocks s" "wblocks (st_locmap_update g s) = wblocks s"
  "wblocks (set_locBlock i blk s) = wblocks s" "wblocks (st_locBlocks_update h s) = wblocks s"
  by (simp_all add: wblocks_def set_locBlock_def)

lemma memWriter_writeE:
  assumes res: "memWriter L cfg w (WriteReq r) s = Done (ans, s')" and w: "w < length (st_memWriters s)"
  obtains (refused) err where "ans = Some (Some err, wr_timestampbits r)" "s' = s"
  | (put) i s2 alloc where "memWriter_put L cfg w i r alloc s2 = Done (ans, s')" "i \<in> wblocks s" "wblocks s2 \<subseteq> wblocks s"
      "st_locBlocks s2 = st_locBlocks s" "st_locmap s2 = st_locmap s" "w < length (st_memWriters s2)"
      "mw_block (st_memWriters s2 ! w) = Some i"
proof -
  let ?mw = "st_memWriters s ! w" and ?alloc = "max (length (wr_value r)) (c_minValueAlloc cfg)"
  define s1 where "s1 = (case mw_block ?mw of None \<Rightarrow> s
     | Some i \<Rightarrow> if unat (c_pageSize cfg) < mw_tocOffset ?mw + FILE_ENTRY_SIZE (c_layout cfg) \<or>
                   unat (c_pageSize cfg) < mw_memOffset ?mw + ?alloc then memWriter_send w i s else s)"
  have "wblocks (memWriter_send w i s) \<subseteq> wblocks s" for i
    using wblocks_update [of w "?mw\<lparr>mw_block := None\<rparr>"] by (fastforce simp: memWriter_send_def)
  then have s1: "st_locmap s1 = st_locmap s" "st_locBlocks s1 = st_locBlocks s" "wblocks s1 \<subseteq> wblocks s"
    "length (st_memWriters s1) = length (st_memWriters s)" "st_freeMemBlockChan s1 = st_freeMemBlockChan s"
    by (auto simp: s1_def memWriter_send_def set_memWriter_def split: option.splits)
  show thesis
  proof (cases "(\<not> mw_enabled ?mw \<and> \<not> wr_internal r) \<or> unat (c_valueCap cfg) < length (wr_value r)")
    case True
    then show thesis using res refused by (auto simp: memWriter_def Let_def split: if_splits)
  next
    case False
    then have run: "Done (ans, s') = (case mw_block (st_memWriters s1 ! w) of
        Some i \<Rightarrow> memWriter_put L cfg w i r ?alloc s1
      | None \<Rightarrow> (case st_freeMemBlockChan s1 of [] \<Rightarrow> Blocked
         | i # rest \<Rightarrow> memWriter_put L cfg w i r ?alloc
             (set_memWriter w ((st_memWriters s1 ! w)\<lparr>mw_block := Some i, mw_tocOffset := 0, mw_memOffset := 0\<rparr>)
                (s1\<lparr>st_freeMemBlockChan := rest\<rparr>))))"
      using res unfolding memWriter_def Let_def writeMsg.case s1_def [symmetric] by auto
    show thesis
    proof (cases "mw_block (st_memWriters s1 ! w)")
      case (Some i)
      then have "i \<in> wblocks s1" using w s1(4) by (auto simp: wblocks_def)
      then show thesis using put [of i ?alloc s1] run Some s1 w by auto
    next
      case None
      then obtain i rest where free: "st_freeMemBlockChan s1 = i # rest"
        using run by (auto split: list.splits)
      let ?s2 = "set_memWriter w ((st_memWriters s1 ! w)\<lparr>mw_block := Some i, mw_tocOffset := 0, mw_memOffset := 0\<rparr>)
                (s1\<lparr>st_freeMemBlockChan := rest\<rparr>)"
      have i: "i \<in> wblocks s" using free s1(5) by (auto simp: wblocks_def)
      have "wblocks ?s2 \<subseteq> wblocks (s1\<lparr>st_freeMemBlockChan := rest\<rparr>) \<union> {i}"
        using wblocks_update [of w _ "s1\<lparr>st_freeMemBlockChan := rest\<rparr>"] by fastforce
      also have "\<dots> \<subseteq> wblocks s" using i s1(3) free by (auto simp: wblocks_def)
      finally show thesis
        using put [of i ?alloc ?s2] run None free s1 w i by (simp add: set_memWriter_def)
    qed
  qed
qed

text \<open>What one put does to the location map and the blocks.\<close>

lemma memWriter_put_effect:
  assumes "memWriter_put L cfg w i r alloc s = Done (ans, s')" "w < length (st_memWriters s)"
  obtains m off len where "st_locBlocks s (unat i) = Some (MemBlock m)"
    "st_locmap s' = snd (lm_Set L (st_locmap s) (wr_keyA r) (wr_keyB r) (wr_timestampbits r AND NOT TSB_COMPACTION_REWRITE)
       (mb_id m) off len (wr_timestampbits r AND TSB_COMPACTION_REWRITE \<noteq> 0))"
    "\<exists>m'. st_locBlocks s' = (st_locBlocks s)(unat i := Some (MemBlock m')) \<and> mb_id m' = mb_id m"
    "wblocks s' \<subseteq> wblocks s" "fst (the ans) = None" "ans \<noteq> None"
proof -
  let ?mw = "st_memWriters s ! w"
  obtain m where m: "st_locBlocks s (unat i) = Some (MemBlock m)"
    using assms(1) by (auto simp: memWriter_put_def Let_def split: option.splits valueLocBlock.splits)
  obtain pts lm where set: "lm_Set L (st_locmap s) (wr_keyA r) (wr_keyB r) (wr_timestampbits r AND NOT TSB_COMPACTION_REWRITE)
       (mb_id m) (of_nat (mw_memOffset ?mw)) (of_nat (length (wr_value r))) (wr_timestampbits r AND TSB_COMPACTION_REWRITE \<noteq> 0) = (pts, lm)"
    by (meson surj_pair)
  have wb: "wblocks (set_memWriter w (?mw\<lparr>mw_tocOffset := t, mw_memOffset := o'\<rparr>) (set_locBlock i blk (s\<lparr>st_locmap := lm\<rparr>))) \<subseteq> wblocks s"
    for t o' blk
    using wblocks_update [of w "?mw\<lparr>mw_tocOffset := t, mw_memOffset := o'\<rparr>" "set_locBlock i blk (s\<lparr>st_locmap := lm\<rparr>)"]
      wblocks_writer [OF assms(2)] by auto
  show thesis
    using assms(1) m set wb
    by (intro that [of m "of_nat (mw_memOffset ?mw)" "of_nat (length (wr_value r))"])
      (auto simp: memWriter_put_def Let_def set_memWriter_def set_locBlock_def split: if_splits)
qed


section \<open>What happens to the locations in a block\<close>

text \<open>
  From \<open>s\<close> to \<open>s'\<close> no key moves into block \<open>B\<close>, those that stay there keep their location, timestamps do
  not go back and the writers stay away from \<open>B\<close>.
\<close>

definition keeps_off :: "('m, 'b) locmap_ops \<Rightarrow> u32 \<Rightarrow> 'm valueStore \<Rightarrow> 'm valueStore \<Rightarrow> bool" where
  "keeps_off L B s s' \<longleftrightarrow> (block_apart B s \<longrightarrow> block_apart B s') \<and>
     (\<forall>a b. fst (lm_Get L (st_locmap s) a b) \<le> fst (lm_Get L (st_locmap s') a b) \<and>
        (fst (snd (lm_Get L (st_locmap s') a b)) = B \<longrightarrow> lm_Get L (st_locmap s') a b = lm_Get L (st_locmap s) a b))"

lemma keeps_off_refl [simp]: "keeps_off L B s s"
  by (simp add: keeps_off_def)

lemma keeps_off_trans: "keeps_off L B s s' \<Longrightarrow> keeps_off L B s' s'' \<Longrightarrow> keeps_off L B s s''"
proof -
  assume a: "keeps_off L B s s'" and b: "keeps_off L B s' s''"
  have "fst (lm_Get L (st_locmap s) x y) \<le> fst (lm_Get L (st_locmap s'') x y)" for x y
    using a b order_trans unfolding keeps_off_def by blast
  moreover have "lm_Get L (st_locmap s'') x y = lm_Get L (st_locmap s) x y"
    if "fst (snd (lm_Get L (st_locmap s'') x y)) = B" for x y
    using a b that unfolding keeps_off_def by auto
  ultimately show ?thesis using a b unfolding keeps_off_def by blast
qed

lemma keeps_off_tally [simp]: "keeps_off L B s (tally f s') = keeps_off L B s s'"
  by (simp add: keeps_off_def block_apart_def wblocks_def tally_def)

lemma writer_of_bound: "st_memWriters s \<noteq> [] \<Longrightarrow> writer_of keyA s < length (st_memWriters s)"
  by (simp add: writer_of_def)

lemma block_apart_update:
  assumes "block_apart B s" "i \<in> wblocks s" "st_locBlocks s (unat i) = Some (MemBlock m)"
    "st_locBlocks s' = (st_locBlocks s)(unat i := Some (MemBlock m'))" "mb_id m' = mb_id m" "wblocks s' \<subseteq> wblocks s"
  shows "block_apart B s'"
proof -
  have "unat i \<noteq> unat B" using assms(1,3) by (auto simp: block_apart_def)
  then show ?thesis using assms by (fastforce simp: block_apart_def split: if_splits)
qed

context locmap_contract
begin

lemma put_off:
  assumes "memWriter_put L cfg w i r alloc s = Done (ans, s')" "w < length (st_memWriters s)" "i \<in> wblocks s"
    "block_apart B s" "wr_timestampbits r AND NOT TSB_COMPACTION_REWRITE \<noteq> 0"
  shows "keeps_off L B s s'"
    and "wr_timestampbits r AND TSB_COMPACTION_REWRITE \<noteq> 0 \<Longrightarrow>
      fst (lm_Get L (st_locmap s) (wr_keyA r) (wr_keyB r)) \<le> wr_timestampbits r AND NOT TSB_COMPACTION_REWRITE \<Longrightarrow>
      fst (snd (lm_Get L (st_locmap s') (wr_keyA r) (wr_keyB r))) \<noteq> B"
proof -
  from memWriter_put_effect [OF assms(1,2)] obtain m off len where m: "st_locBlocks s (unat i) = Some (MemBlock m)"
    and lm: "st_locmap s' = snd (lm_Set L (st_locmap s) (wr_keyA r) (wr_keyB r) (wr_timestampbits r AND NOT TSB_COMPACTION_REWRITE)
       (mb_id m) off len (wr_timestampbits r AND TSB_COMPACTION_REWRITE \<noteq> 0))"
    and blocks: "\<exists>m'. st_locBlocks s' = (st_locBlocks s)(unat i := Some (MemBlock m')) \<and> mb_id m' = mb_id m"
    and wb: "wblocks s' \<subseteq> wblocks s" by metis
  have "block_apart B s'" using blocks block_apart_update [OF assms(4,3) m _ _ wb] by blast
  moreover have id: "mb_id m \<noteq> B" "mb_id m \<noteq> 0" using assms(3,4) m by (auto simp: block_apart_def)
  ultimately show "keeps_off L B s s'"
    using Set_mono [OF assms(5) id(2)] by (auto simp: keeps_off_def lm Set_get [OF assms(5)])
  show "fst (snd (lm_Get L (st_locmap s') (wr_keyA r) (wr_keyB r))) \<noteq> B"
    if "wr_timestampbits r AND TSB_COMPACTION_REWRITE \<noteq> 0"
      "fst (lm_Get L (st_locmap s) (wr_keyA r) (wr_keyB r)) \<le> wr_timestampbits r AND NOT TSB_COMPACTION_REWRITE"
    using that id by (auto simp: lm Set_get [OF assms(5)] set_accepts_def)
qed

lemma store_write_off:
  assumes "store_write L cfg a b ts v internal s = Done ((pts, err), s')" "block_apart B s"
    "ts AND NOT TSB_COMPACTION_REWRITE \<noteq> 0"
  shows "keeps_off L B s s'"
    and "err = None \<Longrightarrow> ts AND TSB_COMPACTION_REWRITE \<noteq> 0 \<Longrightarrow>
      fst (lm_Get L (st_locmap s) a b) \<le> ts AND NOT TSB_COMPACTION_REWRITE \<Longrightarrow>
      fst (snd (lm_Get L (st_locmap s') a b)) \<noteq> B"
proof -
  let ?r = "\<lparr>wr_keyA = a, wr_keyB = b, wr_timestampbits = ts, wr_value = v, wr_internal = internal\<rparr>"
  have w: "writer_of a s < length (st_memWriters s)"
    using assms(1) by (intro writer_of_bound) (auto simp: store_write_def)
  from assms(1) obtain s1 f where run: "memWriter L cfg (writer_of a s) (WriteReq ?r) s = Done (Some (err, pts), s1)"
    and s': "s' = tally f s1 \<or> s' = s1"
    by (fastforce simp: store_write_def split: if_splits option.splits elim!: bind_outcome_DoneE)
  have eff: "keeps_off L B s s1 \<and> (err = None \<longrightarrow> ts AND TSB_COMPACTION_REWRITE \<noteq> 0 \<longrightarrow>
      fst (lm_Get L (st_locmap s) a b) \<le> ts AND NOT TSB_COMPACTION_REWRITE \<longrightarrow>
      fst (snd (lm_Get L (st_locmap s1) a b)) \<noteq> B)"
    using run w
  proof (cases rule: memWriter_writeE)
    case (refused e)
    then show ?thesis by simp
  next
    case (put i s2 alloc)
    have "block_apart B s2" using assms(2) put(3,4) by (fastforce simp: block_apart_def)
    moreover have "i \<in> wblocks s2" using put(6,7) by (auto simp: wblocks_def)
    ultimately have "keeps_off L B s2 s1"
      "ts AND TSB_COMPACTION_REWRITE \<noteq> 0 \<Longrightarrow> fst (lm_Get L (st_locmap s2) a b) \<le> ts AND NOT TSB_COMPACTION_REWRITE \<Longrightarrow>
       fst (snd (lm_Get L (st_locmap s1) a b)) \<noteq> B"
      using put_off [OF put(1,6), of B] assms(3) by auto
    then show ?thesis
      using put(5) \<open>block_apart B s2\<close> by (auto simp: keeps_off_def)
  qed
  have lm: "st_locmap s' = st_locmap s1" using s' by (auto simp: tally_def)
  show "keeps_off L B s s'" using eff s' by auto
  show "fst (snd (lm_Get L (st_locmap s') a b)) \<noteq> B"
    if "err = None" "ts AND TSB_COMPACTION_REWRITE \<noteq> 0" "fst (lm_Get L (st_locmap s) a b) \<le> ts AND NOT TSB_COMPACTION_REWRITE"
    using eff that by (simp add: lm)
qed

end

section \<open>Entries leave the block\<close>

definition live_ts :: "u64 \<Rightarrow> bool" where
  "live_ts ts \<longleftrightarrow> ts \<noteq> 0 \<and> ts AND TSB_COMPACTION_REWRITE = 0 \<and> ts AND TSB_DELETION = 0 \<and> ts AND TSB_LOCAL_REMOVAL = 0"

text \<open>If the key of \<open>wr\<close> was in block \<open>B\<close> as \<open>wr\<close> says, it no longer is.\<close>

definition moved :: "('m, 'b) locmap_ops \<Rightarrow> u32 \<Rightarrow> 'b valueTOCEntry \<Rightarrow> 'm valueStore \<Rightarrow> 'm valueStore \<Rightarrow> bool" where
  "moved L B wr s s' \<longleftrightarrow>
     (fst (lm_Get L (st_locmap s) (KeyA wr) (KeyB wr)) = TimestampBits wr \<longrightarrow> live_ts (TimestampBits wr) \<longrightarrow>
      fst (snd (lm_Get L (st_locmap s') (KeyA wr) (KeyB wr))) \<noteq> B)"

lemma moved_between:
  assumes "keeps_off L B s s1" "moved L B wr s1 s2" "keeps_off L B s1 s2" "keeps_off L B s2 s'"
  shows "moved L B wr s s'"
proof (unfold moved_def, intro impI notI)
  let ?g = "\<lambda>s. lm_Get L (st_locmap s) (KeyA wr) (KeyB wr)"
  assume "fst (?g s) = TimestampBits wr" "live_ts (TimestampBits wr)" and B: "fst (snd (?g s')) = B"
  moreover from this have "?g s' = ?g s2" "?g s2 = ?g s1" "?g s1 = ?g s"
    using assms(1,3,4) unfolding keeps_off_def by metis+
  ultimately show False using assms(2) unfolding moved_def by metis
qed

lemma rewrite_bits:
  fixes ts :: u64
  assumes "ts AND TSB_COMPACTION_REWRITE = 0"
  shows "(ts OR TSB_COMPACTION_REWRITE) AND NOT TSB_COMPACTION_REWRITE = ts"
    and "(ts OR TSB_COMPACTION_REWRITE) AND TSB_COMPACTION_REWRITE \<noteq> 0"
proof -
  have "\<not> bit ts 0"
    using assms by (simp add: TSB_COMPACTION_REWRITE_def and_one_eq bit_0 even_iff_mod_2_eq_zero)
  then show "(ts OR TSB_COMPACTION_REWRITE) AND NOT TSB_COMPACTION_REWRITE = ts"
    by (intro bit_word_eqI) (auto simp: TSB_COMPACTION_REWRITE_def bit_simps intro: gr0I)
  show "(ts OR TSB_COMPACTION_REWRITE) AND TSB_COMPACTION_REWRITE \<noteq> 0"
    by (auto simp: TSB_COMPACTION_REWRITE_def bit_eq_iff bit_simps intro!: exI [of _ 0])
qed

text \<open>The other goroutines stay off the block, reads of a file that fail do not say \<open>ErrNotFound\<close>, and
  timestamps of the TOC file are those the store writes.\<close>

definition others_off :: "('m, 'b) locmap_ops \<Rightarrow> u32 \<Rightarrow> ('b valueTOCEntry \<Rightarrow> nat \<Rightarrow> 'm valueStore \<Rightarrow> 'm valueStore) \<Rightarrow> bool" where
  "others_off L B ifc \<longleftrightarrow> (\<forall>wr n s. keeps_off L B s (ifc wr n s))"

definition not_found_free :: "checksummed_read \<Rightarrow> bool" where
  "not_found_free rd \<longleftrightarrow> (\<forall>ci disk off len. \<not> IsNotFound (snd (rd ci disk off len)))"

definition plain_ts :: "'b valueTOCEntry \<Rightarrow> bool" where
  "plain_ts wr \<longleftrightarrow> TimestampBits wr \<noteq> 0 \<and> TimestampBits wr AND TSB_COMPACTION_REWRITE = 0"

text \<open>The error counts: how far they can have come, and that they stay up.\<close>

definition counted :: "compact_counts \<Rightarrow> nat \<Rightarrow> bool" where
  "counted cc n \<longleftrightarrow> unat (cc_readErrors cc) \<le> n \<and> unat (cc_writeErrors cc) \<le> n"

definition trouble :: "compact_counts \<Rightarrow> bool" where
  "trouble cc \<longleftrightarrow> cc_readErrors cc \<noteq> 0 \<or> cc_writeErrors cc \<noteq> 0"

lemma unat_inc32: "unat (x :: u32) \<le> n \<Longrightarrow> Suc n < 2 ^ 32 \<Longrightarrow> unat (x + 1) = Suc (unat x)"
  by (simp add: unat_add_small32)

lemma file_read_error:
  assumes "not_found_free rd" "block_apart B s" "lm_Get L (st_locmap s) a b = (ts, B, off, len)" "live_ts ts"
    "store_read L rd cfg a b v s = Done (ts', val, err)"
  shows "ts' = ts" "\<not> IsNotFound err"
proof -
  obtain fl where fl: "st_locBlocks s (unat B) = Some (FileBlock fl)" "B \<noteq> 0" using assms(2) by (auto simp: block_apart_def)
  have "valueStoreFile_read rd (sf_interval fl) fl ts off len v = (ts', val, err)"
    using assms(3-5) fl
    by (auto simp: store_read_def read_fuel_def live_ts_def locBlock_def numeral_2_eq_2 split: if_splits)
  moreover have "ts AND TSB_DELETION = 0" using assms(4) by (simp add: live_ts_def)
  ultimately show "ts' = ts" "\<not> IsNotFound err"
    using assms(1) by (auto simp: valueStoreFile_read_def not_found_free_def split: prod.splits) (metis snd_conv)
qed

lemma compact_entryE:
  assumes "compact_entry L rd cfg ifc wr (cc, s) = Done (again, cc', s')"
  obtains (old) "again" "s' = ifc wr 0 s" "trouble cc' = trouble cc" "counted cc' = counted cc"
      "TimestampBits wr < fst (lm_Get L (st_locmap s') (KeyA wr) (KeyB wr)) \<or> fst (lm_Get L (st_locmap s') (KeyA wr) (KeyB wr)) = 0"
  | (unread) tsb val err where "again" "s' = ifc wr 1 (ifc wr 0 s)" "trouble cc' = trouble cc" "counted cc' = counted cc"
      "store_read L rd cfg (KeyA wr) (KeyB wr) [] s' = Done (tsb, val, err)" "IsNotFound err \<or> TimestampBits wr < tsb"
  | (readError) "again" "s' = ifc wr 1 (ifc wr 0 s)" "cc_readErrors cc' = cc_readErrors cc + 1" "cc_writeErrors cc' = cc_writeErrors cc"
  | (written) val pts werr where "store_write L cfg (KeyA wr) (KeyB wr) (TimestampBits wr OR TSB_COMPACTION_REWRITE) val True
        (ifc wr 2 (ifc wr 1 (ifc wr 0 s))) = Done ((pts, werr), s')"
      "cc_readErrors cc' = cc_readErrors cc" "again = (werr = None)"
      "cc_writeErrors cc' = (if werr = None then cc_writeErrors cc else cc_writeErrors cc + 1)"
proof -
  let ?s1 = "ifc wr 0 s" let ?s2 = "ifc wr 1 ?s1"
  have tb: "fst (lookup L a b t) = fst (lm_Get L (st_locmap t) a b)" for a b t
    by (simp add: lookup_def split: prod.splits)
  show thesis
  proof (cases "TimestampBits wr < fst (lm_Get L (st_locmap ?s1) (KeyA wr) (KeyB wr)) \<or>
      fst (lm_Get L (st_locmap ?s1) (KeyA wr) (KeyB wr)) = 0")
    case True
    then have "again \<and> s' = ?s1 \<and> cc' = cc\<lparr>cc_count := cc_count cc + 1, cc_stale := cc_stale cc + 1\<rparr>"
      using assms by (auto simp: compact_entry_def tb [symmetric] Let_def split: prod.splits)
    then show thesis using True by (intro old) (auto simp: trouble_def counted_def)
  next
    case False
    then obtain tsb val err where rd: "store_read L rd cfg (KeyA wr) (KeyB wr) [] ?s2 = Done (tsb, val, err)"
      using assms by (auto simp: compact_entry_def tb [symmetric] Let_def split: prod.splits elim!: bind_outcome_DoneE)
    have eq: "fst (lookup L (KeyA wr) (KeyB wr) ?s1) = fst (lm_Get L (st_locmap ?s1) (KeyA wr) (KeyB wr))" by (rule tb)
    consider "IsNotFound err \<or> err = None \<and> TimestampBits wr < tsb" | "\<not> IsNotFound err" "err \<noteq> None"
      | "err = None" "\<not> TimestampBits wr < tsb" by (cases "err = None") auto
    then show thesis
    proof cases
      case 1
      then have "again \<and> s' = ?s2 \<and> cc' = cc\<lparr>cc_count := cc_count cc + 1, cc_stale := cc_stale cc + 1\<rparr>"
        using assms False rd eq by (auto simp: compact_entry_def Let_def split: prod.splits if_splits)
      then show thesis using 1 rd by (intro unread) (auto simp: trouble_def counted_def)
    next
      case 2
      then have "again \<and> s' = ?s2 \<and> cc' = cc\<lparr>cc_count := cc_count cc + 1, cc_readErrors := cc_readErrors cc + 1\<rparr>"
        using assms False rd eq by (auto simp: compact_entry_def Let_def split: prod.splits if_splits)
      then show thesis by (intro readError) auto
    next
      case 3
      then obtain pts werr where "store_write L cfg (KeyA wr) (KeyB wr) (TimestampBits wr OR TSB_COMPACTION_REWRITE) val True
          (ifc wr 2 ?s2) = Done ((pts, werr), s')" "again = (werr = None)"
        "cc' = (if werr = None then cc\<lparr>cc_count := cc_count cc + 1, cc_rewrote := cc_rewrote cc + 1\<rparr>
          else cc\<lparr>cc_count := cc_count cc + 1, cc_writeErrors := cc_writeErrors cc + 1\<rparr>)"
        using assms False rd eq
        by (auto simp: compact_entry_def Let_def IsNotFound_def split: prod.splits if_splits elim!: bind_outcome_DoneE)
      then show thesis using rd by (intro written) auto
    qed
  qed
qed

lemma compact_entry_moves:
  assumes C: "locmap_contract L" and rd: "not_found_free rd" and ifc: "others_off L B ifc" and ts: "plain_ts wr"
    and apart: "block_apart B s" and run: "compact_entry L rd cfg ifc wr (cc, s) = Done (again, cc', s')"
    and n: "counted cc n" "Suc n < 2 ^ 32"
  shows "keeps_off L B s s' \<and> counted cc' (Suc n) \<and> (trouble cc \<longrightarrow> trouble cc') \<and>
    (\<not> again \<longrightarrow> cc_writeErrors cc' \<noteq> 0) \<and>
    (trouble cc' \<or> moved L B wr s s')"
proof -
  let ?g = "\<lambda>t. lm_Get L (st_locmap t) (KeyA wr) (KeyB wr)"
  have off1: "keeps_off L B s (ifc wr 0 s)" and off2: "keeps_off L B s (ifc wr 1 (ifc wr 0 s))"
    and off3: "keeps_off L B s (ifc wr 2 (ifc wr 1 (ifc wr 0 s)))"
    using ifc keeps_off_trans unfolding others_off_def by blast+
  have same: "?g t = ?g s" if "keeps_off L B s t" "fst (snd (?g t)) = B" for t
    using that unfolding keeps_off_def by blast
  have same': "?g t = (TimestampBits wr, B, snd (snd (?g t)))"
    if "keeps_off L B s t" "fst (snd (?g t)) = B" "fst (?g s) = TimestampBits wr" for t
    using same [OF that(1,2)] that(2,3) by (metis prod.collapse)
  have more: "counted cc (Suc n)" using n(1) by (auto simp: counted_def)
  from run show ?thesis
  proof (cases rule: compact_entryE)
    case old
    have "moved L B wr s s'"
      using old(2,5) same [of s'] off1 by (auto simp: moved_def live_ts_def)
    then show ?thesis using old off1 more n by (auto simp: trouble_def)
  next
    case (unread tsb val err)
    have "moved L B wr s s'"
    proof (unfold moved_def, intro impI notI)
      assume *: "fst (?g s) = TimestampBits wr" "live_ts (TimestampBits wr)" "fst (snd (?g s')) = B"
      have "?g s' = (TimestampBits wr, B, fst (snd (snd (?g s'))), snd (snd (snd (?g s'))))"
        using same' [of s'] off2 unread(2) * by simp
      moreover have "block_apart B s'" using off2 apart unread(2) by (simp add: keeps_off_def)
      ultimately show False using file_read_error [OF rd _ _ *(2) unread(5)] unread(6) by blast
    qed
    then show ?thesis using unread off2 more by (auto simp: trouble_def)
  next
    case readError
    then show ?thesis
      using off2 n unat_inc32 [of "cc_readErrors cc" n] by (auto simp: counted_def trouble_def unat_eq_zero [symmetric] simp del: unat_eq_zero)
  next
    case (written val pts werr)
    let ?s3 = "ifc wr 2 (ifc wr 1 (ifc wr 0 s))" and ?ts = "TimestampBits wr OR TSB_COMPACTION_REWRITE"
    have bits: "?ts AND NOT TSB_COMPACTION_REWRITE = TimestampBits wr" "?ts AND TSB_COMPACTION_REWRITE \<noteq> 0" "TimestampBits wr \<noteq> 0"
      using rewrite_bits ts by (auto simp: plain_ts_def)
    have "block_apart B ?s3" using off3 apart by (simp add: keeps_off_def)
    note w = locmap_contract.store_write_off [OF C written(1) this, unfolded bits, OF bits(3)]
    have off: "keeps_off L B s s'" using off3 w(1) keeps_off_trans by blast
    show ?thesis
    proof (cases "werr = None")
      case True
      have "moved L B wr s s'"
        using w(2) [OF True bits(2)] same [of s'] off w(1) unfolding moved_def keeps_off_def by force
      then show ?thesis using off written True more by (auto simp: trouble_def counted_def)
    next
      case False
      then show ?thesis
        using off written n unat_inc32 [of "cc_writeErrors cc" n]
        by (auto simp: counted_def trouble_def unat_eq_zero [symmetric] simp del: unat_eq_zero)
    qed
  qed
qed

text \<open>The same for a batch and for all batches.\<close>

lemma compact_batch_moves:
  assumes C: "locmap_contract L" and rd: "not_found_free rd" and ifc: "others_off L B ifc"
  shows "\<forall>wr \<in> set batch. plain_ts wr \<Longrightarrow> block_apart B s \<Longrightarrow> compact_batch L rd cfg ifc batch (cc, s) = Done (cc', s') \<Longrightarrow>
    counted cc n \<Longrightarrow> n + length batch < 2 ^ 32 \<Longrightarrow>
    keeps_off L B s s' \<and> counted cc' (n + length batch) \<and> (trouble cc \<longrightarrow> trouble cc') \<and>
    (trouble cc' \<or> (\<forall>wr \<in> set batch. moved L B wr s s'))"
proof (induction batch arbitrary: cc s n)
  case (Cons wr batch)
  from Cons.prems(3) obtain again cc1 s1 where e: "compact_entry L rd cfg ifc wr (cc, s) = Done (again, cc1, s1)"
    and rest: "(if again then compact_batch L rd cfg ifc batch (cc1, s1) else Done (cc1, s1)) = Done (cc', s')"
    by (auto elim!: bind_outcome_DoneE)
  have "Suc n < 2 ^ 32" "plain_ts wr" using Cons.prems by auto
  note one = compact_entry_moves [OF C rd ifc this(2) Cons.prems(2) e Cons.prems(4) this(1)]
  show ?case
  proof (cases again)
    case True
    have "block_apart B s1" using one Cons.prems(2) by (simp add: keeps_off_def)
    then have IH: "keeps_off L B s1 s' \<and> counted cc' (Suc n + length batch) \<and> (trouble cc1 \<longrightarrow> trouble cc') \<and>
      (trouble cc' \<or> (\<forall>wr \<in> set batch. moved L B wr s1 s'))"
      using Cons.IH [of s1 cc1 "Suc n"] Cons.prems one True rest by simp
    moreover have "moved L B e s s'" if "e \<in> set (wr # batch)" "\<not> trouble cc'" for e
      using that one IH moved_between [of L B s s wr s1 s'] moved_between [of L B s s1 e s' s'] by auto
    ultimately show ?thesis using one keeps_off_trans [of L B s s1 s'] by auto
  next
    case False
    then show ?thesis using one rest by (auto simp: trouble_def counted_def)
  qed
qed (simp add: counted_def)

lemma compact_batches_moves:
  assumes C: "locmap_contract L" and rd: "not_found_free rd" and ifc: "others_off L B ifc"
  shows "\<forall>(k, batch) \<in> set bs. \<forall>wr \<in> set batch. plain_ts wr \<Longrightarrow> block_apart B s \<Longrightarrow>
    compact_batches L rd cfg ifc bs (cc, lost, s) = Done (cc', lost', s') \<Longrightarrow>
    counted cc n \<Longrightarrow> n + length (concat (map snd bs)) < 2 ^ 32 \<Longrightarrow>
    keeps_off L B s s' \<and> (trouble cc \<longrightarrow> trouble cc') \<and>
    (trouble cc' \<or> (\<forall>(k, batch) \<in> set bs. \<forall>wr \<in> set batch. moved L B wr s s'))"
proof (induction bs arbitrary: cc lost s n)
  case (Cons kb bs)
  obtain k batch where kb: "kb = (k, batch)" by (cases kb)
  show ?case
  proof (cases "cc_writeErrors cc = 0")
    case True
    from Cons.prems(3) True kb obtain cc1 s1 where e: "compact_batch L rd cfg ifc batch (cc, s) = Done (cc1, s1)"
      and rest: "compact_batches L rd cfg ifc bs (cc1, lost, s1) = Done (cc', lost', s')"
      by (auto elim!: bind_outcome_DoneE)
    have "\<forall>wr \<in> set batch. plain_ts wr" "n + length batch < 2 ^ 32" using Cons.prems kb by auto
    note one = compact_batch_moves [OF C rd ifc this(1) Cons.prems(2) e Cons.prems(4) this(2)]
    have "block_apart B s1" using one Cons.prems(2) by (simp add: keeps_off_def)
    then have IH: "keeps_off L B s1 s' \<and> (trouble cc1 \<longrightarrow> trouble cc') \<and>
      (trouble cc' \<or> (\<forall>(k, batch) \<in> set bs. \<forall>wr \<in> set batch. moved L B wr s1 s'))"
      using Cons.IH [of s1 cc1 lost "n + length batch"] Cons.prems one rest kb by (simp add: add.assoc)
    moreover have "moved L B e s s'" if "e \<in> set batch \<or> (\<exists>k b. (k, b) \<in> set bs \<and> e \<in> set b)" "\<not> trouble cc'" for e
      using that one IH moved_between [of L B s s e s1 s'] moved_between [of L B s s1 e s' s'] by auto
    ultimately show ?thesis using one keeps_off_trans [of L B s s1 s'] kb by auto
  next
    case False
    then show ?thesis
      using Cons.IH [of s cc "lost @ [(k, batch)]" n] Cons.prems kb by (auto simp: trouble_def)
  qed
qed simp

section \<open>Properties\<close>

lemma arranges_mset:
  fixes sent :: "(nat \<times> 'e list) list"
  shows "arranges f \<Longrightarrow> mset (f sent) = mset sent"
proof (rule multiset_eqI)
  fix x :: "nat \<times> 'e list" assume "arranges f"
  then have "filter (\<lambda>b. fst b = fst x) (f sent) = filter (\<lambda>b. fst b = fst x) sent" by (simp add: arranges_def)
  then have "count (filter_mset (\<lambda>b. fst b = fst x) (mset (f sent))) x = count (filter_mset (\<lambda>b. fst b = fst x) (mset sent)) x"
    by (metis mset_filter)
  then show "count (mset (f sent)) x = count (mset sent) x" by simp
qed

text \<open>
  C11. A file is removed only after its live values are safe: whenever \<open>compactFile\<close> goes as far as to close
  the location block of the file, every entry it read whose key was in that block under the timestamp of
  the entry, neither deleted nor marked for removal, is in another block afterwards, under that timestamp
  or a newer one, whatever the other writers and clearers did meanwhile and whatever went wrong.
\<close>

theorem compactFile_moves_live:
  assumes C: "locmap_contract L" and rd: "not_found_free rd" and ifc: "others_off L B (ce_ifc ce)" and arr: "arranges (ce_arrange ce)"
    and apart: "block_apart B s" and run: "compactFile L rd sum32 cfg env ce nametoc B (st, s) = Done (ops, st', s')"
    and closed: "CloseBlock B \<in> set ops"
    and sent: "de_openTOC env nametoc = Inl fpr" "valueReadTOCEntriesBatched (c_layout cfg) sum32 (ce_stop ce) (ce_rderr ce) fpr B
        (length (cp_free st)) (c_recoveryBatchSize cfg) = Some (sent, fdc, errs)"
    and plain: "\<forall>(k, batch) \<in> set sent. \<forall>wr \<in> set batch. plain_ts wr" and few: "length (concat (map snd sent)) < 2 ^ 32"
    and wr: "(k, batch) \<in> set sent" "wr \<in> set batch" "live_ts (TimestampBits wr)"
    and here: "lm_Get L (st_locmap s) (KeyA wr) (KeyB wr) = (TimestampBits wr, B, off, len)"
  shows "\<exists>ts i off' len'. lm_Get L (st_locmap s') (KeyA wr) (KeyB wr) = (ts, i, off', len') \<and>
    TimestampBits wr \<le> ts \<and> i \<noteq> B \<and> i \<noteq> 0"
proof -
  let ?bs = "ce_arrange ce sent"
  from run sent closed obtain cc lost where batches: "compact_batches L rd cfg (ce_ifc ce) ?bs (compact_start, [], s) = Done (cc, lost, s')"
    and quiet: "\<not> trouble cc"
    by (auto simp: compactFile_def Let_def trouble_def split: if_splits elim!: bind_outcome_DoneE)
  have mset: "mset ?bs = mset sent" by (rule arranges_mset [OF arr])
  then have set: "set ?bs = set sent" by (rule mset_eq_setD)
  have "length (concat (map snd ?bs)) = length (concat (map snd sent))"
    using mset by (metis length_concat map_map mset_map sum_mset_sum_list)
  then have "0 + length (concat (map snd ?bs)) < 2 ^ 32" using few by simp
  moreover have "counted compact_start 0" by (simp add: counted_def compact_start_def)
  ultimately have all: "keeps_off L B s s'" "moved L B wr s s'"
    using compact_batches_moves [OF C rd ifc _ apart batches, of 0] plain quiet wr(1,2) unfolding set by blast+
  obtain ts i off' len' where g: "lm_Get L (st_locmap s') (KeyA wr) (KeyB wr) = (ts, i, off', len')" by (metis prod_cases4)
  have "TimestampBits wr \<le> ts" using all(1) here g unfolding keeps_off_def by (metis fst_conv)
  moreover have "i \<noteq> B" using all(2) here g wr(3) by (simp add: moved_def)
  moreover have "i \<noteq> 0"
    using locmap_contract.Get_missing [OF C, of "st_locmap s'" "KeyA wr" "KeyB wr"] g calculation(1) wr(3) by (auto simp: live_ts_def)
  ultimately show ?thesis using g by blast
qed

definition toc_example :: bytes where
  "toc_example = checksummed (\<lambda>_. 0) 72 (value_head_toc ValueStore 72 @ putTOCEntry value_layout 1 2 0x300 5 2 @ term_block 72)"

definition env_example :: dir_env where
  "env_example = \<lparr>de_readdirnames = Inl [], de_openTOC = (\<lambda>_. Inl toc_example), de_open = (\<lambda>_. Inr ErrEOF),
     de_stat = (\<lambda>_. Inl (length toc_example)), de_remove = (\<lambda>_. False), de_rename = (\<lambda>_. False)\<rparr>"

definition call_example :: "(u64 alm, u64) call_env" where
  "call_example = \<lparr>ce_stop = (\<lambda>_. False), ce_rderr = (\<lambda>_. None), ce_cancel = False, ce_arrange = (\<lambda>bs. bs),
     ce_ifc = (\<lambda>_ _ s. s), ce_reached = True\<rparr>"

lemma toc_example_read:
  "valueReadTOCEntriesBatched value_layout (\<lambda>_. 0) (\<lambda>_. False) (\<lambda>_. None) toc_example 1 1 4 =
     Some ([(0, [\<lparr>KeyA = 1, KeyB = 2, TimestampBits = 0x300, BlockID = 1, Offset = 5, Length = 2\<rparr>])], 1, [])"
  by code_simp

definition store_compact :: "u64 alm valueStore" where
  "store_compact = store_new\<lparr>st_locmap := [((1, 2), (0x300, 1, 5, 2))],
     st_locBlocks := [1 \<mapsto> FileBlock \<lparr>sf_id = 1, sf_nameTimestamp = 5, sf_interval = 64, sf_writerOffset = 0, sf_cur = None, sf_checksumChan = [], sf_held = [],
         sf_toDisk = [], sf_seq = 0, sf_lastWasNil = False, sf_stopped = True, sf_disk = [], sf_index = 0, sf_freed = []\<rparr>,
       2 \<mapsto> MemBlock \<lparr>mb_id = 2, mb_fileID = 0, mb_fileOffset = 0, mb_toc = [], mb_values = []\<rparr>],
     st_memWriters := [\<lparr>mw_enabled = True, mw_block = None, mw_tocOffset = 0, mw_memOffset = 0, mw_running = True\<rparr>],
     st_freeMemBlockChan := [2]\<rparr>"

definition compaction_example :: valueCompactionState where
  "compaction_example = compactionStartup (compactionConfig 10 (\<lambda>_. 0) 1 1)"

lemma compact_example:
  "\<exists>ops st' s'. compactFile alm_ops (\<lambda>_ _ _ _. ([7, 9], None)) (\<lambda>_. 0) cfg_example env_example call_example ''5.valuetoc'' 1
     (compaction_example, store_compact) = Done (ops, st', s') \<and> CloseBlock 1 \<in> set ops"
proof -
  have bits: "(0x300 :: u64) AND TSB_DELETION = 0" "(0x300 :: u64) AND TSB_LOCAL_REMOVAL = 0" by code_simp+
  have hdr: "snd (snd (readValueHeaderTOC ValueStore toc_example)) = None" by code_simp
  have get: "lm_Get alm_ops [((1, 2), (0x300, 1, 5, 2))] 1 2 = (0x300, 1, 5, 2)" by (simp add: alm_ops_def alm_Get_def)
  have read: "store_read alm_ops (\<lambda>_ _ _ _. ([7, 9], None)) cfg_example 1 2 [] store_compact = Done (0x300, [7, 9], None)"
    unfolding store_read_def read_fuel_def numeral_2_eq_2
    by (simp add: store_compact_def get bits locBlock_def MaxUint16_def valueStoreFile_read_def)
  have wrote: "\<exists>s'. store_write alm_ops cfg_example 1 2 (0x300 OR TSB_COMPACTION_REWRITE) [7, 9] True store_compact = Done ((0x300, None), s')"
    by (simp add: store_write_def store_compact_def memWriter_def writer_of_def memWriter_put_def set_memWriter_def set_locBlock_def
        cfg_example_def alm_ops_def alm_Set_def alm_Get_def Let_def)
  have st: "cp_free compaction_example = [3]" "cp_stuck compaction_example = 0"
    by (simp_all add: compaction_example_def compactionStartup_def compactionConfig_def)
  note read1 = toc_example_read [unfolded One_nat_def]
  show ?thesis
    using wrote read1 hdr
    by (auto simp: compactFile_def st env_example_def call_example_def cfg_example_def [THEN arg_cong, of c_recoveryBatchSize]
        cfg_example_def [THEN arg_cong, of c_layout] starved_def
        compact_entry_def read lookup_def get IsNotFound_def store_compact_def [THEN arg_cong, of st_locmap] bits compact_start_def
        spindown_def Let_def)
qed

theorem compactFile_moves_live_witness:
  "\<exists>s' ts i off len. (\<exists>ops st'. compactFile alm_ops (\<lambda>_ _ _ _. ([7, 9], None)) (\<lambda>_. 0) cfg_example env_example call_example
       ''5.valuetoc'' 1 (compaction_example, store_compact) = Done (ops, st', s') \<and> CloseBlock 1 \<in> set ops) \<and>
     lm_Get alm_ops (st_locmap s') 1 2 = (ts, i, off, len) \<and> 0x300 \<le> ts \<and> i \<noteq> 1 \<and> i \<noteq> 0"
proof -
  let ?wr = "\<lparr>KeyA = 1, KeyB = 2 :: u64, TimestampBits = 0x300, BlockID = 1, Offset = 5, Length = 2\<rparr>"
  obtain ops st' s' where run: "compactFile alm_ops (\<lambda>_ _ _ _. ([7, 9], None)) (\<lambda>_. 0) cfg_example env_example call_example
      ''5.valuetoc'' 1 (compaction_example, store_compact) = Done (ops, st', s')" and closed: "CloseBlock 1 \<in> set ops"
    using compact_example by blast
  have rd: "not_found_free (\<lambda>_ _ _ _. ([7, 9], None))" by (simp add: not_found_free_def IsNotFound_def)
  have env: "others_off alm_ops 1 (ce_ifc call_example)" "arranges (ce_arrange call_example)"
    by (simp_all add: others_off_def arranges_def call_example_def)
  have apart: "block_apart 1 store_compact" by (auto simp: block_apart_def wblocks_def store_compact_def)
  have toc: "de_openTOC env_example ''5.valuetoc'' = Inl toc_example"
    "valueReadTOCEntriesBatched (c_layout cfg_example) (\<lambda>_. 0) (ce_stop call_example) (ce_rderr call_example) toc_example 1
      (length (cp_free compaction_example)) (c_recoveryBatchSize cfg_example) = Some ([(0, [?wr])], 1, [])"
    using toc_example_read
    by (simp_all add: env_example_def call_example_def cfg_example_def compaction_example_def compactionStartup_def compactionConfig_def)
  have bits: "plain_ts ?wr" "live_ts 0x300" by code_simp+
  have "\<exists>ts i off' len'. lm_Get alm_ops (st_locmap s') (KeyA ?wr) (KeyB ?wr) = (ts, i, off', len') \<and>
      TimestampBits ?wr \<le> ts \<and> i \<noteq> 1 \<and> i \<noteq> 0"
    by (rule compactFile_moves_live [OF alm.locmap_contract_axioms rd env apart run closed toc, of 0 "[?wr]" _ 5 2])
      (use bits in \<open>simp_all add: store_compact_def alm_ops_def alm_Get_def\<close>)
  then show ?thesis using run closed by auto
qed

lemma compact_entry_tombstone:
  assumes "lm_Get L (st_locmap s) (KeyA wr) (KeyB wr) = (TimestampBits wr, i, off, len)" "TimestampBits wr AND TSB_DELETION \<noteq> 0"
  shows "compact_entry L rd cfg (\<lambda>_ _ s. s) wr (cc, s) =
    Done (True, cc\<lparr>cc_count := cc_count cc + 1, cc_stale := cc_stale cc + 1\<rparr>, s)"
proof -
  have "TimestampBits wr \<noteq> 0" using assms(2) by auto
  then show ?thesis
    using assms by (auto simp: compact_entry_def lookup_def store_read_def IsNotFound_def Let_def)
qed

lemma compact_tombstones:
  assumes "\<forall>(k, batch) \<in> set bs. \<forall>wr \<in> set batch.
    \<exists>i off len. lm_Get L (st_locmap s) (KeyA wr) (KeyB wr) = (TimestampBits wr, i, off, len) \<and> TimestampBits wr AND TSB_DELETION \<noteq> 0"
  shows "\<not> trouble cc \<Longrightarrow> \<exists>cc'. compact_batches L rd cfg (\<lambda>_ _ s. s) bs (cc, [], s) = Done (cc', [], s) \<and> \<not> trouble cc'"
  using assms
proof (induction bs arbitrary: cc)
  case (Cons kb bs)
  obtain k batch where kb: "kb = (k, batch)" by (cases kb)
  have "\<forall>wr \<in> set batch. \<exists>i off len. lm_Get L (st_locmap s) (KeyA wr) (KeyB wr) = (TimestampBits wr, i, off, len) \<and>
      TimestampBits wr AND TSB_DELETION \<noteq> 0" using Cons.prems kb by auto
  then have "\<exists>cc'. compact_batch L rd cfg (\<lambda>_ _ s. s) batch (cc, s) = Done (cc', s) \<and> \<not> trouble cc'" if "\<not> trouble cc" for cc
    using that
  proof (induction batch arbitrary: cc)
    case (Cons wr batch)
    then obtain i off len where "lm_Get L (st_locmap s) (KeyA wr) (KeyB wr) = (TimestampBits wr, i, off, len)"
      "TimestampBits wr AND TSB_DELETION \<noteq> 0" by auto
    then show ?case using Cons by (simp add: compact_entry_tombstone trouble_def)
  qed simp
  from this [OF Cons.prems(1)] obtain cc1 where one: "compact_batch L rd cfg (\<lambda>_ _ s. s) batch (cc, s) = Done (cc1, s)" "\<not> trouble cc1"
    by blast
  then show ?case using Cons kb by (simp add: trouble_def)
qed simp

text \<open>
  C38. Compaction forgets deletions: a file whose entries are all deletions that are still in force is
  removed, although none of them is written to another file and nothing is handed to the workers that
  write files.  After a restart the deletions are gone.
\<close>

theorem compactFile_drops_tombstones:
  assumes toc: "de_openTOC env nametoc = Inl fpr" "valueReadTOCEntriesBatched (c_layout cfg) sum32 (ce_stop ce) (ce_rderr ce) fpr B
        (length (cp_free st)) (c_recoveryBatchSize cfg) = Some (sent, fdc, [])" "\<not> starved (ly_template (c_layout cfg)) fpr (cp_free st) sent"
    and calm: "ce_ifc ce = (\<lambda>_ _ s. s)" "\<not> ce_cancel ce" "arranges (ce_arrange ce)" "cp_stuck st = 0"
    and dels: "\<forall>(k, batch) \<in> set sent. \<forall>wr \<in> set batch.
      \<exists>i off len. lm_Get L (st_locmap s) (KeyA wr) (KeyB wr) = (TimestampBits wr, i, off, len) \<and> TimestampBits wr AND TSB_DELETION \<noteq> 0"
  shows "compactFile L rd sum32 cfg env ce nametoc B (st, s) = Done (spindown env nametoc B, st, s)"
proof -
  have "set (ce_arrange ce sent) = set sent" using arranges_mset [OF calm(3)] by (rule mset_eq_setD)
  then obtain cc' where "compact_batches L rd cfg (\<lambda>_ _ s. s) (ce_arrange ce sent) (compact_start, [], s) = Done (cc', [], s)"
    "\<not> trouble cc'"
    using compact_tombstones [of "ce_arrange ce sent" L s compact_start rd cfg] dels by (auto simp: trouble_def compact_start_def)
  then show ?thesis
    using toc calm by (simp add: compactFile_def trouble_def lose_batches_def)
qed

definition toc_tombstone :: bytes where
  "toc_tombstone = checksummed (\<lambda>_. 0) 72 (value_head_toc ValueStore 72 @ putTOCEntry value_layout 1 2 (0x300 OR TSB_DELETION) 5 0 @ term_block 72)"

lemma toc_tombstone_read:
  "valueReadTOCEntriesBatched value_layout (\<lambda>_. 0) (\<lambda>_. False) (\<lambda>_. None) toc_tombstone 1 1 4 =
     Some ([(0, [\<lparr>KeyA = 1, KeyB = 2, TimestampBits = 0x300 OR TSB_DELETION, BlockID = 1, Offset = 5, Length = 0\<rparr>])], 1, [])"
  by code_simp

theorem compactFile_drops_tombstones_witness:
  "compactFile alm_ops (\<lambda>_ _ _ _. ([7, 9], None)) (\<lambda>_. 0) cfg_example (env_example\<lparr>de_openTOC := \<lambda>_. Inl toc_tombstone\<rparr>) call_example
     ''5.valuetoc'' 1 (compaction_example, store_compact\<lparr>st_locmap := [((1, 2), (0x300 OR TSB_DELETION, 1, 5, 0))]\<rparr>) =
   Done ([RemoveFile ''5.valuetoc'', RemoveFile ''5.value'', CloseBlock 1], compaction_example,
     store_compact\<lparr>st_locmap := [((1, 2), (0x300 OR TSB_DELETION, 1, 5, 0))]\<rparr>)"
proof -
  let ?env = "env_example\<lparr>de_openTOC := \<lambda>_. Inl toc_tombstone\<rparr>"
    and ?s = "store_compact\<lparr>st_locmap := [((1, 2), (0x300 OR TSB_DELETION, 1, 5, 0))]\<rparr>"
    and ?wr = "\<lparr>KeyA = 1, KeyB = 2 :: u64, TimestampBits = 0x300 OR TSB_DELETION, BlockID = 1, Offset = 5, Length = 0\<rparr>"
  have "compactFile alm_ops (\<lambda>_ _ _ _. ([7, 9], None)) (\<lambda>_. 0) cfg_example ?env call_example ''5.valuetoc'' 1 (compaction_example, ?s) =
      Done (spindown ?env ''5.valuetoc'' 1, compaction_example, ?s)"
  proof (rule compactFile_drops_tombstones)
    show "de_openTOC ?env ''5.valuetoc'' = Inl toc_tombstone" by simp
    show "valueReadTOCEntriesBatched (c_layout cfg_example) (\<lambda>_. 0) (ce_stop call_example) (ce_rderr call_example) toc_tombstone 1
        (length (cp_free compaction_example)) (c_recoveryBatchSize cfg_example) = Some ([(0, [?wr])], 1, [])"
      using toc_tombstone_read
      by (simp add: call_example_def cfg_example_def compaction_example_def compactionStartup_def compactionConfig_def)
    have "TSB_DELETION AND TSB_DELETION \<noteq> 0" "(0x300 OR TSB_DELETION) AND TSB_DELETION \<noteq> 0" by code_simp+
    then show "\<forall>(k, batch) \<in> set [(0 :: nat, [?wr])]. \<forall>wr \<in> set batch. \<exists>i off len. lm_Get alm_ops (st_locmap ?s) (KeyA wr) (KeyB wr) =
        (TimestampBits wr, i, off, len) \<and> TimestampBits wr AND TSB_DELETION \<noteq> 0"
      by (simp add: alm_ops_def alm_Get_def)
  qed (simp_all add: starved_def compaction_example_def compactionStartup_def compactionConfig_def call_example_def arranges_def)
  moreover have "spindown ?env ''5.valuetoc'' 1 = [RemoveFile ''5.valuetoc'', RemoveFile ''5.value'', CloseBlock 1]"
    by (simp add: spindown_def remove_or_rename_def value_name_def env_example_def)
  ultimately show ?thesis by simp
qed

end
