(* ===== verification/FileAudit.thy ===== *)
theory FileAudit
  imports Compaction
begin

unbundle bit_operations_syntax

text \<open>
  The audit (\<open>src/valueaudit_GEN_.go\<close>, \<open>src/groupaudit_GEN_.go\<close>): every file that is old enough is read, its checksums are
  verified and its TOC entries compared with the corrupt ranges; a file that fails is compacted and the
  store asks to be restarted.
\<close>

section \<open>State\<close>

record valueAuditState =
  au_interval :: nat
  au_ageThreshold :: i64
  au_launcher :: "launcher option"

definition auditConfig :: "nat \<Rightarrow> nat \<Rightarrow> valueAuditState" where
  "auditConfig interval ageThreshold =
     \<lparr>au_interval = interval, au_ageThreshold = of_nat ageThreshold * 1000000000, au_launcher = None\<rparr>"

definition auditStartup :: "valueAuditState \<Rightarrow> valueAuditState" where
  "auditStartup st = (case au_launcher st of None \<Rightarrow> st\<lparr>au_launcher := Some launcher_start\<rparr> | Some _ \<Rightarrow> st)"

definition auditShutdown_notify :: "nat \<Rightarrow> valueAuditState \<Rightarrow> valueAuditState" where
  "auditShutdown_notify c st = st\<lparr>au_launcher := map_option (launcher_disable c) (au_launcher st)\<rparr>"

definition auditShutdown_done :: "nat \<Rightarrow> valueAuditState \<Rightarrow> valueAuditState outcome" where
  "auditShutdown_done c st =
     (case au_launcher st of None \<Rightarrow> Done st
      | Some l \<Rightarrow> if c \<in> set (la_done l) then Done (st\<lparr>au_launcher := None\<rparr>) else Blocked)"

section \<open>Checking one file\<close>

definition auditCandidate :: "template \<Rightarrow> i64 \<Rightarrow> i64 \<Rightarrow> string \<Rightarrow> 'm valueStore \<Rightarrow> i64 option" where
  "auditCandidate T now ageThreshold name s =
     (case toc_name T name of
        None \<Rightarrow> None
      | Some namets \<Rightarrow>
          if namets = st_activeTOCA s \<or> namets = st_activeTOCB s then None
          else if sint (now - ageThreshold) \<le> sint namets then None
          else Some namets)"

text \<open>One batch: whether it has a value with a corrupt end.  Deletions have no value.\<close>

fun audit_batch :: "valueCorruptRange list \<Rightarrow> 'b valueTOCEntry list \<Rightarrow> bool" where
  "audit_batch corruptions [] = False"
| "audit_batch corruptions (wr # batch) =
     (if TimestampBits wr AND TSB_DELETION \<noteq> 0 then audit_batch corruptions batch
      else if valueInCorruptRange (Offset wr) (Length wr) corruptions then True
      else audit_batch corruptions batch)"

text \<open>Batches that come after a failure are given back unseen.\<close>

definition audit_batches :: "valueCorruptRange list \<Rightarrow> 'b valueTOCEntry list list \<Rightarrow> bool \<Rightarrow> bool" where
  "audit_batches corruptions batches failed =
     foldl (\<lambda>failed batch. failed \<or> audit_batch corruptions batch) failed batches"

text \<open>
  The check of a file: \<open>None\<close> when its values cannot be opened, which fails it, and no notification is
  taken; otherwise whether it failed.  \<open>controlChan\<close> is never closed while the TOC file is read, as
  \<open>AddUint32\<close> does not return zero, so the reading is not cut short.  There is one worker.
\<close>

definition audit_check ::
  "(bytes \<Rightarrow> u32) \<Rightarrow> 'b store_cfg \<Rightarrow> dir_env \<Rightarrow> (nat \<Rightarrow> go_error option) \<Rightarrow> string \<Rightarrow> bool option outcome" where
  "audit_check sum32 cfg env rderr name =
     (case de_open env (value_name name) of
        Inr _ \<Rightarrow> Done None
      | Inl fpr \<Rightarrow>
          (case valueChecksumVerify (ly_template (c_layout cfg)) sum32 fpr of
             None \<Rightarrow> Panic
           | Some (corruptions, _) \<Rightarrow>
               (case de_openTOC env name of
                  Inr _ \<Rightarrow> Done (Some True)
                | Inl fprtoc \<Rightarrow>
                    (case valueReadTOCEntriesBatched (c_layout cfg) sum32 (\<lambda>_. False) rderr fprtoc 1 1 (c_recoveryBatchSize cfg) of
                       None \<Rightarrow> Panic
                     | Some (sent, _, errs) \<Rightarrow>
                         Done (Some (audit_batches corruptions (map snd (filter (\<lambda>b. fst b = 0) sent)) False \<or> errs \<noteq> []))))))"

section \<open>The pass\<close>

text \<open>
  The state of a pass: what was done to files, the number of shutdowns started to restart the store, the
  compaction state and the store.
\<close>

record 'm audit_run =
  ar_ops :: "file_op list"
  ar_shutdowns :: nat
  ar_compaction :: valueCompactionState
  ar_store :: "'m valueStore"

text \<open>
  What a pass meets at one file: the time, which reads of the TOC file fail, whether a notification has
  come when it is asked for, while the file is checked, or while it is compacted, how the compaction
  goes, and what the other goroutines did to the store since the last file.
\<close>

record ('m, 'b) audit_env =
  ae_now :: i64
  ae_rderr :: "nat \<Rightarrow> go_error option"
  ae_poll :: bool
  ae_during :: bool
  ae_compacting :: bool
  ae_call :: "('m, 'b) call_env"
  ae_others :: "'m valueStore \<Rightarrow> 'm valueStore"

text \<open>
  A file that failed is compacted; without a notification the store is shut down by a goroutine of its
  own and the pass tells its launcher to end, on a new channel \<open>own\<close>.
\<close>

definition audit_failed ::
  "('m, 'b) locmap_ops \<Rightarrow> checksummed_read \<Rightarrow> (bytes \<Rightarrow> u32) \<Rightarrow> 'b store_cfg \<Rightarrow> dir_env \<Rightarrow> ('m, 'b) audit_env \<Rightarrow> nat \<Rightarrow> string \<Rightarrow> i64 \<Rightarrow>
   'm audit_run bg_pass" where
  "audit_failed L rd sum32 cfg env ae own name namets q x =
     (let taken = ae_compacting ae \<and> q \<noteq> [];
          ce = (if taken then ae_call ae else (ae_call ae)\<lparr>ce_stop := (\<lambda>_. False), ce_cancel := False\<rparr>)
      in bind_outcome (locBlockIDFromTimestampnano namets (ar_store x)) (\<lambda>i.
         bind_outcome (compactFile L rd sum32 cfg env ce name i (ar_compaction x, ar_store x)) (\<lambda>(ops, st', s').
           let x' = x\<lparr>ar_ops := ar_ops x @ ops, ar_compaction := st', ar_store := s'\<rparr>
           in if taken then Done (Some (hd q), tl q, x')
              else Done (Some \<lparr>bg_action = BG_DISABLE, bg_doneChan = own\<rparr>, q, x'\<lparr>ar_shutdowns := ar_shutdowns x' + 1\<rparr>))))"

fun audit_names ::
  "('m, 'b) locmap_ops \<Rightarrow> checksummed_read \<Rightarrow> (bytes \<Rightarrow> u32) \<Rightarrow> 'b store_cfg \<Rightarrow> dir_env \<Rightarrow> (string \<Rightarrow> ('m, 'b) audit_env) \<Rightarrow> i64 \<Rightarrow> nat \<Rightarrow>
   string list \<Rightarrow> 'm audit_run bg_pass" where
  "audit_names L rd sum32 cfg env aes ageThreshold own [] q x = Done (None, q, x)"
| "audit_names L rd sum32 cfg env aes ageThreshold own (name # names) q x =
     (let ae = aes name; x1 = x\<lparr>ar_store := ae_others ae (ar_store x)\<rparr>;
          again = audit_names L rd sum32 cfg env aes ageThreshold own names
      in if ae_poll ae \<and> q \<noteq> [] then Done (Some (hd q), tl q, x1)
         else case auditCandidate (ly_template (c_layout cfg)) (ae_now ae) ageThreshold name (ar_store x1) of
           None \<Rightarrow> again q x1
         | Some namets \<Rightarrow>
             bind_outcome (audit_check sum32 cfg env (ae_rderr ae) name) (\<lambda>res. case res of
               None \<Rightarrow> audit_failed L rd sum32 cfg env ae own name namets q x1
             | Some failed \<Rightarrow>
                 if ae_during ae \<and> q \<noteq> [] then Done (Some (hd q), tl q, x1)
                 else if failed then audit_failed L rd sum32 cfg env ae own name namets q x1
                 else again q x1))"

text \<open>\<open>perm\<close> is the order the names are shuffled to.\<close>

definition auditPass ::
  "('m, 'b) locmap_ops \<Rightarrow> checksummed_read \<Rightarrow> (bytes \<Rightarrow> u32) \<Rightarrow> 'b store_cfg \<Rightarrow> dir_env \<Rightarrow> (string \<Rightarrow> ('m, 'b) audit_env) \<Rightarrow> i64 \<Rightarrow> nat \<Rightarrow>
   (string list \<Rightarrow> string list) \<Rightarrow> i64 \<Rightarrow> 'm audit_run bg_pass" where
  "auditPass L rd sum32 cfg env aes ageThreshold own perm elapsed q x =
     (let stamp = (\<lambda>x. x\<lparr>ar_store := tally (\<lambda>c. c\<lparr>ct_auditNanoseconds := elapsed\<rparr>) (ar_store x)\<rparr>)
      in case de_readdirnames env of
           Inr _ \<Rightarrow> Done (None, q, stamp x)
         | Inl names \<Rightarrow>
             bind_outcome (audit_names L rd sum32 cfg env aes ageThreshold own (perm names) q x) (\<lambda>(n, q', x').
               Done (n, q', stamp x')))"

definition auditLauncher where
  "auditLauncher L rd sum32 cfg env aes ageThreshold own perm elapsed =
     launcher_turn (auditPass L rd sum32 cfg env aes ageThreshold own perm elapsed)"

text \<open>A pass on demand: with no launcher it is run at once, otherwise the launcher is asked to.\<close>

definition AuditPass_run where
  "AuditPass_run L rd sum32 cfg env aes own perm elapsed y =
     (case y of (st, x) \<Rightarrow>
        bind_outcome (auditPass L rd sum32 cfg env aes (au_ageThreshold st) own perm elapsed [] x) (\<lambda>(_, _, x').
          Done (st, x')))"

definition AuditPass_notify :: "nat \<Rightarrow> launcher \<Rightarrow> launcher" where
  "AuditPass_notify c l = l\<lparr>la_chan := la_chan l @ [\<lparr>bg_action = BG_PASS, bg_doneChan = c\<rparr>]\<rparr>"

definition AuditPass where
  "AuditPass L rd sum32 cfg env aes own perm elapsed c y =
     (case y of (st, x) \<Rightarrow>
        case au_launcher st of
          None \<Rightarrow> AuditPass_run L rd sum32 cfg env aes own perm elapsed y
        | Some l \<Rightarrow> Done (st\<lparr>au_launcher := Some (AuditPass_notify c l)\<rparr>, x))"

section \<open>What a check finds\<close>

lemma audit_batch_iff:
  "audit_batch cs batch \<longleftrightarrow>
     (\<exists>wr \<in> set batch. TimestampBits wr AND TSB_DELETION = 0 \<and> valueInCorruptRange (Offset wr) (Length wr) cs)"
  by (induction batch) auto

lemma audit_batches_iff: "audit_batches cs batches failed \<longleftrightarrow> failed \<or> (\<exists>wr \<in> set (concat batches).
    TimestampBits wr AND TSB_DELETION = 0 \<and> valueInCorruptRange (Offset wr) (Length wr) cs)"
proof -
  have "audit_batches cs batches failed \<longleftrightarrow> failed \<or> (\<exists>b \<in> set batches. audit_batch cs b)"
    by (induction batches arbitrary: failed) (auto simp: audit_batches_def)
  then show ?thesis by (auto simp: audit_batch_iff)
qed

text \<open>The values of a file and the entries of its TOC file, as the store writes them.\<close>

definition intact_file :: "'b layout \<Rightarrow> (bytes \<Rightarrow> u32) \<Rightarrow> dir_env \<Rightarrow> string \<Rightarrow> bool" where
  "intact_file Y sum32 env name \<longleftrightarrow> (\<exists>ci body es.
     32 \<le> unat ci \<and> 8 \<le> unat ci mod FILE_ENTRY_SIZE Y \<and> 32 + length body + unat ci < 2 ^ 32 \<and>
     de_open env (value_name name) = Inl (checksummed sum32 (unat ci) (value_head (ly_template Y) ci @ body @ term_block (unat ci))) \<and>
     de_openTOC env name = Inl (checksummed sum32 (unat ci) (value_head_toc (ly_template Y) ci @ putEntries Y es @ term_block (unat ci))) \<and>
     (\<forall>(_, _, _, off, len) \<in> set es. unat off + unat len \<le> 32 + length body))"

lemma audit_check_intact:
  assumes Y: "key_layout (c_layout cfg)" and "intact_file (c_layout cfg) sum32 env name"
  shows "audit_check sum32 cfg env (\<lambda>_. None) name = Done (Some False)"
proof -
  obtain ci body es where ci: "32 \<le> unat ci" "8 \<le> unat ci mod FILE_ENTRY_SIZE (c_layout cfg)" "32 + length body + unat ci < 2 ^ 32"
    and files: "de_open env (value_name name) = Inl (checksummed sum32 (unat ci) (value_head (ly_template (c_layout cfg)) ci @ body @ term_block (unat ci)))"
      "de_openTOC env name = Inl (checksummed sum32 (unat ci) (value_head_toc (ly_template (c_layout cfg)) ci @ putEntries (c_layout cfg) es @ term_block (unat ci)))"
    and es: "\<forall>(_, _, _, off, len) \<in> set es. unat off + unat len \<le> 32 + length body"
    using assms(2) unfolding intact_file_def by blast
  have ci4: "unat ci + 4 < 2 ^ 32" using ci(3) by simp
  from good_file_clean [OF ci(1) ci4 ci(3), of 0 0 "ly_template (c_layout cfg)" sum32] obtain cs errs
    where verify: "valueChecksumVerify (ly_template (c_layout cfg)) sum32 (checksummed sum32 (unat ci) (value_head (ly_template (c_layout cfg)) ci @ body @ term_block (unat ci))) = Some (cs, errs)"
    by auto
  have good: "\<not> valueInCorruptRange off len cs" if "unat off + unat len \<le> 32 + length body" for off len
    using good_file_clean [OF ci(1) ci4 ci(3) that, of "ly_template (c_layout cfg)" sum32] verify by simp
  obtain sent where toc: "valueReadTOCEntriesBatched (c_layout cfg) sum32 (\<lambda>_. False) (\<lambda>_. None)
      (checksummed sum32 (unat ci) (value_head_toc (ly_template (c_layout cfg)) ci @ putEntries (c_layout cfg) es @ term_block (unat ci))) 1 1 (c_recoveryBatchSize cfg) =
    Some (sent, length (filter (\<lambda>e. Offset e \<noteq> 0) (map (loadedEntry 1) es)), [])"
    and sent: "concat (map snd (filter (\<lambda>p. fst p = 0) sent)) =
       filter (\<lambda>e. unat (ly_keyB (c_layout cfg) (KeyB e)) mod 1 = 0) (filter (\<lambda>e. Offset e \<noteq> 0) (map (loadedEntry 1) es))"
    using key_layout.TOC_roundtrip [OF Y ci(1,2), of 1 sum32 es 1 "c_recoveryBatchSize cfg"] by auto
  have "\<not> audit_batches cs (map snd (filter (\<lambda>b. fst b = 0) sent)) False"
    unfolding audit_batches_iff sent using es good by (fastforce simp: loadedEntry_def)
  then show ?thesis by (simp add: audit_check_def files verify toc [unfolded One_nat_def])
qed

section \<open>Results of a pass\<close>

lemma audit_failed_cases:
  assumes "audit_failed L rd sum32 cfg env ae own name namets q x = Done (n, q', x')"
  shows "(ar_shutdowns x' = ar_shutdowns x \<and> q \<noteq> [] \<and> n = Some (hd q) \<and> q' = tl q) \<or>
    (ar_shutdowns x' = ar_shutdowns x + 1 \<and> q' = q \<and> n = Some \<lparr>bg_action = BG_DISABLE, bg_doneChan = own\<rparr>)"
  using assms by (auto simp: audit_failed_def Let_def split: if_splits elim!: bind_outcome_DoneE)

lemma audit_names_cases:
  "audit_names L rd sum32 cfg env aes ageThreshold own names q x = Done (n, q', x') \<Longrightarrow>
    (ar_shutdowns x' = ar_shutdowns x \<and> (n = None \<and> q' = q \<or> q \<noteq> [] \<and> n = Some (hd q) \<and> q' = tl q)) \<or>
    (ar_shutdowns x' = ar_shutdowns x + 1 \<and> q' = q \<and> n = Some \<lparr>bg_action = BG_DISABLE, bg_doneChan = own\<rparr>)"
proof (induction names arbitrary: x)
  case (Cons name names)
  let ?x1 = "x\<lparr>ar_store := ae_others (aes name) (ar_store x)\<rparr>"
  have same: "ar_shutdowns ?x1 = ar_shutdowns x" by simp
  have "(q \<noteq> [] \<and> n = Some (hd q) \<and> q' = tl q \<and> x' = ?x1) \<or>
    audit_names L rd sum32 cfg env aes ageThreshold own names q ?x1 = Done (n, q', x') \<or>
    (\<exists>namets. audit_failed L rd sum32 cfg env (aes name) own name namets q ?x1 = Done (n, q', x'))"
  proof (cases "auditCandidate (ly_template (c_layout cfg)) (ae_now (aes name)) ageThreshold name (ar_store ?x1)")
    case None
    then show ?thesis using Cons.prems by (simp add: Let_def split: if_splits)
  next
    case (Some namets)
    show ?thesis
    proof (cases "audit_check sum32 cfg env (ae_rderr (aes name)) name")
      case (Done res)
      then show ?thesis using Cons.prems Some by (cases res) (simp_all add: Let_def split: if_splits, blast+)
    qed (use Cons.prems Some in \<open>simp_all add: Let_def split: if_splits\<close>)
  qed
  then consider "q \<noteq> []" "n = Some (hd q)" "q' = tl q" "x' = ?x1"
    | "audit_names L rd sum32 cfg env aes ageThreshold own names q ?x1 = Done (n, q', x')"
    | namets where "audit_failed L rd sum32 cfg env (aes name) own name namets q ?x1 = Done (n, q', x')"
    by blast
  then show ?case
  proof cases
    case 2
    then show ?thesis using Cons.IH [OF 2] same by simp
  next
    case 3
    then show ?thesis using audit_failed_cases [OF 3] same by auto
  qed simp
qed simp

lemma auditPass_cases:
  assumes "auditPass L rd sum32 cfg env aes ageThreshold own perm elapsed q x = Done (n, q', x')"
  shows "(ar_shutdowns x' = ar_shutdowns x \<and> (n = None \<and> q' = q \<or> q \<noteq> [] \<and> n = Some (hd q) \<and> q' = tl q)) \<or>
    (ar_shutdowns x' = ar_shutdowns x + 1 \<and> q' = q \<and> n = Some \<lparr>bg_action = BG_DISABLE, bg_doneChan = own\<rparr>)"
  using assms audit_names_cases
  by (fastforce simp: auditPass_def Let_def split: sum.splits elim!: bind_outcome_DoneE)

section \<open>Properties\<close>

lemma auditCandidate_name: "auditCandidate T now age name s = Some t \<Longrightarrow> toc_name T name \<noteq> None"
  by (auto simp: auditCandidate_def split: option.splits)

lemma audit_names_intact:
  assumes Y: "key_layout (c_layout cfg)" and "\<forall>name \<in> set names. toc_name (ly_template (c_layout cfg)) name \<noteq> None \<longrightarrow> intact_file (c_layout cfg) sum32 env name" "\<forall>name. ae_rderr (aes name) = (\<lambda>_. None)"
  shows "\<exists>n q' x'. audit_names L rd sum32 cfg env aes ageThreshold own names q x = Done (n, q', x') \<and>
    ar_ops x' = ar_ops x \<and> ar_shutdowns x' = ar_shutdowns x \<and> ar_compaction x' = ar_compaction x"
  using assms(2)
proof (induction names arbitrary: x)
  case (Cons name names)
  let ?x1 = "x\<lparr>ar_store := ae_others (aes name) (ar_store x)\<rparr>"
  have check: "audit_check sum32 cfg env (ae_rderr (aes name)) name = Done (Some False)" if "toc_name (ly_template (c_layout cfg)) name \<noteq> None"
    using audit_check_intact [OF Y, of sum32 env name] Cons.prems that assms(3) by simp
  have IH: "\<exists>n q' x'. audit_names L rd sum32 cfg env aes ageThreshold own names q ?x1 = Done (n, q', x') \<and>
      ar_ops x' = ar_ops x \<and> ar_shutdowns x' = ar_shutdowns x \<and> ar_compaction x' = ar_compaction x"
    using Cons.IH [of ?x1] Cons.prems by simp
  show ?case
  proof (cases "auditCandidate (ly_template (c_layout cfg)) (ae_now (aes name)) ageThreshold name (ar_store ?x1)")
    case None
    then show ?thesis using IH by (simp add: Let_def)
  next
    case (Some t)
    then show ?thesis using IH check [OF auditCandidate_name [OF Some]] by (simp add: Let_def)
  qed
qed simp


lemma launcher_ends_deaf:
  assumes "launcher_run pass (l1, x1) sent (l2, x2)" "la_notification l1 = Some \<lparr>bg_action = BG_DISABLE, bg_doneChan = own\<rparr>"
    "c \<notin> set (la_done l1)" "c \<noteq> own"
  shows "c \<notin> set (la_done l2) \<and> (la_notification l2 = Some \<lparr>bg_action = BG_DISABLE, bg_doneChan = own\<rparr> \<or> \<not> la_running l2)"
  using assms
proof (induction "(l1, x1)" sent "(l2, x2)" arbitrary: l2 x2 rule: launcher_run.induct)
  case (lr_turn sent y timeout)
  obtain l s where y: "y = (l, s)" by (cases y)
  show ?case using lr_turn(2) [OF y lr_turn(4-6)] lr_turn(3,6) by (auto simp: launcher_turn_def y Let_def split: if_splits)
qed auto

text \<open>
  C40. A failed audit never gets its restart: once a pass of the launcher has started the shutdown that is
  to restart the store, the launcher ends on the notification the pass made itself, and the notification
  \<open>auditShutdown\<close> sends it, whenever that is, is never answered: \<open>Shutdown\<close> waits forever.
\<close>

theorem audit_failure_hangs_shutdown:
  assumes "auditLauncher L rd sum32 cfg env aes ageThreshold own perm elapsed timeout (l, x) = Done (l1, x1)"
    "ar_shutdowns x1 \<noteq> ar_shutdowns x" "c \<notin> set (la_done l1)" "c \<noteq> own"
    "launcher_run (auditPass L rd sum32 cfg env aes' ageThreshold own perm elapsed) (l1, x1) sent (l2, x2)" "au_launcher st = Some l2"
  shows "auditShutdown_done c st = Blocked"
proof -
  have "la_notification l1 = Some \<lparr>bg_action = BG_DISABLE, bg_doneChan = own\<rparr>"
    using assms(1,2)
    by (auto simp: auditLauncher_def launcher_turn_def Let_def split: if_splits option.splits list.splits bgNotificationAction.splits
        elim!: bind_outcome_DoneE dest!: auditPass_cases)
  from launcher_ends_deaf [OF assms(5) this assms(3,4)] show ?thesis
    using assms(6) by (simp add: auditShutdown_done_def)
qed

section \<open>Examples\<close>

definition audit_env_example :: "(u64 alm, u64) audit_env" where
  "audit_env_example = \<lparr>ae_now = 1000, ae_rderr = (\<lambda>_. None), ae_poll = False, ae_during = False, ae_compacting = False,
     ae_call = \<lparr>ce_stop = (\<lambda>_. False), ce_rderr = (\<lambda>_. None), ce_cancel = False, ce_arrange = (\<lambda>bs. bs),
       ce_ifc = (\<lambda>_ _ s. s), ce_reached = True\<rparr>, ae_others = (\<lambda>s. s)\<rparr>"

text \<open>A directory with one file, and what opening it gives.\<close>

definition audit_dir :: "(bytes + go_error) \<Rightarrow> (bytes + go_error) \<Rightarrow> dir_env" where
  "audit_dir values toc = \<lparr>de_readdirnames = Inl [''5.valuetoc''], de_openTOC = (\<lambda>_. toc), de_open = (\<lambda>_. values),
     de_stat = (\<lambda>_. Inl 0), de_remove = (\<lambda>_. False), de_rename = (\<lambda>_. False)\<rparr>"

definition audit_start :: "u64 alm audit_run" where
  "audit_start = \<lparr>ar_ops = [], ar_shutdowns = 0, ar_compaction = compactionConfig 10 (\<lambda>_. 0) 1 1, ar_store = store_new\<rparr>"


lemma audit_fails_example:
  "\<exists>x1. auditLauncher alm_ops (block_read (\<lambda>_. 7)) (\<lambda>_. 7) cfg_example (audit_dir (Inr ErrEOF) (Inr ErrEOF)) (\<lambda>_. audit_env_example)
      10 3 rev 0 True (launcher_start, audit_start) =
    Done (launcher_start\<lparr>la_notification := Some \<lparr>bg_action = BG_DISABLE, bg_doneChan = 3\<rparr>\<rparr>, x1) \<and> ar_shutdowns x1 = 1"
proof -
  note layout = cfg_example_def [THEN arg_cong, of c_layout]
  have name: "toc_name ValueStore ''5.valuetoc'' = Some 5" by code_simp
  have id: "locBlockID_loop 1 5 store_new = Done 0"
    by (subst locBlockID_loop.simps) (simp add: MaxUint16_def store_new_def)
  have old: "\<not> sint (1000 - 10 :: i64) \<le> sint (5 :: i64)" by code_simp
  show ?thesis
    using id old
    by (simp add: auditLauncher_def launcher_turn_def launcher_start_def auditPass_def audit_dir_def name auditCandidate_def audit_env_example_def
        audit_start_def store_new_def [THEN arg_cong, of st_activeTOCA] store_new_def [THEN arg_cong, of st_activeTOCB] audit_check_def
        audit_failed_def locBlockIDFromTimestampnano_def compactFile_def Let_def layout)
qed

theorem audit_failure_hangs_shutdown_witness:
  "\<exists>l1. auditShutdown_done 4 \<lparr>au_interval = 10, au_ageThreshold = 10, au_launcher = Some (launcher_disable 4 l1)\<rparr> = Blocked"
proof -
  obtain x1 where turn: "auditLauncher alm_ops (block_read (\<lambda>_. 7)) (\<lambda>_. 7) cfg_example (audit_dir (Inr ErrEOF) (Inr ErrEOF))
      (\<lambda>_. audit_env_example) 10 3 rev 0 True (launcher_start, audit_start) =
    Done (launcher_start\<lparr>la_notification := Some \<lparr>bg_action = BG_DISABLE, bg_doneChan = 3\<rparr>\<rparr>, x1)" "ar_shutdowns x1 = 1"
    using audit_fails_example by blast
  let ?l1 = "launcher_start\<lparr>la_notification := Some \<lparr>bg_action = BG_DISABLE, bg_doneChan = 3\<rparr>\<rparr>"
  have run: "launcher_run pass (?l1, x1) ([] @ [\<lparr>bg_action = BG_DISABLE, bg_doneChan = 4\<rparr>]) (launcher_disable 4 ?l1, x1)" for pass
    unfolding launcher_disable_def by (rule lr_send, rule lr_nil)
  have "auditShutdown_done 4 \<lparr>au_interval = 10, au_ageThreshold = 10, au_launcher = Some (launcher_disable 4 ?l1)\<rparr> = Blocked"
    by (rule audit_failure_hangs_shutdown [OF turn(1) _ _ _ run]) (simp_all add: turn(2) audit_start_def launcher_start_def)
  then show ?thesis by blast
qed

end
