(* ===== verification/Recovery.thy ===== *)
theory Recovery
  imports CompactionSafe
begin

unbundle bit_operations_syntax

text \<open>
  Recovery (\<open>recovery\<close> in \<open>src/valuestore_GEN_.go\<close> and
  \<open>src/groupstore_GEN_.go\<close>): the TOC files of the directory are read and their
  entries put in the location map; files that gave errors are compacted.
\<close>

section \<open>The steps of a recovery\<close>

text \<open>An entry that only marks a local removal has no location.\<close>

definition recovery_entry :: "('m, 'b) locmap_ops \<Rightarrow> 'b valueTOCEntry \<Rightarrow> 'm \<Rightarrow> 'm" where
  "recovery_entry L wr lm =
     snd (lm_Set L lm (KeyA wr) (KeyB wr) (TimestampBits wr)
       (if TimestampBits wr AND TSB_LOCAL_REMOVAL \<noteq> 0 then 0 else BlockID wr) (Offset wr) (Length wr) True)"

definition recovery_batches :: "('m, 'b) locmap_ops \<Rightarrow> (nat \<times> 'b valueTOCEntry list) list \<Rightarrow> 'm \<Rightarrow> 'm" where
  "recovery_batches L bs lm = foldl (\<lambda>lm (_, batch). foldl (\<lambda>lm wr. recovery_entry L wr lm) lm batch) lm bs"

text \<open>
  What a recovery meets: what opening the values of a timestamp gives each time, which reads of a TOC
  file fail, the order the batches of different workers are taken in, and how the compactions of
  the files with errors go.
\<close>

record ('m, 'b) recovery_env =
  re_values :: "i64 \<Rightarrow> nat \<Rightarrow> bytes + go_error"
  re_rderr :: "string \<Rightarrow> nat \<Rightarrow> go_error option"
  re_arrange :: "(nat \<times> 'b valueTOCEntry list) list \<Rightarrow> (nat \<times> 'b valueTOCEntry list) list"
  re_call :: "string \<Rightarrow> ('m, 'b) call_env"

text \<open>One name of the directory: the batches sent and the files to compact are appended to.\<close>

definition recovery_name ::
  "(bytes \<Rightarrow> u32) \<Rightarrow> 'b store_cfg \<Rightarrow> dir_env \<Rightarrow> ('m, 'b) recovery_env \<Rightarrow> string \<Rightarrow>
   'm valueStore \<times> (nat \<times> 'b valueTOCEntry list) list \<times> (string \<times> u32) list \<Rightarrow>
   ('m valueStore \<times> (nat \<times> 'b valueTOCEntry list) list \<times> (string \<times> u32) list) outcome" where
  "recovery_name sum32 cfg env renv name x =
     (case x of (s, sent, compact) \<Rightarrow>
        case toc_name (ly_template (c_layout cfg)) name of
          None \<Rightarrow> Done x
        | Some namets \<Rightarrow>
            (case de_openTOC env name of
               Inr _ \<Rightarrow> Done x
             | Inl fpr \<Rightarrow>
                 bind_outcome (newValueReadFile cfg (re_values renv namets) namets s) (\<lambda>(r, s1).
                   case r of
                     Inr _ \<Rightarrow> Done (s1, sent, compact)
                   | Inl i \<Rightarrow>
                       (case valueReadTOCEntriesBatched (c_layout cfg) sum32 (\<lambda>_. False) (re_rderr renv name) fpr i
                               (c_workers cfg) (c_recoveryBatchSize cfg) of
                          None \<Rightarrow> Panic
                        | Some (bs, _, errs) \<Rightarrow>
                            Done (s1, sent @ bs, if errs = [] then compact else compact @ [(name, i)])))))"

text \<open>The compaction of a file with errors; its control channel is never closed.\<close>

definition recovery_compact where
  "recovery_compact L rd sum32 cfg env renv job y =
     (case job of (name, i) \<Rightarrow>
        case y of (ops, x) \<Rightarrow>
          bind_outcome (compactFile L rd sum32 cfg env ((re_call renv name)\<lparr>ce_stop := (\<lambda>_. False), ce_cancel := False\<rparr>)
            name i x) (\<lambda>(ops', x'). Done (ops @ ops', x')))"

text \<open>The result is the error of the recovery, what was done to files, the compaction state and the store.\<close>

definition recovery ::
  "('m, 'b) locmap_ops \<Rightarrow> checksummed_read \<Rightarrow> (bytes \<Rightarrow> u32) \<Rightarrow> 'b store_cfg \<Rightarrow> dir_env \<Rightarrow> ('m, 'b) recovery_env \<Rightarrow>
   valueCompactionState \<times> 'm valueStore \<Rightarrow> (go_error option \<times> 'm compact_state) outcome" where
  "recovery L rd sum32 cfg env renv x =
     (case x of (st, s) \<Rightarrow>
        case de_readdirnames env of
          Inr err \<Rightarrow> Done (Some err, [], st, s)
        | Inl names \<Rightarrow>
            bind_outcome (fold_outcome (recovery_name sum32 cfg env renv) (sort names) (s, [], [])) (\<lambda>(s1, sent, compact).
            bind_outcome (fold_outcome (recovery_compact L rd sum32 cfg env renv) compact
                ([], st, s1\<lparr>st_locmap := recovery_batches L (re_arrange renv sent) (st_locmap s1)\<rparr>)) (\<lambda>y.
              Done (None, y))))"

section \<open>Batches go to the workers\<close>

definition channels_ok :: "nat \<Rightarrow> 'b toc_reader \<Rightarrow> bool" where
  "channels_ok workers s \<longleftrightarrow> length (rd_batches s) = workers \<and> (\<forall>p \<in> set (rd_sent s). fst p < workers)"

lemma channels_record:
  "channels_ok workers s \<Longrightarrow> 0 < workers \<Longrightarrow> channels_ok workers (toc_record Y blockID batchSize s b)"
  by (auto simp: channels_ok_def toc_record_def Let_def)

lemma channels_records:
  "channels_ok workers s \<Longrightarrow> 0 < workers \<Longrightarrow> channels_ok workers (foldl (toc_record Y blockID batchSize) s bs)"
  by (induction bs arbitrary: s) (simp_all add: channels_record)

lemma channels_update [simp]:
  "channels_ok workers (rd_carry_update f s) = channels_ok workers s" "channels_ok workers (rd_skipNext_update g s) = channels_ok workers s"
  "channels_ok workers (rd_errs_update h s) = channels_ok workers s"
  "channels_ok workers (rd_checksumErrors_update k s) = channels_ok workers s"
  by (simp_all add: channels_ok_def)

lemma channels_block:
  "toc_block Y blockID batchSize again rbuf s = Some s' \<Longrightarrow> channels_ok workers s \<Longrightarrow> 0 < workers \<Longrightarrow> channels_ok workers s'"
  by (auto simp: toc_block_def Let_def channels_records split: if_splits)

lemma channels_loop:
  "toc_loop Y sum32 stop rderr ci blockID batchSize i fpr s = Some s' \<Longrightarrow> channels_ok workers s \<Longrightarrow> 0 < workers \<Longrightarrow>
   channels_ok workers s'"
proof (induction Y sum32 stop rderr ci blockID batchSize i fpr s rule: toc_loop.induct)
  case (1 Y sum32 stop rderr ci blockID batchSize i fpr s)
  show ?case
  proof (cases "stop i \<or> rderr i \<noteq> None \<or> length fpr < ci + 4")
    case True
    then show ?thesis
      using 1(3-5) channels_block [of Y blockID batchSize False fpr s s' workers]
      by (subst (asm) toc_loop.simps) (auto split: if_splits option.splits)
  next
    case False
    then have go: "\<not> stop i" "rderr i = None" "\<not> length fpr < ci + 4" by auto
    show ?thesis
    proof (cases "getU32 (take 4 (drop ci fpr)) 0 = sum32 (take ci fpr)")
      case True
      then show ?thesis
        using 1(3-5) 1(2) [OF go refl refl refl] go channels_block [of Y blockID batchSize True "take ci fpr" s _ workers]
        by (subst (asm) toc_loop.simps) (auto simp: Let_def split: option.splits)
    next
      case False
      then show ?thesis
        using 1(3-5) 1(1) [OF go refl refl refl] go by (subst (asm) toc_loop.simps) (auto simp: Let_def)
    qed
  qed
qed

lemma sent_channels:
  assumes "valueReadTOCEntriesBatched Y sum32 stop rderr fpr blockID workers batchSize = Some (sent, n, errs)" "p \<in> set sent"
  shows "fst p < workers"
proof -
  from assms(1) obtain ci s where "toc_loop Y sum32 stop rderr ci blockID batchSize 0 fpr (toc_start workers) = Some s" "0 < workers"
    and fin: "toc_finish s = (sent, n, errs)"
    by (auto simp: valueReadTOCEntriesBatched_def split: prod.splits option.splits if_splits)
      (metis (no_types, opaque_lifting) assms(2) empty_iff empty_set neq0_conv)
  moreover have "channels_ok workers (toc_start workers)" by (simp add: channels_ok_def toc_start_def)
  ultimately have "channels_ok workers s" using channels_loop by blast
  then show ?thesis
    using fin assms(2) by (auto simp: toc_finish_def channels_ok_def split: option.splits)
qed

section \<open>What is put in the location map\<close>

lemma recovery_batches_concat:
  "recovery_batches L bs lm = foldl (\<lambda>lm wr. recovery_entry L wr lm) lm (concat (map snd bs))"
  by (induction bs arbitrary: lm) (auto simp: recovery_batches_def)

text \<open>
  Entries that can be restored: with a timestamp and a block, and not only a local removal.  Whatever the
  order they come in, of each key the newest stays.
\<close>

definition restorable :: "'b valueTOCEntry \<Rightarrow> bool" where
  "restorable wr \<longleftrightarrow> TimestampBits wr \<noteq> 0 \<and> BlockID wr \<noteq> 0 \<and> TimestampBits wr AND TSB_LOCAL_REMOVAL = 0"

definition loc_of :: "'b valueTOCEntry \<Rightarrow> loc" where
  "loc_of wr = (TimestampBits wr, BlockID wr, Offset wr, Length wr)"

context locmap_contract
begin

lemma recovery_entry_get:
  "restorable wr \<Longrightarrow> lm_Get L (recovery_entry L wr lm) a b =
     (if a = KeyA wr \<and> b = KeyB wr \<and> fst (lm_Get L lm a b) \<le> TimestampBits wr then loc_of wr else lm_Get L lm a b)"
  by (auto simp: recovery_entry_def restorable_def Set_get set_accepts_def loc_of_def)

lemma recovery_newest:
  assumes "\<forall>wr \<in> set ws. restorable wr"
  shows "(lm_Get L (foldl (\<lambda>lm wr. recovery_entry L wr lm) lm ws) a b = lm_Get L lm a b \<or>
      (\<exists>wr \<in> set ws. KeyA wr = a \<and> KeyB wr = b \<and> lm_Get L (foldl (\<lambda>lm wr. recovery_entry L wr lm) lm ws) a b = loc_of wr)) \<and>
    (\<forall>wr \<in> set ws. KeyA wr = a \<longrightarrow> KeyB wr = b \<longrightarrow>
      TimestampBits wr \<le> fst (lm_Get L (foldl (\<lambda>lm wr. recovery_entry L wr lm) lm ws) a b))"
  using assms
proof (induction ws rule: rev_induct)
  case (snoc wr ws)
  let ?lm = "foldl (\<lambda>lm wr. recovery_entry L wr lm) lm ws"
  have IH: "(lm_Get L ?lm a b = lm_Get L lm a b \<or> (\<exists>wr \<in> set ws. KeyA wr = a \<and> KeyB wr = b \<and> lm_Get L ?lm a b = loc_of wr)) \<and>
    (\<forall>wr \<in> set ws. KeyA wr = a \<longrightarrow> KeyB wr = b \<longrightarrow> TimestampBits wr \<le> fst (lm_Get L ?lm a b))"
    using snoc by simp
  have step: "lm_Get L (recovery_entry L wr ?lm) a b =
     (if a = KeyA wr \<and> b = KeyB wr \<and> fst (lm_Get L ?lm a b) \<le> TimestampBits wr then loc_of wr else lm_Get L ?lm a b)"
    using snoc.prems by (intro recovery_entry_get) simp
  show ?case
  proof (cases "a = KeyA wr \<and> b = KeyB wr \<and> fst (lm_Get L ?lm a b) \<le> TimestampBits wr")
    case True
    have "\<forall>w \<in> set ws. KeyA w = a \<longrightarrow> KeyB w = b \<longrightarrow> TimestampBits w \<le> TimestampBits wr"
      using IH True order_trans by blast
    then show ?thesis using True step by (auto simp: loc_of_def)
  next
    case False
    then show ?thesis using IH step by auto
  qed
qed simp

end

section \<open>Opening the files\<close>

lemma newValueReadFile_opens:
  assumes "\<forall>k. opened k = Inl disk" "readValueHeader (ly_template (c_layout cfg)) disk = (h, ci, None)" "unat (st_locBlockIDer s) + 1 < MaxUint16"
  shows "\<exists>i fl s1. newValueReadFile cfg opened ts s = Done (Inl i, s1) \<and> unat i = unat (st_locBlockIDer s) + 1 \<and>
    unat (st_locBlockIDer s1) = unat (st_locBlockIDer s) + 1 \<and>
    st_locBlocks s1 = (st_locBlocks s)(unat i := Some (FileBlock fl)) \<and> st_locmap s1 = st_locmap s \<and>
    sf_disk fl = disk \<and> sf_interval fl = ci"
proof -
  let ?i = "st_locBlockIDer s + 1"
  have i: "unat ?i = unat (st_locBlockIDer s) + 1" "unat ?i < 65535"
    using assms(3) by (auto simp: MaxUint16_def unat_word_ariths(1))
  have small: "\<not> ucast MaxUint32 \<le> ?i"
  proof -
    have "unat (ucast MaxUint32 :: u64) = 4294967295"
      by (simp add: MaxUint32_def unsigned_ucast_eq unsigned_minus_1_eq_mask mask_eq_exp_minus_1)
    then show ?thesis using i(2) by (simp add: word_le_nat_alt)
  qed
  have u: "unat (ucast ?i :: u32) = unat ?i" using i(2) by (simp add: unsigned_ucast_eq take_bit_eq_mod)
  have "List.find (\<lambda>i. case opened i of Inr _ \<Rightarrow> True | Inl disk \<Rightarrow> i = 0 \<and> snd (snd (readValueHeader (ly_template (c_layout cfg)) disk)) \<noteq> None)
      [0..<c_fileReaders cfg] = None"
    using assms(1,2) by (auto simp: find_None_iff)
  then show ?thesis
    using assms(1,2) i small u
    by (auto simp: newValueReadFile_def addLocBlock_def set_locBlock_def Let_def MaxUint16_def)
qed

section \<open>A directory the store wrote\<close>

lemma TOC_entries:
  assumes Y: "key_layout Y" and "32 \<le> unat ci" "8 \<le> unat ci mod FILE_ENTRY_SIZE Y" "0 < workers"
  shows "\<exists>sent n. valueReadTOCEntriesBatched Y sum32 (\<lambda>_. False) (\<lambda>_. None)
      (checksummed sum32 (unat ci) (value_head_toc (ly_template Y) ci @ putEntries Y es @ term_block (unat ci))) i workers batchSize = Some (sent, n, []) \<and>
    set (concat (map snd sent)) = set (filter (\<lambda>e. Offset e \<noteq> 0) (map (loadedEntry i) es))"
proof -
  let ?es = "filter (\<lambda>e. Offset e \<noteq> 0) (map (loadedEntry i) es)"
  obtain sent n where read: "valueReadTOCEntriesBatched Y sum32 (\<lambda>_. False) (\<lambda>_. None)
      (checksummed sum32 (unat ci) (value_head_toc (ly_template Y) ci @ putEntries Y es @ term_block (unat ci))) i workers batchSize = Some (sent, n, [])"
    and each: "\<forall>k < workers. concat (map snd (filter (\<lambda>p. fst p = k) sent)) = filter (\<lambda>e. unat (ly_keyB Y (KeyB e)) mod workers = k) ?es"
    using key_layout.TOC_roundtrip [OF assms, of sum32 es i batchSize] by blast
  have "wr \<in> set (concat (map snd sent)) \<longleftrightarrow> (\<exists>k < workers. wr \<in> set (concat (map snd (filter (\<lambda>p. fst p = k) sent))))" for wr
  proof
    assume "wr \<in> set (concat (map snd sent))"
    then obtain k b where "(k, b) \<in> set sent" "wr \<in> set b" by auto
    then show "\<exists>k < workers. wr \<in> set (concat (map snd (filter (\<lambda>p. fst p = k) sent)))"
      using sent_channels [OF read, of "(k, b)"] by (intro exI [of _ k]) force
  qed force
  also have "\<dots> wr \<longleftrightarrow> (\<exists>k < workers. wr \<in> set (filter (\<lambda>e. unat (ly_keyB Y (KeyB e)) mod workers = k) ?es))" for wr
    using each by (metis (no_types, lifting))
  also have "\<dots> wr \<longleftrightarrow> wr \<in> set ?es" for wr
    using assms(4) by auto
  finally show ?thesis using read by blast
qed

text \<open>
  What is in the files of a name: the checksum interval, the bytes of the values and the TOC entries.
  Both are readable, and the entries are of values in the file.
\<close>

type_synonym 'b file_content = "u32 \<times> bytes \<times> 'b stored_entry list"

definition values_of :: "'b layout \<Rightarrow> 'b file_content \<Rightarrow> bytes" where
  "values_of Y c = (case c of (ci, body, _) \<Rightarrow> value_head (ly_template Y) ci @ body)"

definition values_file :: "'b layout \<Rightarrow> (bytes \<Rightarrow> u32) \<Rightarrow> 'b file_content \<Rightarrow> bytes" where
  "values_file Y sum32 c = (case c of (ci, body, _) \<Rightarrow> checksummed sum32 (unat ci) (value_head (ly_template Y) ci @ body @ term_block (unat ci)))"

definition toc_file :: "'b layout \<Rightarrow> (bytes \<Rightarrow> u32) \<Rightarrow> 'b file_content \<Rightarrow> bytes" where
  "toc_file Y sum32 c = (case c of (ci, _, es) \<Rightarrow> checksummed sum32 (unat ci) (value_head_toc (ly_template Y) ci @ putEntries Y es @ term_block (unat ci)))"

definition content_ok :: "'b layout \<Rightarrow> 'b file_content \<Rightarrow> bool" where
  "content_ok Y c = (case c of (ci, body, es) \<Rightarrow>
     32 \<le> unat ci \<and> 8 \<le> unat ci mod FILE_ENTRY_SIZE Y \<and>
     (\<forall>(a, b, t, off, len) \<in> set es. t \<noteq> 0 \<and> t AND TSB_LOCAL_REMOVAL = 0 \<and> off \<noteq> 0 \<and> unat off + unat len \<le> length (values_of Y c)))"

definition good_file :: "'b layout \<Rightarrow> (bytes \<Rightarrow> u32) \<Rightarrow> dir_env \<Rightarrow> ('m, 'b) recovery_env \<Rightarrow> (string \<Rightarrow> 'b file_content) \<Rightarrow> string \<Rightarrow> bool" where
  "good_file Y sum32 env renv content name \<longleftrightarrow> (\<forall>ts. toc_name (ly_template Y) name = Some ts \<longrightarrow>
     content_ok Y (content name) \<and> de_openTOC env name = Inl (toc_file Y sum32 (content name)) \<and>
     (\<forall>k. re_values renv ts k = Inl (values_file Y sum32 (content name))) \<and> re_rderr renv name = (\<lambda>_. None))"

text \<open>Block \<open>i\<close> is the file of a name.\<close>

definition file_block :: "'b layout \<Rightarrow> (bytes \<Rightarrow> u32) \<Rightarrow> 'b file_content \<Rightarrow> 'm valueStore \<Rightarrow> u32 \<Rightarrow> bool" where
  "file_block Y sum32 c s i \<longleftrightarrow> i \<noteq> 0 \<and> unat i < MaxUint16 \<and> unat i \<le> unat (st_locBlockIDer s) \<and>
     (\<exists>fl. st_locBlocks s (unat i) = Some (FileBlock fl) \<and> sf_disk fl = values_file Y sum32 c \<and> sf_interval fl = fst c)"

definition stored :: "'b layout \<Rightarrow> (string \<Rightarrow> 'b file_content) \<Rightarrow> string list \<Rightarrow> string \<Rightarrow> 'b stored_entry \<Rightarrow> bool" where
  "stored Y content names name e \<longleftrightarrow> name \<in> set names \<and> toc_name (ly_template Y) name \<noteq> None \<and> e \<in> set (snd (snd (content name)))"

definition all_loaded where
  "all_loaded Y sum32 content names s ws \<longleftrightarrow>
     (\<forall>wr \<in> set ws. \<exists>name e i. stored Y content names name e \<and> file_block Y sum32 (content name) s i \<and> wr = loadedEntry i e) \<and>
     (\<forall>name e. stored Y content names name e \<longrightarrow>
        (\<exists>i. file_block Y sum32 (content name) s i \<and> loadedEntry i e \<in> set ws))"

lemma file_block_new:
  assumes "file_block Y sum32 c s j" "unat i = unat (st_locBlockIDer s) + 1" "unat (st_locBlockIDer s1) = unat (st_locBlockIDer s) + 1"
    "st_locBlocks s1 = (st_locBlocks s)(unat i := blk)"
  shows "file_block Y sum32 c s1 j"
  using assms by (auto simp: file_block_def)

lemma recovery_name_good:
  assumes Y: "key_layout (c_layout cfg)" and good: "good_file (c_layout cfg) sum32 env renv content name" and name: "toc_name (ly_template (c_layout cfg)) name = Some ts" and w: "0 < c_workers cfg"
    and room: "unat (st_locBlockIDer s) + 1 < MaxUint16"
  shows "\<exists>s1 bs i. recovery_name sum32 cfg env renv name (s, sent, []) = Done (s1, sent @ bs, []) \<and> st_locmap s1 = st_locmap s \<and>
    unat (st_locBlockIDer s1) = unat (st_locBlockIDer s) + 1 \<and> (\<forall>c j. file_block (c_layout cfg) sum32 c s j \<longrightarrow> file_block (c_layout cfg) sum32 c s1 j) \<and>
    file_block (c_layout cfg) sum32 (content name) s1 i \<and> set (concat (map snd bs)) = loadedEntry i ` set (snd (snd (content name)))"
proof -
  obtain ci body es where c: "content name = (ci, body, es)" by (cases "content name")
  have ok: "32 \<le> unat ci" "8 \<le> unat ci mod FILE_ENTRY_SIZE (c_layout cfg)" "\<forall>(a, b, t, off, len) \<in> set es. off \<noteq> 0"
    and files: "de_openTOC env name = Inl (toc_file (c_layout cfg) sum32 (content name))" "re_rderr renv name = (\<lambda>_. None)"
      "\<forall>k. re_values renv ts k = Inl (values_file (c_layout cfg) sum32 (content name))"
    using good name c by (auto simp: good_file_def content_ok_def)
  have "length (value_head (ly_template (c_layout cfg)) ci @ body @ term_block (unat ci)) > unat ci" using ok(1) by simp
  from checksummed_block [OF _ this, of sum32] ok(1)
  have "values_file (c_layout cfg) sum32 (content name) = value_head (ly_template (c_layout cfg)) ci @ drop 32 (values_file (c_layout cfg) sum32 (content name))"
    by (simp add: values_file_def c)
  then have head: "readValueHeader (ly_template (c_layout cfg)) (values_file (c_layout cfg) sum32 (content name)) = (value_head (ly_template (c_layout cfg)) ci, ci, None)"
    using readHeader_value [OF ok(1)] by metis
  from newValueReadFile_opens [OF files(3) head room] obtain i fl s1 where
    new: "newValueReadFile cfg (re_values renv ts) ts s = Done (Inl i, s1)" "unat i = unat (st_locBlockIDer s) + 1"
      "unat (st_locBlockIDer s1) = unat (st_locBlockIDer s) + 1"
      "st_locBlocks s1 = (st_locBlocks s)(unat i := Some (FileBlock fl))" "st_locmap s1 = st_locmap s"
      "sf_disk fl = values_file (c_layout cfg) sum32 (content name)" "sf_interval fl = ci" by blast
  have blk: "file_block (c_layout cfg) sum32 (content name) s1 i"
    using new room c by (auto simp: file_block_def)
  from TOC_entries [OF Y ok(1,2) w, of sum32 es i "c_recoveryBatchSize cfg"] obtain bs n where
    bs: "valueReadTOCEntriesBatched (c_layout cfg) sum32 (\<lambda>_. False) (\<lambda>_. None) (toc_file (c_layout cfg) sum32 (content name)) i (c_workers cfg)
        (c_recoveryBatchSize cfg) = Some (bs, n, [])"
      "set (concat (map snd bs)) = set (filter (\<lambda>e. Offset e \<noteq> 0) (map (loadedEntry i) es))"
    by (auto simp: toc_file_def c)
  have "set (filter (\<lambda>e. Offset e \<noteq> 0) (map (loadedEntry i) es)) = loadedEntry i ` set es"
    using ok(3) by (force simp: loadedEntry_def)
  then show ?thesis
    using new(1,3,5) bs blk files name file_block_new [OF _ new(2,3,4)] c
    by (intro exI [of _ s1] exI [of _ bs] exI [of _ i]) (auto simp: recovery_name_def)
qed

lemma recovery_names_good:
  assumes Y: "key_layout (c_layout cfg)" and "0 < c_workers cfg"
  shows "\<forall>name \<in> set names. good_file (c_layout cfg) sum32 env renv content name \<Longrightarrow> unat (st_locBlockIDer s) + length names < MaxUint16 \<Longrightarrow>
    \<exists>s1 bs. fold_outcome (recovery_name sum32 cfg env renv) names (s, sent, []) = Done (s1, sent @ bs, []) \<and>
      st_locmap s1 = st_locmap s \<and> (\<forall>c j. file_block (c_layout cfg) sum32 c s j \<longrightarrow> file_block (c_layout cfg) sum32 c s1 j) \<and>
      all_loaded (c_layout cfg) sum32 content names s1 (concat (map snd bs))"
proof (induction names arbitrary: s sent)
  case Nil
  then show ?case by (auto simp: all_loaded_def stored_def)
next
  case (Cons name names)
  show ?case
  proof (cases "toc_name (ly_template (c_layout cfg)) name")
    case None
    then have "recovery_name sum32 cfg env renv name (s, sent, []) = Done (s, sent, [])" by (simp add: recovery_name_def)
    moreover have "stored (c_layout cfg) content (name # names) = stored (c_layout cfg) content names"
      using None by (auto simp: stored_def fun_eq_iff)
    ultimately show ?thesis using Cons.IH [of s sent] Cons.prems by (simp add: all_loaded_def)
  next
    case (Some ts)
    have "unat (st_locBlockIDer s) + 1 < MaxUint16" "good_file (c_layout cfg) sum32 env renv content name" using Cons.prems by auto
    from recovery_name_good [OF Y this(2) Some assms(2) this(1), of sent] obtain s1 bs i where
      one: "recovery_name sum32 cfg env renv name (s, sent, []) = Done (s1, sent @ bs, [])" "st_locmap s1 = st_locmap s"
        "unat (st_locBlockIDer s1) = unat (st_locBlockIDer s) + 1" "\<forall>c j. file_block (c_layout cfg) sum32 c s j \<longrightarrow> file_block (c_layout cfg) sum32 c s1 j"
        "file_block (c_layout cfg) sum32 (content name) s1 i" "set (concat (map snd bs)) = loadedEntry i ` set (snd (snd (content name)))"
      by blast
    from Cons.IH [of s1 "sent @ bs"] Cons.prems one(3) obtain s2 bs2 where
      rest: "fold_outcome (recovery_name sum32 cfg env renv) names (s1, sent @ bs, []) = Done (s2, sent @ bs @ bs2, [])"
        "st_locmap s2 = st_locmap s1" "\<forall>c j. file_block (c_layout cfg) sum32 c s1 j \<longrightarrow> file_block (c_layout cfg) sum32 c s2 j"
        "all_loaded (c_layout cfg) sum32 content names s2 (concat (map snd bs2))" by auto
    have first: "stored (c_layout cfg) content (name # names) n e \<longleftrightarrow> stored (c_layout cfg) content names n e \<or> (n = name \<and> e \<in> set (snd (snd (content name))))" for n e
      using Some by (auto simp: stored_def)
    have blk: "file_block (c_layout cfg) sum32 (content name) s2 i" using rest(3) one(5) by blast
    have "all_loaded (c_layout cfg) sum32 content (name # names) s2 (concat (map snd (bs @ bs2)))"
      unfolding all_loaded_def
    proof (intro conjI ballI allI impI)
      fix wr assume "wr \<in> set (concat (map snd (bs @ bs2)))"
      then consider "wr \<in> loadedEntry i ` set (snd (snd (content name)))" | "wr \<in> set (concat (map snd bs2))"
        using one(6) by auto
      then show "\<exists>n e j. stored (c_layout cfg) content (name # names) n e \<and> file_block (c_layout cfg) sum32 (content n) s2 j \<and> wr = loadedEntry j e"
        using first blk rest(4) unfolding all_loaded_def by cases blast+
    next
      fix n e assume "stored (c_layout cfg) content (name # names) n e"
      then show "\<exists>j. file_block (c_layout cfg) sum32 (content n) s2 j \<and> loadedEntry j e \<in> set (concat (map snd (bs @ bs2)))"
        using first [of n e] blk rest(4) one(6) unfolding all_loaded_def by (metis Un_iff concat_append imageI map_append set_append)
    qed
    then show ?thesis
      using one(1,2,4) rest(1-3) by (intro exI [of _ s2] exI [of _ "bs @ bs2"]) simp
  qed
qed

text \<open>Recovery does not touch the memory writers.\<close>

lemma addLocBlock_writers: "addLocBlock blk s = Done (r, s') \<Longrightarrow> st_memWriters s' = st_memWriters s"
  by (auto simp: addLocBlock_def set_locBlock_def Let_def split: if_splits)

lemma recovery_name_writers:
  assumes "recovery_name sum32 cfg env renv name (s, sent, compact) = Done (s', sent', compact')"
  shows "st_memWriters s' = st_memWriters s"
proof -
  have "st_memWriters s1 = st_memWriters s" if "newValueReadFile cfg opened ts s = Done (r, s1)" for opened ts r s1
    using that by (auto simp: newValueReadFile_def split: option.splits elim!: bind_outcome_DoneE dest!: addLocBlock_writers)
  then show ?thesis
    using assms by (fastforce simp: recovery_name_def split: option.splits sum.splits if_splits elim!: bind_outcome_DoneE)
qed

lemma recovery_names_writers:
  "fold_outcome (recovery_name sum32 cfg env renv) names (s, sent, compact) = Done (s', sent', compact') \<Longrightarrow>
   st_memWriters s' = st_memWriters s"
proof (induction names arbitrary: s sent compact)
  case (Cons n names)
  from Cons.prems obtain s1 sent1 compact1 where "recovery_name sum32 cfg env renv n (s, sent, compact) = Done (s1, sent1, compact1)"
    "fold_outcome (recovery_name sum32 cfg env renv) names (s1, sent1, compact1) = Done (s', sent', compact')"
    by (auto elim!: bind_outcome_DoneE)
  then show ?case using Cons.IH recovery_name_writers by metis
qed simp

lemma file_block_read:
  assumes rd: "checksummed_reader sum32 rd" and blk: "file_block (c_layout cfg) sum32 c s i" and c: "content_ok (c_layout cfg) c" and e: "(a, b, t, off, len) \<in> set (snd (snd c))"
    and get: "lm_Get L (st_locmap s) a b = (t, i, off, len)"
  shows "store_read L rd cfg a b buf s = Done (if t AND TSB_DELETION \<noteq> 0 then (t, buf, Some ErrNotFound)
    else (t, buf @ take (unat len) (drop (unat off) (values_of (c_layout cfg) c)), None))"
proof -
  obtain ci body es where cs: "c = (ci, body, es)" by (cases c)
  obtain fl where fl: "st_locBlocks s (unat i) = Some (FileBlock fl)" "sf_disk fl = values_file (c_layout cfg) sum32 c" "sf_interval fl = ci"
    "i \<noteq> 0" "unat i < MaxUint16" using blk cs by (auto simp: file_block_def)
  have ci: "32 \<le> unat ci" and bits: "t AND TSB_LOCAL_REMOVAL = 0" and le: "unat off + unat len \<le> length (value_head (ly_template (c_layout cfg)) ci @ body)"
    using c e cs by (auto simp: content_ok_def values_of_def)
  have "rd (unat ci) (sf_disk fl) (unat off) (unat len) = (take (unat len) (drop (unat off) (value_head (ly_template (c_layout cfg)) ci @ body @ term_block (unat ci))), None)"
    unfolding fl(2) values_file_def cs prod.case
    by (rule checksummed_reader.rd_checksummed [OF rd]) (use ci le in auto)
  also have "take (unat len) (drop (unat off) (value_head (ly_template (c_layout cfg)) ci @ body @ term_block (unat ci))) = take (unat len) (drop (unat off) (values_of (c_layout cfg) c))"
    using le by (simp add: values_of_def cs)
  finally show ?thesis
    using get fl bits
    by (simp add: store_read_def read_fuel_def numeral_2_eq_2 locBlock_def valueStoreFile_read_def)
qed

lemma loadedEntry_simps [simp]:
  "KeyA (loadedEntry i (a, b, t, off, len)) = a" "KeyB (loadedEntry i (a, b, t, off, len)) = b"
  "TimestampBits (loadedEntry i (a, b, t, off, len)) = t" "BlockID (loadedEntry i (a, b, t, off, len)) = i"
  "Offset (loadedEntry i (a, b, t, off, len)) = off" "Length (loadedEntry i (a, b, t, off, len)) = len"
  by (simp_all add: loadedEntry_def)

section \<open>Properties\<close>

text \<open>The entry of a key with the newest timestamp among the files.\<close>

definition newest_entry :: "'b layout \<Rightarrow> (string \<Rightarrow> 'b file_content) \<Rightarrow> string list \<Rightarrow> u64 \<Rightarrow> 'b \<Rightarrow> string \<Rightarrow> u64 \<Rightarrow> u32 \<Rightarrow> u32 \<Rightarrow> bool" where
  "newest_entry Y content names a b name t off len \<longleftrightarrow> stored Y content names name (a, b, t, off, len) \<and>
     (\<forall>name' t' off' len'. stored Y content names name' (a, b, t', off', len') \<longrightarrow>
        t' < t \<or> (name', t', off', len') = (name, t, off, len))"

text \<open>
  Recovery of a directory whose files are as the store writes them, into an empty location map, ends
  without an error and without touching a file; then the store reads the value of the newest entry.
\<close>

lemma recovery_restored:
  assumes Y: "key_layout (c_layout cfg)" and C: "locmap_contract L" and rd: "checksummed_reader sum32 rd"
    and dir: "de_readdirnames env = Inl names" "\<forall>name \<in> set names. good_file (c_layout cfg) sum32 env renv content name"
    and arr: "arranges (re_arrange renv)" and w: "0 < c_workers cfg" and room: "unat (st_locBlockIDer s) + length names < MaxUint16"
    and empty: "\<forall>a b. lm_Get L (st_locmap s) a b = loc_none"
  shows "\<exists>s'. recovery L rd sum32 cfg env renv (st, s) = Done (None, [], st, s') \<and> st_memWriters s' = st_memWriters s \<and>
    (\<forall>a b name t off len buf. newest_entry (c_layout cfg) content names a b name t off len \<longrightarrow>
       store_read L rd cfg a b buf s' = Done (if t AND TSB_DELETION \<noteq> 0 then (t, buf, Some ErrNotFound)
         else (t, buf @ take (unat len) (drop (unat off) (values_of (c_layout cfg) (content name))), None))) \<and>
    (\<forall>a b. (\<forall>name t off len. \<not> stored (c_layout cfg) content names name (a, b, t, off, len)) \<longrightarrow> lm_Get L (st_locmap s') a b = loc_none)"
proof -
  have good: "\<forall>name \<in> set (sort names). good_file (c_layout cfg) sum32 env renv content name" using dir(2) by simp
  have room': "unat (st_locBlockIDer s) + length (sort names) < MaxUint16" using room by simp
  from recovery_names_good [OF Y w good room', of "[]"] obtain s1 sent where
    files: "fold_outcome (recovery_name sum32 cfg env renv) (sort names) (s, [], []) = Done (s1, sent, [])"
      "st_locmap s1 = st_locmap s" "all_loaded (c_layout cfg) sum32 content (sort names) s1 (concat (map snd sent))" by auto
  let ?ws = "concat (map snd (re_arrange renv sent))"
  let ?lm = "foldl (\<lambda>lm wr. recovery_entry L wr lm) (st_locmap s) ?ws"
  let ?s = "s1\<lparr>st_locmap := ?lm\<rparr>"
  have "mset (re_arrange renv sent) = mset sent" by (rule arranges_mset [OF arr])
  then have ws: "set ?ws = set (concat (map snd sent))" by (metis set_concat set_map set_mset_mset)
  have st: "stored (c_layout cfg) content (sort names) = stored (c_layout cfg) content names" by (auto simp: stored_def fun_eq_iff)
  have loaded: "\<forall>wr \<in> set ?ws. \<exists>name e i. stored (c_layout cfg) content names name e \<and> file_block (c_layout cfg) sum32 (content name) s1 i \<and> wr = loadedEntry i e"
    and each: "\<forall>name e. stored (c_layout cfg) content names name e \<longrightarrow> (\<exists>i. file_block (c_layout cfg) sum32 (content name) s1 i \<and> loadedEntry i e \<in> set ?ws)"
    using files(3) unfolding all_loaded_def st ws by (rule conjunct1, rule conjunct2)
  have ok: "content_ok (c_layout cfg) (content name)" if "stored (c_layout cfg) content names name e" for name e
    using that dir(2) by (auto simp: stored_def good_file_def)
  have origin: "\<exists>name t off len i. stored (c_layout cfg) content names name (KeyA wr, KeyB wr, t, off, len) \<and> file_block (c_layout cfg) sum32 (content name) s1 i \<and>
      wr = loadedEntry i (KeyA wr, KeyB wr, t, off, len)" if "wr \<in> set ?ws" for wr
  proof -
    note wr = that
    obtain name e i where *: "stored (c_layout cfg) content names name e" "file_block (c_layout cfg) sum32 (content name) s1 i" "wr = loadedEntry i e"
      using bspec [OF loaded wr] by blast
    obtain a b t off len where e: "e = (a, b, t, off, len)" by (cases e)
    then have "KeyA wr = a" "KeyB wr = b" using *(3) by simp_all
    then show ?thesis using * e by blast
  qed
  have res: "\<forall>wr \<in> set ?ws. restorable wr"
  proof
    fix wr assume "wr \<in> set ?ws"
    from origin [OF this] obtain name t off len i where
      *: "stored (c_layout cfg) content names name (KeyA wr, KeyB wr, t, off, len)" "file_block (c_layout cfg) sum32 (content name) s1 i"
        "wr = loadedEntry i (KeyA wr, KeyB wr, t, off, len)" by blast
    have "TimestampBits wr = t" "BlockID wr = i" by (subst *(3), simp)+
    moreover have "t \<noteq> 0 \<and> t AND TSB_LOCAL_REMOVAL = 0"
      using ok [OF *(1)] *(1) by (fastforce simp: content_ok_def stored_def)
    ultimately show "restorable wr" using *(2) by (simp add: restorable_def file_block_def)
  qed
  note newest = locmap_contract.recovery_newest [OF C res, of "st_locmap s"]
  have blk: "file_block (c_layout cfg) sum32 c ?s i = file_block (c_layout cfg) sum32 c s1 i" for c i by (simp add: file_block_def)
  have "store_read L rd cfg a b buf ?s = Done (if t AND TSB_DELETION \<noteq> 0 then (t, buf, Some ErrNotFound)
         else (t, buf @ take (unat len) (drop (unat off) (values_of (c_layout cfg) (content name))), None))"
    if e: "newest_entry (c_layout cfg) content names a b name t off len" for a b name t off len buf
  proof -
    have st_e: "stored (c_layout cfg) content names name (a, b, t, off, len)" using e by (simp add: newest_entry_def)
    then obtain j where "loadedEntry j (a, b, t, off, len) \<in> set ?ws"
      using each by blast
    with newest [of a b] res have ge: "t \<le> fst (lm_Get L ?lm a b)" and "t \<noteq> 0"
      by (force simp: restorable_def)+
    then obtain wr where wr: "wr \<in> set ?ws" "KeyA wr = a" "KeyB wr = b" "lm_Get L ?lm a b = loc_of wr"
      using newest [of a b] empty by (auto simp: word_le_0_iff)
    from origin [OF wr(1)] wr(2,3) obtain name' t' off' len' i where
      *: "stored (c_layout cfg) content names name' (a, b, t', off', len')" "file_block (c_layout cfg) sum32 (content name') s1 i"
        "wr = loadedEntry i (a, b, t', off', len')" by blast
    have loc: "lm_Get L ?lm a b = (t', i, off', len')" using wr(4) by (simp add: loc_of_def *(3))
    then have "(name', t', off', len') = (name, t, off, len)"
      using e *(1) ge unfolding newest_entry_def by (metis fst_conv leD)
    then have same: "name' = name" "t' = t" "off' = off" "len' = len" by simp_all
    show ?thesis
      by (rule file_block_read [OF rd, where i = i]) (use *(2) blk ok [OF st_e] st_e loc same in \<open>auto simp: stored_def\<close>)
  qed
  moreover have "lm_Get L ?lm a b = loc_none" if none: "\<forall>name t off len. \<not> stored (c_layout cfg) content names name (a, b, t, off, len)" for a b
    using newest [of a b] empty none origin by metis
  moreover have "recovery L rd sum32 cfg env renv (st, s) = Done (None, [], st, ?s)"
    using files(1,2) dir(1) by (simp add: recovery_def recovery_batches_concat)
  ultimately show ?thesis using recovery_names_writers [OF files(1)] by (intro exI [of _ ?s]) simp
qed

section \<open>Damaged files\<close>

lemma bind_outcome_Blocked: "bind_outcome x f = Blocked \<longleftrightarrow> x = Blocked \<or> (\<exists>y. x = Done y \<and> f y = Blocked)"
  by (cases x) auto

lemma addLocBlock_not_blocked: "addLocBlock blk s \<noteq> Blocked"
  by (simp add: addLocBlock_def Let_def)

lemma newValueReadFile_not_blocked: "newValueReadFile cfg opened ts s \<noteq> Blocked"
  by (auto simp: newValueReadFile_def addLocBlock_not_blocked bind_outcome_Blocked split: option.splits)

lemma recovery_name_not_blocked: "recovery_name sum32 cfg env renv name x \<noteq> Blocked"
  by (cases x) (auto simp: recovery_name_def newValueReadFile_not_blocked bind_outcome_Blocked split: option.splits sum.splits)

lemma recovery_names_not_blocked: "fold_outcome (recovery_name sum32 cfg env renv) names x \<noteq> Blocked"
proof (induction names arbitrary: x)
  case (Cons name names)
  then show ?case
    by (simp add: bind_outcome_Blocked recovery_name_not_blocked)
qed simp

text \<open>A file that gives errors is kept for compaction.\<close>

definition damaged :: "(bytes \<Rightarrow> u32) \<Rightarrow> 'b store_cfg \<Rightarrow> dir_env \<Rightarrow> ('m, 'b) recovery_env \<Rightarrow> string \<Rightarrow> bool" where
  "damaged sum32 cfg env renv name \<longleftrightarrow> (\<exists>ts fpr disk h ci.
     toc_name (ly_template (c_layout cfg)) name = Some ts \<and> de_openTOC env name = Inl fpr \<and> snd (snd (readValueHeaderTOC (ly_template (c_layout cfg)) fpr)) = None \<and>
     (\<forall>k. re_values renv ts k = Inl disk) \<and> readValueHeader (ly_template (c_layout cfg)) disk = (h, ci, None) \<and>
     (\<forall>i sent n errs. valueReadTOCEntriesBatched (c_layout cfg) sum32 (\<lambda>_. False) (re_rderr renv name) fpr i (c_workers cfg) (c_recoveryBatchSize cfg) =
        Some (sent, n, errs) \<longrightarrow> errs \<noteq> []))"

lemma recovery_name_compact:
  assumes "recovery_name sum32 cfg env renv name (s, sent, compact) = Done (s', sent', compact')"
  shows "set compact \<subseteq> set compact'"
  using assms
  by (auto simp: recovery_name_def split: option.splits sum.splits if_splits elim!: bind_outcome_DoneE)

lemma recovery_name_damaged:
  assumes "recovery_name sum32 cfg env renv name (s, sent, compact) = Done (s', sent', compact')" "damaged sum32 cfg env renv name"
    "unat (st_locBlockIDer s) + 1 < MaxUint16"
  shows "\<exists>i. (name, i) \<in> set compact'"
proof -
  obtain ts fpr disk h ci where d: "toc_name (ly_template (c_layout cfg)) name = Some ts" "de_openTOC env name = Inl fpr" "\<forall>k. re_values renv ts k = Inl disk"
    "readValueHeader (ly_template (c_layout cfg)) disk = (h, ci, None)"
    "\<forall>i sent n errs. valueReadTOCEntriesBatched (c_layout cfg) sum32 (\<lambda>_. False) (re_rderr renv name) fpr i (c_workers cfg) (c_recoveryBatchSize cfg) =
        Some (sent, n, errs) \<longrightarrow> errs \<noteq> []"
    using assms(2) unfolding damaged_def by blast
  obtain i s1 where "newValueReadFile cfg (re_values renv ts) ts s = Done (Inl i, s1)"
    using newValueReadFile_opens [OF d(3,4) assms(3), of ts] by blast
  then show ?thesis
    using assms(1) d(1,2,5) by (auto simp: recovery_name_def split: option.splits if_splits)
qed

lemma addLocBlock_ider:
  "addLocBlock blk s = Done (r, s') \<Longrightarrow> unat (st_locBlockIDer s') \<le> unat (st_locBlockIDer s) + 1"
  by (auto simp: addLocBlock_def set_locBlock_def Let_def unat_word_ariths(1) split: if_splits)

lemma recovery_name_ider:
  assumes "recovery_name sum32 cfg env renv name (s, sent, compact) = Done (s', sent', compact')"
  shows "unat (st_locBlockIDer s') \<le> unat (st_locBlockIDer s) + 1"
proof -
  have "unat (st_locBlockIDer s1) \<le> unat (st_locBlockIDer s) + 1" if "newValueReadFile cfg opened ts s = Done (r, s1)" for opened ts r s1
    using that by (auto simp: newValueReadFile_def split: option.splits elim!: bind_outcome_DoneE dest!: addLocBlock_ider)
  then show ?thesis
    using assms by (fastforce simp: recovery_name_def split: option.splits sum.splits if_splits elim!: bind_outcome_DoneE)
qed

lemma recovery_names_damaged:
  assumes "fold_outcome (recovery_name sum32 cfg env renv) names (s, sent, compact) = Done (s', sent', compact')"
    "name \<in> set names" "damaged sum32 cfg env renv name" "unat (st_locBlockIDer s) + length names < MaxUint16"
  shows "\<exists>i. (name, i) \<in> set compact'"
proof -
  have grow: "set compact \<subseteq> set compact'"
    if "fold_outcome (recovery_name sum32 cfg env renv) names (s, sent, compact) = Done (s', sent', compact')" for names s sent compact
    using that
  proof (induction names arbitrary: s sent compact)
    case (Cons n names)
    from Cons.prems obtain s1 sent1 compact1 where "recovery_name sum32 cfg env renv n (s, sent, compact) = Done (s1, sent1, compact1)"
      "fold_outcome (recovery_name sum32 cfg env renv) names (s1, sent1, compact1) = Done (s', sent', compact')"
      by (auto elim!: bind_outcome_DoneE)
    then show ?case using Cons.IH recovery_name_compact by blast
  qed simp
  show ?thesis using assms
  proof (induction names arbitrary: s sent compact)
    case (Cons n names)
    from Cons.prems(1) obtain s1 sent1 compact1 where
      one: "recovery_name sum32 cfg env renv n (s, sent, compact) = Done (s1, sent1, compact1)"
        "fold_outcome (recovery_name sum32 cfg env renv) names (s1, sent1, compact1) = Done (s', sent', compact')"
      by (auto elim!: bind_outcome_DoneE)
    show ?case
    proof (cases "n = name")
      case True
      have "unat (st_locBlockIDer s) + 1 < MaxUint16" using Cons.prems(4) by simp
      then show ?thesis using recovery_name_damaged [OF one(1)] Cons.prems(3) True grow [OF one(2)] by blast
    next
      case False
      then show ?thesis using Cons.IH [OF one(2)] Cons.prems recovery_name_ider [OF one(1)] by simp
    qed
  qed simp
qed

text \<open>Compaction before the start of the compactor, which makes its channels.\<close>

lemma compactFile_no_channels:
  assumes "cp_free st = []" "cp_stuck st = 0" "arranges (ce_arrange ce)" "\<not> ce_cancel ce"
  shows "compactFile L rd sum32 cfg env ce name i (st, s) = Panic \<or>
    (\<exists>ops st' s'. compactFile L rd sum32 cfg env ce name i (st, s) = Done (ops, st', s') \<and> cp_free st' = [] \<and> cp_stuck st' = 0)"
    and "de_openTOC env name = Inl fpr \<Longrightarrow> snd (snd (readValueHeaderTOC (ly_template (c_layout cfg)) fpr)) = None \<Longrightarrow>
      compactFile L rd sum32 cfg env ce name i (st, s) = Panic"
proof -
  have none: "ce_arrange ce [] = []" using arranges_mset [OF assms(3), of "[]"] by simp
  show panic: "de_openTOC env name = Inl fpr \<Longrightarrow> snd (snd (readValueHeaderTOC (ly_template (c_layout cfg)) fpr)) = None \<Longrightarrow>
      compactFile L rd sum32 cfg env ce name i (st, s) = Panic" for fpr
    using assms(1) by (auto simp: compactFile_def valueReadTOCEntriesBatched_def Let_def split: prod.splits)
  show "compactFile L rd sum32 cfg env ce name i (st, s) = Panic \<or>
    (\<exists>ops st' s'. compactFile L rd sum32 cfg env ce name i (st, s) = Done (ops, st', s') \<and> cp_free st' = [] \<and> cp_stuck st' = 0)"
  proof (cases "de_openTOC env name")
    case (Inr err)
    then show ?thesis using assms(1,2) by (simp add: compactFile_def Let_def)
  next
    case (Inl fpr)
    show ?thesis
    proof (cases "snd (snd (readValueHeaderTOC (ly_template (c_layout cfg)) fpr))")
      case None
      then show ?thesis using panic [OF Inl] by blast
    next
      case (Some err)
      then show ?thesis
        using Inl assms none
        by (auto simp: compactFile_def valueReadTOCEntriesBatched_def starved_def compact_start_def lose_batches_def Let_def
            split: prod.splits)
    qed
  qed
qed

lemma recovery_damaged_panics:
  assumes dir: "de_readdirnames env = Inl names" "name \<in> set names" "damaged sum32 cfg env renv name"
    and room: "unat (st_locBlockIDer s) + length names < MaxUint16"
    and fresh: "cp_free st = []" "cp_stuck st = 0" "\<forall>name. arranges (ce_arrange (re_call renv name))"
  shows "recovery L rd sum32 cfg env renv (st, s) = Panic"
proof -
  have all: "fold_outcome (recovery_compact L rd sum32 cfg env renv) jobs (ops, st, s) = Panic"
    if "\<exists>i. (name, i) \<in> set jobs" "cp_free st = []" "cp_stuck st = 0" for jobs ops st s
    using that
  proof (induction jobs arbitrary: ops st s)
    case (Cons job jobs)
    obtain n i where job: "job = (n, i)" by (cases job)
    let ?ce = "(re_call renv n)\<lparr>ce_stop := (\<lambda>_. False), ce_cancel := False\<rparr>"
    have ce: "arranges (ce_arrange ?ce)" "\<not> ce_cancel ?ce" using fresh(3) by simp_all
    note no = compactFile_no_channels [OF Cons.prems(2,3) ce]
    show ?case
    proof (cases "compactFile L rd sum32 cfg env ?ce n i (st, s) = Panic")
      case True
      then show ?thesis by (simp add: recovery_compact_def job)
    next
      case False
      then obtain ops' st' s' where run: "compactFile L rd sum32 cfg env ?ce n i (st, s) = Done (ops', st', s')"
        "cp_free st' = []" "cp_stuck st' = 0" using no(1) by blast
      have "n \<noteq> name" using False no(2) dir(3) unfolding damaged_def by blast
      then show ?thesis using Cons.IH [of st' "ops @ ops'" s'] Cons.prems(1) job run by (simp add: recovery_compact_def)
    qed
  qed simp
  let ?names = "fold_outcome (recovery_name sum32 cfg env renv) (sort names) (s, [], [])"
  show ?thesis
  proof (cases ?names)
    case (Done x)
    obtain s1 sent compact where x: "x = (s1, sent, compact)" by (cases x)
    have "\<exists>i. (name, i) \<in> set compact"
      by (rule recovery_names_damaged [where names = "sort names", OF _ _ dir(3)]) (use Done x dir(2) room in auto)
    then show ?thesis using Done x dir(1) all [of compact st "[]"] fresh(1,2) by (simp add: recovery_def)
  next
    case Blocked
    then show ?thesis using recovery_names_not_blocked by blast
  next
    case Panic
    then show ?thesis using dir(1) by (simp add: recovery_def)
  qed
qed

section \<open>Examples\<close>

text \<open>Two files with a value for the same key.\<close>

definition content_example :: "string \<Rightarrow> u64 file_content" where
  "content_example name = (if name = ''5.valuetoc'' then (40, [1, 2, 3], [(1, 2, 0x300, 32, 2)])
     else (40, [4, 5, 6], [(1, 2, 0x400, 33, 2)]))"

definition recovery_dir :: dir_env where
  "recovery_dir = \<lparr>de_readdirnames = Inl [''9.valuetoc'', ''5.valuetoc''],
     de_openTOC = (\<lambda>name. Inl (toc_file value_layout (\<lambda>_. 7) (content_example name))), de_open = (\<lambda>_. Inr ErrEOF),
     de_stat = (\<lambda>_. Inl 0), de_remove = (\<lambda>_. False), de_rename = (\<lambda>_. False)\<rparr>"

definition recovery_example :: "(i64 \<Rightarrow> bytes + go_error) \<Rightarrow> (u64 alm, u64) recovery_env" where
  "recovery_example values = \<lparr>re_values = (\<lambda>ts _. values ts), re_rderr = (\<lambda>_ _. None), re_arrange = (\<lambda>bs. bs),
     re_call = (\<lambda>_. call_example)\<rparr>"

definition values_example :: "i64 \<Rightarrow> bytes + go_error" where
  "values_example ts = Inl (values_file value_layout (\<lambda>_. 7) (content_example (if ts = 5 then ''5.valuetoc'' else ''9.valuetoc'')))"

lemma toc_name_examples: "toc_name ValueStore ''5.valuetoc'' = Some 5" "toc_name ValueStore ''9.valuetoc'' = Some 9"
  by code_simp+

end
