(* ===== verification/Config.thy ===== *)
theory Config
  imports Complex_Main Layout "HOL-Library.Signed_Division"
begin

text \<open>
  The configuration of a store (\<open>src/valueconfig_GEN_.go\<close>, \<open>src/groupconfig_GEN_.go\<close>): the settings of the caller, overridden by the
  environment, completed by defaults and kept in their bounds.  An \<open>int\<close> is a 64-bit word read with
  \<open>sint\<close>; a \<open>float64\<close> is a rational.  What the process finds around it is an input: the environment,
  \<open>GOMAXPROCS\<close>, \<open>strconv.ParseFloat\<close> and the product \<open>int(float64(n)*k*scale)\<close>, of which nothing is assumed.
  The logger, the random source, the location map, the ring and the file system functions of the
  configuration are parameters elsewhere.
\<close>

section \<open>Settings\<close>

text \<open>
  The template (\<open>config.got\<close>) is given the name of the store and the size of its TOC entries.
\<close>

fun tp_entrySize :: "template \<Rightarrow> i64" where
  "tp_entrySize ValueStore = 32"
| "tp_entrySize GroupStore = 48"

record host =
  ho_getenv :: "string \<Rightarrow> string"
  ho_gomaxprocs :: i64
  ho_parseFloat :: "string \<Rightarrow> rat option"
  ho_scale :: "i64 \<Rightarrow> i64 \<Rightarrow> rat \<Rightarrow> i64"

record StoreConfig =
  cf_Scale :: rat
  cf_Path :: string
  cf_PathTOC :: string
  cf_ValueCap :: i64
  cf_Workers :: i64
  cf_ChecksumInterval :: i64
  cf_PageSize :: i64
  cf_WritePagesPerWorker :: i64
  cf_MsgCap :: i64
  cf_MsgTimeout :: i64
  cf_FileCap :: i64
  cf_FileReaders :: i64
  cf_RecoveryBatchSize :: i64
  cf_TombstoneDiscardInterval :: i64
  cf_TombstoneDiscardBatchSize :: i64
  cf_TombstoneAge :: i64
  cf_TombstoneDiscardWorkers :: i64
  cf_ReplicationIgnoreRecent :: i64
  cf_OutPullReplicationInterval :: i64
  cf_OutPullReplicationWorkers :: i64
  cf_OutPullReplicationMsgs :: i64
  cf_OutPullReplicationBloomN :: i64
  cf_OutPullReplicationBloomP :: rat
  cf_OutPullReplicationMsgTimeout :: i64
  cf_InPullReplicationWorkers :: i64
  cf_InPullReplicationMsgs :: i64
  cf_InPullReplicationResponseMsgTimeout :: i64
  cf_PushReplicationInterval :: i64
  cf_PushReplicationWorkers :: i64
  cf_PushReplicationMsgTimeout :: i64
  cf_BulkSetMsgCap :: i64
  cf_OutBulkSetMsgs :: i64
  cf_InBulkSetWorkers :: i64
  cf_InBulkSetMsgs :: i64
  cf_InBulkSetResponseMsgTimeout :: i64
  cf_BulkSetAckMsgCap :: i64
  cf_InBulkSetAckWorkers :: i64
  cf_InBulkSetAckMsgs :: i64
  cf_OutBulkSetAckMsgs :: i64
  cf_CompactionInterval :: i64
  cf_CompactionWorkers :: i64
  cf_CompactionThreshold :: rat
  cf_CompactionAgeThreshold :: i64
  cf_DiskFreeDisableThreshold :: u64
  cf_DiskFreeReenableThreshold :: u64
  cf_DiskUsageDisableThreshold :: rat
  cf_DiskUsageReenableThreshold :: rat
  cf_FlusherThreshold :: u32
  cf_AuditInterval :: i64
  cf_AuditAgeThreshold :: i64
  cf_MemFreeDisableThreshold :: u64
  cf_MemFreeReenableThreshold :: u64
  cf_MemUsageDisableThreshold :: rat
  cf_MemUsageReenableThreshold :: rat
  cf_minValueAlloc :: i64

text \<open>The configuration without a setting, which is that of a nil pointer.\<close>

definition config_zero :: StoreConfig where
  "config_zero =
     \<lparr>cf_Scale = 0,
      cf_Path = [],
      cf_PathTOC = [],
      cf_ValueCap = 0,
      cf_Workers = 0,
      cf_ChecksumInterval = 0,
      cf_PageSize = 0,
      cf_WritePagesPerWorker = 0,
      cf_MsgCap = 0,
      cf_MsgTimeout = 0,
      cf_FileCap = 0,
      cf_FileReaders = 0,
      cf_RecoveryBatchSize = 0,
      cf_TombstoneDiscardInterval = 0,
      cf_TombstoneDiscardBatchSize = 0,
      cf_TombstoneAge = 0,
      cf_TombstoneDiscardWorkers = 0,
      cf_ReplicationIgnoreRecent = 0,
      cf_OutPullReplicationInterval = 0,
      cf_OutPullReplicationWorkers = 0,
      cf_OutPullReplicationMsgs = 0,
      cf_OutPullReplicationBloomN = 0,
      cf_OutPullReplicationBloomP = 0,
      cf_OutPullReplicationMsgTimeout = 0,
      cf_InPullReplicationWorkers = 0,
      cf_InPullReplicationMsgs = 0,
      cf_InPullReplicationResponseMsgTimeout = 0,
      cf_PushReplicationInterval = 0,
      cf_PushReplicationWorkers = 0,
      cf_PushReplicationMsgTimeout = 0,
      cf_BulkSetMsgCap = 0,
      cf_OutBulkSetMsgs = 0,
      cf_InBulkSetWorkers = 0,
      cf_InBulkSetMsgs = 0,
      cf_InBulkSetResponseMsgTimeout = 0,
      cf_BulkSetAckMsgCap = 0,
      cf_InBulkSetAckWorkers = 0,
      cf_InBulkSetAckMsgs = 0,
      cf_OutBulkSetAckMsgs = 0,
      cf_CompactionInterval = 0,
      cf_CompactionWorkers = 0,
      cf_CompactionThreshold = 0,
      cf_CompactionAgeThreshold = 0,
      cf_DiskFreeDisableThreshold = 0,
      cf_DiskFreeReenableThreshold = 0,
      cf_DiskUsageDisableThreshold = 0,
      cf_DiskUsageReenableThreshold = 0,
      cf_FlusherThreshold = 0,
      cf_AuditInterval = 0,
      cf_AuditAgeThreshold = 0,
      cf_MemFreeDisableThreshold = 0,
      cf_MemFreeReenableThreshold = 0,
      cf_MemUsageDisableThreshold = 0,
      cf_MemUsageReenableThreshold = 0,
      cf_minValueAlloc = 0\<rparr>"

text \<open>\<open>ParseUint\<close> with base 10 and 64 bits.\<close>

definition ParseUint :: "string \<Rightarrow> u64 option" where
  "ParseUint s =
     (if s = [] then None
      else case digits_value 0 s of None \<Rightarrow> None | Some n \<Rightarrow> if n < 2 ^ 64 then Some (of_int n) else None)"

text \<open>The name of a variable has the name of the store in front.\<close>

definition env_value :: "template \<Rightarrow> host \<Rightarrow> string \<Rightarrow> string" where
  "env_value T h name = ho_getenv h (tp_TT T @ ''STORE_'' @ name)"

text \<open>The environment overrides a setting unless it is empty or does not parse.\<close>

definition env_string :: "template \<Rightarrow> host \<Rightarrow> string \<Rightarrow> string \<Rightarrow> string" where
  "env_string T h name v = (if env_value T h name = [] then v else env_value T h name)"

definition env_int :: "template \<Rightarrow> host \<Rightarrow> string \<Rightarrow> i64 \<Rightarrow> i64" where
  "env_int T h name v =
     (if env_value T h name = [] then v else case ParseInt (env_value T h name) of None \<Rightarrow> v | Some val \<Rightarrow> val)"

definition env_uint :: "template \<Rightarrow> host \<Rightarrow> string \<Rightarrow> u64 \<Rightarrow> u64" where
  "env_uint T h name v =
     (if env_value T h name = [] then v else case ParseUint (env_value T h name) of None \<Rightarrow> v | Some val \<Rightarrow> val)"

definition env_float :: "template \<Rightarrow> host \<Rightarrow> string \<Rightarrow> rat \<Rightarrow> rat" where
  "env_float T h name v =
     (if env_value T h name = [] then v else case ho_parseFloat h (env_value T h name) of None \<Rightarrow> v | Some val \<Rightarrow> val)"

text \<open>The default for a zero, then \<open>bottom\<close> for what is below \<open>lo\<close>.\<close>

definition setting :: "i64 \<Rightarrow> i64 \<Rightarrow> i64 \<Rightarrow> i64 \<Rightarrow> i64" where
  "setting dflt lo bottom v =
     (let v = (if v = 0 then dflt else v) in if sint v < sint lo then bottom else v)"

definition usage :: "rat \<Rightarrow> rat \<Rightarrow> rat" where
  "usage dflt v = (let v = (if v = 0 then dflt else v) in if v < 0 then 0 else v)"

definition i64_div :: "i64 \<Rightarrow> i64 \<Rightarrow> i64" where
  "i64_div a b = of_int (sint a sdiv sint b)"

definition free_space :: "u64 \<Rightarrow> u64 \<Rightarrow> u64" where
  "free_space dflt v = (if v = 0 then dflt else v)"

definition PAGE_SIZE_MIN :: "template \<Rightarrow> i64" where "PAGE_SIZE_MIN T = 8 + tp_entrySize T"

text \<open>
  A page holds at least \<open>low\<close>, a value and a checksum interval; the sum is a machine sum.  The smallest
  allocation of a value is meant to fill a checksum interval when the entries of a page are full.
\<close>

definition page_size :: "template \<Rightarrow> i64 \<Rightarrow> i64 \<Rightarrow> i64" where
  "page_size T low v =
     (let v = (if sint v < sint low then low else v);
          v = (if sint v < sint (PAGE_SIZE_MIN T) then PAGE_SIZE_MIN T else v)
      in if 4294967294 < sint v then 4294967294 else v)"

definition min_alloc :: "template \<Rightarrow> i64 \<Rightarrow> i64 \<Rightarrow> i64" where
  "min_alloc T checksumInterval pageSize = i64_div checksumInterval (i64_div pageSize (tp_entrySize T) + 1) + 1"

section \<open>The resolution\<close>

text \<open>The settings of \<open>resolveValueStoreConfig\<close> in its order; one may depend on those before it.\<close>

definition resolve_sizes :: "template \<Rightarrow> host \<Rightarrow> StoreConfig \<Rightarrow> StoreConfig" where
  "resolve_sizes T h c =
     (let scale = (let v = env_float T h ''SCALE'' (cf_Scale c) in if v \<le> 0 \<or> 1 < v then 1 else v);
          path = (let v = env_string T h ''PATH'' (cf_Path c) in if v = [] then ''.'' else v);
          pathTOC = (let v = env_string T h ''PATH_TOC'' (cf_PathTOC c) in if v = [] then path else v);
          valueCap = (let v = setting 1048576 0 0 (env_int T h ''VALUE_CAP'' (cf_ValueCap c))
                      in if 1048576 < sint v then 1048576 else v);
          workers = setting (ho_scale h (ho_gomaxprocs h) 1 scale) 1 1 (env_int T h ''WORKERS'' (cf_Workers c));
          checksumInterval = setting 65532 32 32 (env_int T h ''CHECKSUM_INTERVAL'' (cf_ChecksumInterval c));
          pageSize = page_size T (valueCap + checksumInterval)
                       (let v = env_int T h ''PAGE_SIZE'' (cf_PageSize c) in if v = 0 then ho_scale h 4194304 1 scale else v);
          minValueAlloc = min_alloc T checksumInterval pageSize
      in c\<lparr>cf_Scale := scale, cf_Path := path, cf_PathTOC := pathTOC, cf_ValueCap := valueCap,
           cf_Workers := workers, cf_ChecksumInterval := checksumInterval, cf_PageSize := pageSize,
           cf_minValueAlloc := minValueAlloc\<rparr>)"

definition resolve_files :: "template \<Rightarrow> host \<Rightarrow> StoreConfig \<Rightarrow> StoreConfig" where
  "resolve_files T h c =
     (let writePagesPerWorker = setting (ho_scale h 3 1 (cf_Scale c)) 2 2
            (env_int T h ''WRITE_PAGES_PER_WORKER'' (cf_WritePagesPerWorker c));
          msgCap = setting (ho_scale h 16777216 1 (cf_Scale c)) 1024 1024 (env_int T h ''MSG_CAP'' (cf_MsgCap c));
          msgTimeout = setting 250 1 250 (env_int T h ''MSG_TIMEOUT'' (cf_MsgTimeout c));
          fileCap = (let v = setting 4294967295 (40 + cf_ValueCap c) (40 + cf_ValueCap c) (env_int T h ''FILE_CAP'' (cf_FileCap c))
                     in if 4294967295 < sint v then 4294967295 else v);
          fileReaders = setting (cf_Workers c) 1 1 (env_int T h ''FILE_READERS'' (cf_FileReaders c));
          recoveryBatchSize = setting (ho_scale h 1048576 1 (cf_Scale c)) 1 1
            (env_int T h ''RECOVERY_BATCH_SIZE'' (cf_RecoveryBatchSize c))
      in c\<lparr>cf_WritePagesPerWorker := writePagesPerWorker, cf_MsgCap := msgCap, cf_MsgTimeout := msgTimeout,
           cf_FileCap := fileCap, cf_FileReaders := fileReaders, cf_RecoveryBatchSize := recoveryBatchSize\<rparr>)"

definition resolve_tombstones :: "template \<Rightarrow> host \<Rightarrow> StoreConfig \<Rightarrow> StoreConfig" where
  "resolve_tombstones T h c =
     (let tombstoneDiscardInterval = setting 300 1 1
            (env_int T h ''TOMBSTONE_DISCARD_INTERVAL'' (cf_TombstoneDiscardInterval c));
          tombstoneDiscardBatchSize = setting (ho_scale h 1048576 1 (cf_Scale c)) 1 1
            (env_int T h ''TOMBSTONE_DISCARD_BATCH_SIZE'' (cf_TombstoneDiscardBatchSize c));
          tombstoneAge = setting 14400 0 0 (env_int T h ''TOMBSTONE_AGE'' (cf_TombstoneAge c));
          tombstoneDiscardWorkers = setting (cf_Workers c) 1 1
            (env_int T h ''TOMBSTONE_DISCARD_WORKERS'' (cf_TombstoneDiscardWorkers c))
      in c\<lparr>cf_TombstoneDiscardInterval := tombstoneDiscardInterval,
           cf_TombstoneDiscardBatchSize := tombstoneDiscardBatchSize, cf_TombstoneAge := tombstoneAge,
           cf_TombstoneDiscardWorkers := tombstoneDiscardWorkers\<rparr>)"

definition resolve_pull :: "template \<Rightarrow> host \<Rightarrow> StoreConfig \<Rightarrow> StoreConfig" where
  "resolve_pull T h c =
     (let replicationIgnoreRecent = setting 60 0 0 (env_int T h ''REPLICATION_IGNORE_RECENT'' (cf_ReplicationIgnoreRecent c));
          outPullReplicationInterval = setting 60 1 1
            (env_int T h ''OUT_PULL_REPLICATION_INTERVAL'' (cf_OutPullReplicationInterval c));
          outPullReplicationWorkers = setting (i64_div (cf_Workers c) 10) 1 1
            (env_int T h ''OUT_PULL_REPLICATION_WORKERS'' (cf_OutPullReplicationWorkers c));
          outPullReplicationMsgs = setting (ho_scale h outPullReplicationWorkers 4 (cf_Scale c)) 1 1
            (env_int T h ''OUT_PULL_REPLICATION_MSGS'' (cf_OutPullReplicationMsgs c));
          outPullReplicationBloomN = setting (ho_scale h 1000000 1 (cf_Scale c)) 1 1
            (env_int T h ''OUT_PULL_REPLICATION_BLOOM_N'' (cf_OutPullReplicationBloomN c));
          outPullReplicationBloomP = (let v = env_float T h ''OUT_PULL_REPLICATION_BLOOM_P'' (cf_OutPullReplicationBloomP c);
                                          v = (if v = 0 then 1 / 1000 else v) in if v < 1 / 1000000 then 1 / 1000000 else v);
          outPullReplicationMsgTimeout = setting (cf_MsgTimeout c) 1 250
            (env_int T h ''OUT_PULL_REPLICATION_MSG_TIMEOUT'' (cf_OutPullReplicationMsgTimeout c));
          inPullReplicationWorkers = setting (cf_Workers c) 1 1
            (env_int T h ''IN_PULL_REPLICATION_WORKERS'' (cf_InPullReplicationWorkers c));
          inPullReplicationMsgs = setting (ho_scale h inPullReplicationWorkers 4 (cf_Scale c)) 1 1
            (env_int T h ''IN_PULL_REPLICATION_MSGS'' (cf_InPullReplicationMsgs c));
          inPullReplicationResponseMsgTimeout = setting (cf_MsgTimeout c) 1 250
            (env_int T h ''IN_PULL_REPLICATION_RESPONSE_MSG_TIMEOUT'' (cf_InPullReplicationResponseMsgTimeout c))
      in c\<lparr>cf_ReplicationIgnoreRecent := replicationIgnoreRecent,
           cf_OutPullReplicationInterval := outPullReplicationInterval,
           cf_OutPullReplicationWorkers := outPullReplicationWorkers, cf_OutPullReplicationMsgs := outPullReplicationMsgs,
           cf_OutPullReplicationBloomN := outPullReplicationBloomN,
           cf_OutPullReplicationBloomP := outPullReplicationBloomP,
           cf_OutPullReplicationMsgTimeout := outPullReplicationMsgTimeout,
           cf_InPullReplicationWorkers := inPullReplicationWorkers, cf_InPullReplicationMsgs := inPullReplicationMsgs,
           cf_InPullReplicationResponseMsgTimeout := inPullReplicationResponseMsgTimeout\<rparr>)"

definition resolve_push :: "template \<Rightarrow> host \<Rightarrow> StoreConfig \<Rightarrow> StoreConfig" where
  "resolve_push T h c =
     (let pushReplicationInterval = setting 60 1 1 (env_int T h ''PUSH_REPLICATION_INTERVAL'' (cf_PushReplicationInterval c));
          pushReplicationWorkers = setting (i64_div (cf_Workers c) 10) 1 1
            (env_int T h ''PUSH_REPLICATION_WORKERS'' (cf_PushReplicationWorkers c));
          pushReplicationMsgTimeout = setting (cf_MsgTimeout c) 1 250
            (env_int T h ''PUSH_REPLICATION_MSG_TIMEOUT'' (cf_PushReplicationMsgTimeout c))
      in c\<lparr>cf_PushReplicationInterval := pushReplicationInterval,
           cf_PushReplicationWorkers := pushReplicationWorkers,
           cf_PushReplicationMsgTimeout := pushReplicationMsgTimeout\<rparr>)"

definition resolve_bulkSet :: "template \<Rightarrow> host \<Rightarrow> StoreConfig \<Rightarrow> StoreConfig" where
  "resolve_bulkSet T h c =
     (let bulkSetMsgCap = setting (cf_MsgCap c) 1 1 (env_int T h ''BULK_SET_MSG_CAP'' (cf_BulkSetMsgCap c));
          outBulkSetMsgs = setting (ho_scale h (cf_PushReplicationWorkers c) 4 (cf_Scale c)) 1 1
            (env_int T h ''OUT_BULK_SET_MSGS'' (cf_OutBulkSetMsgs c));
          inBulkSetWorkers = setting (cf_Workers c) 1 1 (env_int T h ''IN_BULK_SET_WORKERS'' (cf_InBulkSetWorkers c));
          inBulkSetMsgs = setting (ho_scale h inBulkSetWorkers 4 (cf_Scale c)) 1 1
            (env_int T h ''IN_BULK_SET_MSGS'' (cf_InBulkSetMsgs c));
          inBulkSetResponseMsgTimeout = setting (cf_MsgTimeout c) 1 250
            (env_int T h ''IN_BULK_SET_RESPONSE_MSG_TIMEOUT'' (cf_InBulkSetResponseMsgTimeout c));
          bulkSetAckMsgCap = setting (cf_MsgCap c) 1 1 (env_int T h ''OUT_BULK_SET_ACK_MSG_CAP'' (cf_BulkSetAckMsgCap c));
          inBulkSetAckWorkers = setting (cf_Workers c) 1 1 (env_int T h ''IN_BULK_SET_ACK_WORKERS'' (cf_InBulkSetAckWorkers c));
          inBulkSetAckMsgs = setting (ho_scale h inBulkSetAckWorkers 4 (cf_Scale c)) 1 1
            (env_int T h ''IN_BULK_SET_ACK_MSGS'' (cf_InBulkSetAckMsgs c));
          outBulkSetAckMsgs = setting (ho_scale h inBulkSetAckWorkers 4 (cf_Scale c)) 1 1
            (env_int T h ''OUT_BULK_SET_ACK_MSGS'' (cf_OutBulkSetAckMsgs c))
      in c\<lparr>cf_BulkSetMsgCap := bulkSetMsgCap, cf_OutBulkSetMsgs := outBulkSetMsgs,
           cf_InBulkSetWorkers := inBulkSetWorkers, cf_InBulkSetMsgs := inBulkSetMsgs,
           cf_InBulkSetResponseMsgTimeout := inBulkSetResponseMsgTimeout, cf_BulkSetAckMsgCap := bulkSetAckMsgCap,
           cf_InBulkSetAckWorkers := inBulkSetAckWorkers, cf_InBulkSetAckMsgs := inBulkSetAckMsgs,
           cf_OutBulkSetAckMsgs := outBulkSetAckMsgs\<rparr>)"

definition resolve_compaction :: "template \<Rightarrow> host \<Rightarrow> StoreConfig \<Rightarrow> StoreConfig" where
  "resolve_compaction T h c =
     (let compactionInterval = setting 600 1 1 (env_int T h ''COMPACTION_INTERVAL'' (cf_CompactionInterval c));
          compactionWorkers = setting (cf_Workers c) 1 1 (env_int T h ''COMPACTION_WORKERS'' (cf_CompactionWorkers c));
          compactionThreshold = (let v = env_float T h ''COMPACTION_THRESHOLD'' (cf_CompactionThreshold c);
                                     v = (if v = 0 then 1 / 10 else v) in if 1 \<le> v \<or> v \<le> 1 / 100 then 1 / 10 else v);
          compactionAgeThreshold = setting 300 1 1 (env_int T h ''COMPACTION_AGE_THRESHOLD'' (cf_CompactionAgeThreshold c))
      in c\<lparr>cf_CompactionInterval := compactionInterval, cf_CompactionWorkers := compactionWorkers,
           cf_CompactionThreshold := compactionThreshold, cf_CompactionAgeThreshold := compactionAgeThreshold\<rparr>)"

definition resolve_thresholds :: "template \<Rightarrow> host \<Rightarrow> StoreConfig \<Rightarrow> StoreConfig" where
  "resolve_thresholds T h c =
     (let diskFreeDisableThreshold = free_space 8589934592 (env_uint T h ''DISK_FREE_DISABLE_THRESHOLD'' (cf_DiskFreeDisableThreshold c));
          diskFreeReenableThreshold = free_space 17179869184 (env_uint T h ''DISK_FREE_REENABLE_THRESHOLD'' (cf_DiskFreeReenableThreshold c));
          diskUsageDisableThreshold = usage (94 / 100) (env_float T h ''DISK_USAGE_DISABLE_THRESHOLD'' (cf_DiskUsageDisableThreshold c));
          diskUsageReenableThreshold = usage (90 / 100) (env_float T h ''DISK_USAGE_REENABLE_THRESHOLD'' (cf_DiskUsageReenableThreshold c));
          flusherThreshold = (let v = ucast (env_int T h ''FLUSHER_THRESHOLD'' (scast (cf_FlusherThreshold c)));
                                  v = (if v = 0 then of_int (sint (ucast (cf_PageSize c) :: u32) sdiv sint (tp_entrySize T)) else v)
                              in if sint v < 0 then 0 else v);
          auditInterval = setting 604800 1 1 (env_int T h ''AUDIT_INTERVAL'' (cf_AuditInterval c));
          auditAgeThreshold = setting 604800 1 1 (env_int T h ''AUDIT_AGE_THRESHOLD'' (cf_AuditAgeThreshold c));
          memFreeDisableThreshold = free_space 134217728 (env_uint T h ''MEM_FREE_DISABLE_THRESHOLD'' (cf_MemFreeDisableThreshold c));
          memFreeReenableThreshold = free_space 268435456 (env_uint T h ''MEM_FREE_REENABLE_THRESHOLD'' (cf_MemFreeReenableThreshold c));
          memUsageDisableThreshold = usage (94 / 100) (env_float T h ''MEM_USAGE_DISABLE_THRESHOLD'' (cf_MemUsageDisableThreshold c));
          memUsageReenableThreshold = usage (90 / 100) (env_float T h ''MEM_USAGE_REENABLE_THRESHOLD'' (cf_MemUsageReenableThreshold c))
      in c\<lparr>cf_DiskFreeDisableThreshold := diskFreeDisableThreshold,
           cf_DiskFreeReenableThreshold := diskFreeReenableThreshold,
           cf_DiskUsageDisableThreshold := diskUsageDisableThreshold,
           cf_DiskUsageReenableThreshold := diskUsageReenableThreshold, cf_FlusherThreshold := flusherThreshold,
           cf_AuditInterval := auditInterval, cf_AuditAgeThreshold := auditAgeThreshold,
           cf_MemFreeDisableThreshold := memFreeDisableThreshold, cf_MemFreeReenableThreshold := memFreeReenableThreshold,
           cf_MemUsageDisableThreshold := memUsageDisableThreshold,
           cf_MemUsageReenableThreshold := memUsageReenableThreshold\<rparr>)"

definition resolveStoreConfig :: "template \<Rightarrow> host \<Rightarrow> StoreConfig option \<Rightarrow> StoreConfig" where
  "resolveStoreConfig T h given =
     (let c = (case given of None \<Rightarrow> config_zero | Some c \<Rightarrow> c);
          c = resolve_sizes T h c;
          c = resolve_files T h c;
          c = resolve_tombstones T h c;
          c = resolve_pull T h c;
          c = resolve_push T h c;
          c = resolve_bulkSet T h c;
          c = resolve_compaction T h c;
          c = resolve_thresholds T h c
      in c)"

definition resolveValueStoreConfig :: "host \<Rightarrow> StoreConfig option \<Rightarrow> StoreConfig" where
  "resolveValueStoreConfig = resolveStoreConfig ValueStore"

definition resolveGroupStoreConfig :: "host \<Rightarrow> StoreConfig option \<Rightarrow> StoreConfig" where
  "resolveGroupStoreConfig = resolveStoreConfig GroupStore"

text \<open>The parts of the resolution for a group store, one after the other.\<close>

definition group_resolve_sizes :: "host \<Rightarrow> StoreConfig \<Rightarrow> StoreConfig" where
  "group_resolve_sizes = resolve_sizes GroupStore"

definition group_resolve_files :: "host \<Rightarrow> StoreConfig \<Rightarrow> StoreConfig" where
  "group_resolve_files = resolve_files GroupStore"

definition group_resolve_tombstones :: "host \<Rightarrow> StoreConfig \<Rightarrow> StoreConfig" where
  "group_resolve_tombstones = resolve_tombstones GroupStore"

definition group_resolve_pull :: "host \<Rightarrow> StoreConfig \<Rightarrow> StoreConfig" where
  "group_resolve_pull = resolve_pull GroupStore"

definition group_resolve_push :: "host \<Rightarrow> StoreConfig \<Rightarrow> StoreConfig" where
  "group_resolve_push = resolve_push GroupStore"

definition group_resolve_bulkSet :: "host \<Rightarrow> StoreConfig \<Rightarrow> StoreConfig" where
  "group_resolve_bulkSet = resolve_bulkSet GroupStore"

definition group_resolve_compaction :: "host \<Rightarrow> StoreConfig \<Rightarrow> StoreConfig" where
  "group_resolve_compaction = resolve_compaction GroupStore"

definition group_resolve_thresholds :: "host \<Rightarrow> StoreConfig \<Rightarrow> StoreConfig" where
  "group_resolve_thresholds = resolve_thresholds GroupStore"

lemma resolveGroupStoreConfig_parts:
  "resolveGroupStoreConfig h given =
     (group_resolve_thresholds h \<circ> group_resolve_compaction h \<circ> group_resolve_bulkSet h \<circ> group_resolve_push h \<circ>
      group_resolve_pull h \<circ> group_resolve_tombstones h \<circ> group_resolve_files h \<circ> group_resolve_sizes h)
     (case given of None \<Rightarrow> config_zero | Some c \<Rightarrow> c)"
  by (simp add: resolveGroupStoreConfig_def resolveStoreConfig_def Let_def group_resolve_sizes_def group_resolve_files_def group_resolve_tombstones_def group_resolve_pull_def group_resolve_push_def group_resolve_bulkSet_def group_resolve_compaction_def group_resolve_thresholds_def)

section \<open>Bounds\<close>

lemma setting_ge: "k \<le> sint lo \<Longrightarrow> k \<le> sint bottom \<Longrightarrow> k \<le> sint (setting dflt lo bottom v)"
  by (auto simp: setting_def Let_def)

lemma usage_ge: "0 \<le> usage dflt v"
  by (simp add: usage_def Let_def)

lemma sint_of_int_i64: "- (2 ^ 63) \<le> k \<Longrightarrow> k < 2 ^ 63 \<Longrightarrow> sint (of_int k :: i64) = k"
  by (simp add: sint_sbintrunc' signed_take_bit_int_eq_self)

lemma i64_range: "- (2 ^ 63) \<le> sint (x :: i64)" "sint (x :: i64) < 2 ^ 63"
  using sint_greater_eq [of x] sint_less [of x] by simp_all

lemma sint_i64_div:
  assumes "0 \<le> sint a" "0 < sint b"
  shows "sint (i64_div a b) = sint a div sint b"
proof -
  have "sint a sdiv sint b = sint a div sint b" using assms by (simp add: signed_divide_int_def sgn_if)
  moreover have "0 \<le> sint a div sint b" using assms by (simp add: pos_imp_zdiv_nonneg_iff)
  moreover have "sint a div sint b \<le> sint a" using assms zdiv_mono2 [of "sint a" 1 "sint b"] by simp
  ultimately show ?thesis using i64_range(2) [of a] by (simp add: i64_div_def sint_of_int_i64)
qed

lemma sint_i64_add:
  assumes "- (2 ^ 63) \<le> sint (a :: i64) + sint b" "sint a + sint b < 2 ^ 63"
  shows "sint (a + b) = sint a + sint b"
proof -
  have "a + b = of_int (sint a + sint b)" by simp
  then show ?thesis using sint_of_int_i64 [OF assms] by simp
qed

text \<open>What the settings of each group are after the resolution.\<close>

definition sizes_bounded :: "template \<Rightarrow> StoreConfig \<Rightarrow> bool" where
  "sizes_bounded T c \<longleftrightarrow>
    0 < cf_Scale c \<and> cf_Scale c \<le> 1 \<and> cf_Path c \<noteq> [] \<and> cf_PathTOC c \<noteq> [] \<and>
    0 \<le> sint (cf_ValueCap c) \<and> sint (cf_ValueCap c) \<le> 2 ^ 20 \<and> 1 \<le> sint (cf_Workers c) \<and>
    32 \<le> sint (cf_ChecksumInterval c) \<and> 8 + sint (tp_entrySize T) \<le> sint (cf_PageSize c) \<and> sint (cf_PageSize c) < 2 ^ 32 - 1 \<and>
    cf_minValueAlloc c = min_alloc T (cf_ChecksumInterval c) (cf_PageSize c) \<and>
    cf_PageSize c = page_size T (cf_ValueCap c + cf_ChecksumInterval c) (cf_PageSize c)"

definition files_bounded :: "StoreConfig \<Rightarrow> bool" where
  "files_bounded c \<longleftrightarrow>
    2 \<le> sint (cf_WritePagesPerWorker c) \<and> 1024 \<le> sint (cf_MsgCap c) \<and> 1 \<le> sint (cf_MsgTimeout c) \<and>
    1 \<le> sint (cf_FileReaders c) \<and> 1 \<le> sint (cf_RecoveryBatchSize c) \<and>
    40 + sint (cf_ValueCap c) \<le> sint (cf_FileCap c) \<and> sint (cf_FileCap c) < 2 ^ 32"

definition tombstones_bounded :: "StoreConfig \<Rightarrow> bool" where
  "tombstones_bounded c \<longleftrightarrow>
    1 \<le> sint (cf_TombstoneDiscardInterval c) \<and> 1 \<le> sint (cf_TombstoneDiscardBatchSize c) \<and>
    1 \<le> sint (cf_TombstoneDiscardWorkers c) \<and> 0 \<le> sint (cf_TombstoneAge c)"

definition pull_bounded :: "StoreConfig \<Rightarrow> bool" where
  "pull_bounded c \<longleftrightarrow>
    0 \<le> sint (cf_ReplicationIgnoreRecent c) \<and> 1 \<le> sint (cf_OutPullReplicationInterval c) \<and>
    1 \<le> sint (cf_OutPullReplicationWorkers c) \<and> 1 \<le> sint (cf_OutPullReplicationMsgs c) \<and>
    1 \<le> sint (cf_OutPullReplicationBloomN c) \<and> 1 / 1000000 \<le> cf_OutPullReplicationBloomP c \<and>
    1 \<le> sint (cf_OutPullReplicationMsgTimeout c) \<and> 1 \<le> sint (cf_InPullReplicationWorkers c) \<and>
    1 \<le> sint (cf_InPullReplicationMsgs c) \<and> 1 \<le> sint (cf_InPullReplicationResponseMsgTimeout c)"

definition push_bounded :: "StoreConfig \<Rightarrow> bool" where
  "push_bounded c \<longleftrightarrow>
    1 \<le> sint (cf_PushReplicationInterval c) \<and> 1 \<le> sint (cf_PushReplicationWorkers c) \<and>
    1 \<le> sint (cf_PushReplicationMsgTimeout c)"

definition bulk_bounded :: "StoreConfig \<Rightarrow> bool" where
  "bulk_bounded c \<longleftrightarrow>
    1 \<le> sint (cf_BulkSetMsgCap c) \<and> 1 \<le> sint (cf_OutBulkSetMsgs c) \<and>
    1 \<le> sint (cf_InBulkSetWorkers c) \<and> 1 \<le> sint (cf_InBulkSetMsgs c) \<and>
    1 \<le> sint (cf_InBulkSetResponseMsgTimeout c) \<and> 1 \<le> sint (cf_BulkSetAckMsgCap c) \<and>
    1 \<le> sint (cf_InBulkSetAckWorkers c) \<and> 1 \<le> sint (cf_InBulkSetAckMsgs c) \<and>
    1 \<le> sint (cf_OutBulkSetAckMsgs c)"

definition compaction_bounded :: "StoreConfig \<Rightarrow> bool" where
  "compaction_bounded c \<longleftrightarrow>
    1 \<le> sint (cf_CompactionInterval c) \<and> 1 \<le> sint (cf_CompactionWorkers c) \<and>
    1 \<le> sint (cf_CompactionAgeThreshold c) \<and> 1 / 100 < cf_CompactionThreshold c \<and> cf_CompactionThreshold c < 1"

definition thresholds_bounded :: "StoreConfig \<Rightarrow> bool" where
  "thresholds_bounded c \<longleftrightarrow>
    cf_DiskFreeDisableThreshold c \<noteq> 0 \<and> cf_DiskFreeReenableThreshold c \<noteq> 0 \<and>
    cf_MemFreeDisableThreshold c \<noteq> 0 \<and> cf_MemFreeReenableThreshold c \<noteq> 0 \<and>
    0 \<le> cf_DiskUsageDisableThreshold c \<and> 0 \<le> cf_DiskUsageReenableThreshold c \<and>
    0 \<le> cf_MemUsageDisableThreshold c \<and> 0 \<le> cf_MemUsageReenableThreshold c \<and>
    0 \<le> sint (cf_FlusherThreshold c) \<and> 1 \<le> sint (cf_AuditInterval c) \<and> 1 \<le> sint (cf_AuditAgeThreshold c)"

lemmas bounded_defs = sizes_bounded_def files_bounded_def tombstones_bounded_def pull_bounded_def push_bounded_def bulk_bounded_def
  compaction_bounded_def thresholds_bounded_def

text \<open>A group leaves the groups before it alone.\<close>

lemma resolve_files_frame [simp]:
  "sizes_bounded T (resolve_files T h c) \<longleftrightarrow> sizes_bounded T c"
  by (simp_all add: bounded_defs resolve_files_def Let_def)

lemma resolve_tombstones_frame [simp]:
  "sizes_bounded T (resolve_tombstones T h c) \<longleftrightarrow> sizes_bounded T c" "files_bounded (resolve_tombstones T h c) \<longleftrightarrow> files_bounded c"
  by (simp_all add: bounded_defs resolve_tombstones_def Let_def)

lemma resolve_pull_frame [simp]:
  "sizes_bounded T (resolve_pull T h c) \<longleftrightarrow> sizes_bounded T c" "files_bounded (resolve_pull T h c) \<longleftrightarrow> files_bounded c"
  "tombstones_bounded (resolve_pull T h c) \<longleftrightarrow> tombstones_bounded c"
  by (simp_all add: bounded_defs resolve_pull_def Let_def)

lemma resolve_push_frame [simp]:
  "sizes_bounded T (resolve_push T h c) \<longleftrightarrow> sizes_bounded T c" "files_bounded (resolve_push T h c) \<longleftrightarrow> files_bounded c"
  "tombstones_bounded (resolve_push T h c) \<longleftrightarrow> tombstones_bounded c" "pull_bounded (resolve_push T h c) \<longleftrightarrow> pull_bounded c"
  by (simp_all add: bounded_defs resolve_push_def Let_def)

lemma resolve_bulkSet_frame [simp]:
  "sizes_bounded T (resolve_bulkSet T h c) \<longleftrightarrow> sizes_bounded T c" "files_bounded (resolve_bulkSet T h c) \<longleftrightarrow> files_bounded c"
  "tombstones_bounded (resolve_bulkSet T h c) \<longleftrightarrow> tombstones_bounded c" "pull_bounded (resolve_bulkSet T h c) \<longleftrightarrow> pull_bounded c"
  "push_bounded (resolve_bulkSet T h c) \<longleftrightarrow> push_bounded c"
  by (simp_all add: bounded_defs resolve_bulkSet_def Let_def)

lemma resolve_compaction_frame [simp]:
  "sizes_bounded T (resolve_compaction T h c) \<longleftrightarrow> sizes_bounded T c" "files_bounded (resolve_compaction T h c) \<longleftrightarrow> files_bounded c"
  "tombstones_bounded (resolve_compaction T h c) \<longleftrightarrow> tombstones_bounded c" "pull_bounded (resolve_compaction T h c) \<longleftrightarrow> pull_bounded c"
  "push_bounded (resolve_compaction T h c) \<longleftrightarrow> push_bounded c" "bulk_bounded (resolve_compaction T h c) \<longleftrightarrow> bulk_bounded c"
  by (simp_all add: bounded_defs resolve_compaction_def Let_def)

lemma resolve_thresholds_frame [simp]:
  "sizes_bounded T (resolve_thresholds T h c) \<longleftrightarrow> sizes_bounded T c" "files_bounded (resolve_thresholds T h c) \<longleftrightarrow> files_bounded c"
  "tombstones_bounded (resolve_thresholds T h c) \<longleftrightarrow> tombstones_bounded c" "pull_bounded (resolve_thresholds T h c) \<longleftrightarrow> pull_bounded c"
  "push_bounded (resolve_thresholds T h c) \<longleftrightarrow> push_bounded c" "bulk_bounded (resolve_thresholds T h c) \<longleftrightarrow> bulk_bounded c"
  "compaction_bounded (resolve_thresholds T h c) \<longleftrightarrow> compaction_bounded c"
  by (simp_all add: bounded_defs resolve_thresholds_def Let_def)

lemma template_sizes:
  "sint (PAGE_SIZE_MIN T) = 8 + sint (tp_entrySize T)" "32 \<le> sint (tp_entrySize T)" "sint (tp_entrySize T) \<le> 48"
  by (cases T; simp add: PAGE_SIZE_MIN_def)+

lemma page_size_bounds:
  "8 + sint (tp_entrySize T) \<le> sint (page_size T low v)" "sint (page_size T low v) < 4294967295"
  using template_sizes [of T] by (auto simp: page_size_def Let_def)

lemma page_size_idem: "page_size T low (page_size T low v) = page_size T low v"
  using template_sizes [of T] by (auto simp: page_size_def Let_def)

lemma page_size_low:
  "sint (page_size T low v) < 2 ^ 32 - 2 \<Longrightarrow> sint low \<le> sint (page_size T low v)"
  using template_sizes [of T] by (auto simp: page_size_def Let_def split: if_splits)

lemma sizes_resolved:
  "sizes_bounded T (resolve_sizes T h c)"
proof -
  have cap: "0 \<le> sint (setting 1048576 0 0 v)" "0 \<le> sint (setting 65532 32 32 w) - 32" "1 \<le> sint (setting d 1 1 u)" for u v w d
    using setting_ge [of 0 0 0 1048576 v] setting_ge [of 32 32 32 65532 w] setting_ge [of 1 1 1 d u] by simp_all
  then show ?thesis
    by (simp add: sizes_bounded_def resolve_sizes_def Let_def page_size_bounds page_size_idem env_string_def)
qed

lemma files_resolved: "sizes_bounded T c \<Longrightarrow> files_bounded (resolve_files T h c)"
  by (auto simp: files_bounded_def sizes_bounded_def resolve_files_def Let_def setting_ge sint_i64_add setting_def)

lemma tombstones_resolved: "tombstones_bounded (resolve_tombstones T h c)"
  by (simp add: tombstones_bounded_def resolve_tombstones_def Let_def setting_ge)

lemma pull_resolved: "pull_bounded (resolve_pull T h c)"
  by (simp add: pull_bounded_def resolve_pull_def Let_def setting_ge)

lemma push_resolved: "push_bounded (resolve_push T h c)"
  by (simp add: push_bounded_def resolve_push_def Let_def setting_ge)

lemma bulk_resolved: "bulk_bounded (resolve_bulkSet T h c)"
  by (simp add: bulk_bounded_def resolve_bulkSet_def Let_def setting_ge)

lemma compaction_resolved: "compaction_bounded (resolve_compaction T h c)"
  by (simp add: compaction_bounded_def resolve_compaction_def Let_def setting_ge)

lemma thresholds_resolved: "thresholds_bounded (resolve_thresholds T h c)"
  by (simp add: thresholds_bounded_def resolve_thresholds_def Let_def setting_ge usage_ge free_space_def)

definition bounded :: "template \<Rightarrow> StoreConfig \<Rightarrow> bool" where
  "bounded T c \<longleftrightarrow> sizes_bounded T c \<and> files_bounded c \<and> tombstones_bounded c \<and> pull_bounded c \<and> push_bounded c \<and>
     bulk_bounded c \<and> compaction_bounded c \<and> thresholds_bounded c"

lemma resolved_bounded: "bounded T (resolveStoreConfig T h given)"
  by (simp add: bounded_def resolveStoreConfig_def Let_def sizes_resolved files_resolved tombstones_resolved
      pull_resolved push_resolved bulk_resolved compaction_resolved thresholds_resolved)


section \<open>Examples\<close>

text \<open>A host with an empty environment and four processors that computes products exactly.\<close>

definition host_example :: host where
  "host_example = \<lparr>ho_getenv = \<lambda>_. [], ho_gomaxprocs = 4, ho_parseFloat = \<lambda>_. None,
     ho_scale = \<lambda>n k f. of_int \<lfloor>of_int (sint n * sint k) * f\<rfloor>\<rparr>"

lemma config_default:
  "let c = resolveValueStoreConfig host_example None in
     cf_Workers c = 4 \<and> cf_PageSize c = 4194304 \<and> cf_minValueAlloc c = 1 \<and> cf_FlusherThreshold c = 131072 \<and>
     cf_OutPullReplicationMsgs c = 4 \<and> cf_InBulkSetMsgs c = 16 \<and> cf_FileCap c = 4294967295"
  by code_simp

text \<open>
  With small pages a full page of TOC entries has less values than a checksum interval, which
  \<open>minValueAlloc\<close> is there to prevent: 2047 entries of 32 bytes against 65532.
\<close>

lemma full_toc_page_short:
  "let c = resolveValueStoreConfig host_example (Some (config_zero\<lparr>cf_ValueCap := 1, cf_PageSize := 1\<rparr>)) in
     sint (cf_PageSize c) div 32 * sint (cf_minValueAlloc c) < sint (cf_ChecksumInterval c)"
  by code_simp

end
