(* ===== verification/Lifecycle.thy ===== *)
theory Lifecycle
  imports Config FileAudit Recovery Tombstone Watcher PullReplication PushReplication StoreTheorems
begin

unbundle bit_operations_syntax

text \<open>
  The life of a node (\<open>NewValueStore\<close>, \<open>NewGroupStore\<close>, \<open>Startup\<close> and \<open>Shutdown\<close> in
  \<open>src/valuestore_GEN_.go\<close> and \<open>src/groupstore_GEN_.go\<close>): the store with its
  background jobs, made from a configuration, started by recovering its directory and starting the jobs,
  and shut down.  The directory of the process, the location map and the ring are parameters.
\<close>

section \<open>A node\<close>

text \<open>What the store keeps of the configuration, at the widths of its fields.\<close>

definition store_cfg_of :: "'b layout \<Rightarrow> StoreConfig \<Rightarrow> 'b store_cfg" where
  "store_cfg_of Y c =
     \<lparr>c_layout = Y, c_workers = nat (sint (cf_Workers c)), c_recoveryBatchSize = nat (sint (cf_RecoveryBatchSize c)),
      c_valueCap = ucast (cf_ValueCap c), c_pageSize = ucast (cf_PageSize c), c_minValueAlloc = nat (sint (cf_minValueAlloc c)),
      c_writePagesPerWorker = nat (sint (cf_WritePagesPerWorker c)), c_fileCap = ucast (cf_FileCap c),
      c_fileReaders = nat (sint (cf_FileReaders c)), c_checksumInterval = ucast (cf_ChecksumInterval c),
      c_replicationIgnoreRecent = push_bit TSB_UTIL_BITS (cf_ReplicationIgnoreRecent c * 1000000000 div 1000)\<rparr>"

record ('m, 'b) node =
  nd_cfg :: "'b store_cfg"
  nd_store :: "'m valueStore"
  nd_audit :: valueAuditState
  nd_bulkSet :: valueBulkSetState
  nd_bulkSetAck :: valueBulkSetAckState
  nd_compaction :: valueCompactionState
  nd_watcher :: valueWatcherState
  nd_flusher :: valueFlusherState
  nd_pull :: valuePullReplicationState
  nd_push :: valuePushReplicationState
  nd_tombstone :: valueTombstoneDiscardState

text \<open>A store of which nothing is made yet but the location map.\<close>

definition store_nil :: "'m \<Rightarrow> 'm valueStore" where
  "store_nil lm = \<lparr>st_running = 0, st_locmap = lm, st_locBlocks = (\<lambda>_. None), st_locBlockIDer = 0,
     st_freeMemBlockChan = [], st_fileMemBlockChan = [], st_freeableMemBlockChans = [], st_freeTOCBlocks = 0,
     st_pendingTOCBlockChan = [], st_activeTOCA = 0, st_activeTOCB = 0, st_flushed = 0, st_shutdown = 0,
     st_readOnly = False, st_userDisabled = False, st_memWriters = [], st_memClearers = [],
     st_fileWriter = \<lparr>fw_fl = None, fw_flushLeft = 0, fw_shutdownLeft = 0, fw_tocLen = 0, fw_valueLen = 0,
       fw_disabled = None, fw_index = 0, fw_running = False\<rparr>,
     st_tocWriter = \<lparr>tw_flushLeft = 0, tw_shutdownLeft = 0, tw_writerA = None, tw_offsetA = 0, tw_writerB = None,
       tw_offsetB = 0, tw_disabled = False, tw_running = False\<rparr>,
     st_tocFiles = (\<lambda>_. None), st_counters = no_counts, st_restarts = []\<rparr>"

text \<open>
  The floating point and random values a node uses: the product of a number of entries and a ratio, the
  bits of a \<open>float64\<close>, the first iteration of pull replication.
\<close>

record host_values =
  hv_share :: "rat \<Rightarrow> u32 \<Rightarrow> u32"
  hv_bits :: "rat \<Rightarrow> u64"
  hv_random :: u32

definition node_bulkSet :: "StoreConfig \<Rightarrow> valueBulkSetState" where
  "node_bulkSet c =
     bulkSetConfig (nat (sint (cf_BulkSetMsgCap c))) (nat (sint (cf_InBulkSetWorkers c)))
       (nat (sint (cf_InBulkSetResponseMsgTimeout c))) (nat (sint (cf_InBulkSetMsgs c))) (nat (sint (cf_OutBulkSetMsgs c)))"

definition node_bulkSetAck :: "StoreConfig \<Rightarrow> valueBulkSetAckState" where
  "node_bulkSetAck c =
     bulkSetAckConfig (nat (sint (cf_BulkSetAckMsgCap c))) (nat (sint (cf_InBulkSetAckWorkers c)))
       (nat (sint (cf_InBulkSetAckMsgs c))) (nat (sint (cf_OutBulkSetAckMsgs c)))"

definition node_compaction :: "host_values \<Rightarrow> StoreConfig \<Rightarrow> valueCompactionState" where
  "node_compaction hv c =
     compactionConfig (nat (sint (cf_CompactionInterval c))) (hv_share hv (cf_CompactionThreshold c))
       (nat (sint (cf_CompactionAgeThreshold c))) (nat (sint (cf_CompactionWorkers c)))"

definition node_watcher :: "StoreConfig \<Rightarrow> valueWatcherState" where
  "node_watcher c =
     watcherConfig \<lparr>wc_diskFreeDisable = cf_DiskFreeDisableThreshold c, wc_diskFreeReenable = cf_DiskFreeReenableThreshold c,
       wc_diskUsageDisable = cf_DiskUsageDisableThreshold c, wc_diskUsageReenable = cf_DiskUsageReenableThreshold c,
       wc_memFreeDisable = cf_MemFreeDisableThreshold c, wc_memFreeReenable = cf_MemFreeReenableThreshold c,
       wc_memUsageDisable = cf_MemUsageDisableThreshold c, wc_memUsageReenable = cf_MemUsageReenableThreshold c\<rparr>"

definition node_pull :: "host_values \<Rightarrow> StoreConfig \<Rightarrow> valuePullReplicationState" where
  "node_pull hv c =
     pullReplicationConfig \<lparr>pc_inWorkers = nat (sint (cf_InPullReplicationWorkers c)), pc_inMsgs = nat (sint (cf_InPullReplicationMsgs c)),
       pc_inResponseMsgTimeout = nat (sint (cf_InPullReplicationResponseMsgTimeout c)),
       pc_outInterval = nat (sint (cf_OutPullReplicationInterval c)), pc_outWorkers = nat (sint (cf_OutPullReplicationWorkers c)),
       pc_outMsgs = nat (sint (cf_OutPullReplicationMsgs c)), pc_outMsgTimeout = nat (sint (cf_OutPullReplicationMsgTimeout c)),
       pc_outBloomN = nat (sint (cf_OutPullReplicationBloomN c)), pc_outBloomP = hv_bits hv (cf_OutPullReplicationBloomP c)\<rparr>
       (hv_random hv)"

definition node_push :: "StoreConfig \<Rightarrow> valuePushReplicationState" where
  "node_push c =
     pushReplicationConfig (nat (sint (cf_PushReplicationInterval c))) (nat (sint (cf_PushReplicationWorkers c)))
       (nat (sint (cf_PushReplicationMsgTimeout c)))"

definition node_tombstone :: "StoreConfig \<Rightarrow> valueTombstoneDiscardState" where
  "node_tombstone c =
     tombstoneDiscardConfig (nat (sint (cf_TombstoneDiscardInterval c))) (nat (sint (cf_TombstoneAge c)))
       (nat (sint (cf_TombstoneDiscardBatchSize c))) (nat (sint (cf_TombstoneDiscardWorkers c)))"

text \<open>A store of a layout; what makes the two stores that are generated.\<close>

definition NewStore :: "'b layout \<Rightarrow> host \<Rightarrow> host_values \<Rightarrow> 'm \<Rightarrow> StoreConfig option \<Rightarrow> ('m, 'b) node" where
  "NewStore Y h hv lm given =
     (let c = resolveStoreConfig (ly_template Y) h given
      in \<lparr>nd_cfg = store_cfg_of Y c, nd_store = store_nil lm,
          nd_audit = auditConfig (nat (sint (cf_AuditInterval c))) (nat (sint (cf_AuditAgeThreshold c))),
          nd_bulkSet = node_bulkSet c, nd_bulkSetAck = node_bulkSetAck c, nd_compaction = node_compaction hv c,
          nd_watcher = node_watcher c, nd_flusher = flusherConfig (cf_FlusherThreshold c), nd_pull = node_pull hv c,
          nd_push = node_push c, nd_tombstone = node_tombstone c\<rparr>)"

definition NewValueStore :: "host \<Rightarrow> host_values \<Rightarrow> 'm \<Rightarrow> StoreConfig option \<Rightarrow> ('m, u64) node" where
  "NewValueStore = NewStore value_layout"

definition NewGroupStore :: "host \<Rightarrow> host_values \<Rightarrow> 'm \<Rightarrow> StoreConfig option \<Rightarrow> ('m, group_rest) node" where
  "NewGroupStore = NewStore group_layout"

section \<open>Startup\<close>

text \<open>The jobs are started by goroutines of their own, each with its own state.\<close>

definition start_jobs :: "bloom_dims \<Rightarrow> ('m, 'b) node \<Rightarrow> ('m, 'b) node" where
  "start_jobs dims nd =
     nd\<lparr>nd_audit := auditStartup (nd_audit nd), nd_bulkSet := bulkSetStartup (nd_bulkSet nd),
        nd_bulkSetAck := bulkSetAckStartup (nd_bulkSetAck nd), nd_compaction := compactionStartup (nd_compaction nd),
        nd_watcher := watcherStartup (nd_watcher nd), nd_flusher := flusherStartup (nd_flusher nd),
        nd_pull := pullReplicationStartup dims (nd_pull nd), nd_push := pushReplicationStartup (nd_push nd),
        nd_tombstone := tombstoneDiscardStartup (nd_tombstone nd)\<rparr>"

definition set_running :: "nat \<Rightarrow> ('m, 'b) node \<Rightarrow> ('m, 'b) node" where
  "set_running r nd = nd\<lparr>nd_store := (nd_store nd)\<lparr>st_running := r\<rparr>\<rparr>"

definition startup_error :: go_error where
  "startup_error = ErrOther (''can'' @ [CHR 0x27] @ ''t Startup due to previous Startup error'')"

text \<open>
  The result has the error, what was done to files and the node.  After an error the node cannot be
  started any more.
\<close>

definition Startup ::
  "('m, 'b) locmap_ops \<Rightarrow> checksummed_read \<Rightarrow> (bytes \<Rightarrow> u32) \<Rightarrow> bloom_dims \<Rightarrow> dir_env \<Rightarrow> ('m, 'b) recovery_env \<Rightarrow> ('m, 'b) node \<Rightarrow>
   (go_error option \<times> file_op list \<times> ('m, 'b) node) outcome" where
  "Startup L rd sum32 dims env renv nd =
     (if st_running (nd_store nd) = 1 then Done (None, [], nd)
      else if st_running (nd_store nd) = 2 then Done (Some (startup_error), [], nd)
      else bind_outcome (startup_store (nd_cfg nd) (nd_store nd)) (\<lambda>(err, s1). case err of
             Some e \<Rightarrow> Done (Some e, [], set_running 2 (nd\<lparr>nd_store := s1\<rparr>))
           | None \<Rightarrow>
               bind_outcome (recovery L rd sum32 (nd_cfg nd) env renv (nd_compaction nd, s1)) (\<lambda>(err, ops, st, s2). case err of
                 Some e \<Rightarrow> Done (Some e, ops, set_running 2 (nd\<lparr>nd_compaction := st, nd_store := s2\<rparr>))
               | None \<Rightarrow>
                   bind_outcome (EnableWrites L (nd_cfg nd) s2) (\<lambda>s3.
                     Done (None, ops, set_running 1 (start_jobs dims (nd\<lparr>nd_compaction := st, nd_store := s3\<rparr>)))))))"

section \<open>Shutdown\<close>

text \<open>
  First every job is told to end, on new channels named \<open>ch\<close>, and its answer awaited; incoming pull
  replication ends before outgoing pull replication is told.  A node that does not run is left alone.
\<close>

definition Shutdown_notify :: "nat \<Rightarrow> ('m, 'b) node \<Rightarrow> ('m, 'b) node" where
  "Shutdown_notify ch nd =
     (if st_running (nd_store nd) \<noteq> 1 then nd
      else nd\<lparr>nd_audit := auditShutdown_notify ch (nd_audit nd), nd_bulkSet := bulkSetShutdown_notify (nd_bulkSet nd),
        nd_bulkSetAck := bulkSetAckShutdown_notify (nd_bulkSetAck nd), nd_compaction := compactionShutdown_notify ch (nd_compaction nd),
        nd_watcher := watcherShutdown_notify ch (nd_watcher nd), nd_flusher := flusherShutdown_notify ch (nd_flusher nd),
        nd_pull := inPullReplicationShutdown_notify (nd_pull nd), nd_push := pushReplicationShutdown_notify ch (nd_push nd),
        nd_tombstone := tombstoneDiscardShutdown_notify ch (nd_tombstone nd)\<rparr>)"

definition Shutdown_notify_pull :: "nat \<Rightarrow> ('m, 'b) node \<Rightarrow> ('m, 'b) node outcome" where
  "Shutdown_notify_pull ch nd =
     (if st_running (nd_store nd) \<noteq> 1 then Done nd
      else bind_outcome (inPullReplicationShutdown_done (nd_pull nd)) (\<lambda>pull.
        Done (nd\<lparr>nd_pull := outPullReplicationShutdown_notify ch pull\<rparr>)))"

definition Shutdown_wait :: "nat \<Rightarrow> ('m, 'b) node \<Rightarrow> ('m, 'b) node outcome" where
  "Shutdown_wait ch nd =
     (if st_running (nd_store nd) \<noteq> 1 then Done nd
      else
        bind_outcome (auditShutdown_done ch (nd_audit nd)) (\<lambda>audit.
        bind_outcome (bulkSetShutdown_done (nd_bulkSet nd)) (\<lambda>bulkSet.
        bind_outcome (bulkSetAckShutdown_done (nd_bulkSetAck nd)) (\<lambda>bulkSetAck.
        bind_outcome (compactionShutdown_done ch (nd_compaction nd)) (\<lambda>compaction.
        bind_outcome (watcherShutdown_done ch (nd_watcher nd)) (\<lambda>watcher.
        bind_outcome (flusherShutdown_done ch (nd_flusher nd)) (\<lambda>flusher.
        bind_outcome (outPullReplicationShutdown_done ch (nd_pull nd)) (\<lambda>pull.
        bind_outcome (pushReplicationShutdown_done ch (nd_push nd)) (\<lambda>push.
        bind_outcome (tombstoneDiscardShutdown_done ch (nd_tombstone nd)) (\<lambda>tombstone.
          Done (nd\<lparr>nd_audit := audit, nd_bulkSet := bulkSet, nd_bulkSetAck := bulkSetAck, nd_compaction := compaction,
            nd_watcher := watcher, nd_flusher := flusher, nd_pull := pull, nd_push := push,
            nd_tombstone := tombstone\<rparr>)))))))))))"

text \<open>Then writes are disabled and the goroutines of the store end one after the other.\<close>

definition Shutdown_send :: "('m, 'b) locmap_ops \<Rightarrow> ('m, 'b) node \<Rightarrow> ('m, 'b) node outcome" where
  "Shutdown_send L nd =
     (if st_running (nd_store nd) \<noteq> 1 then Done nd
      else bind_outcome (DisableWrites L (nd_cfg nd) (nd_store nd)) (\<lambda>s1.
           bind_outcome (broadcast_all L (nd_cfg nd) ShutdownReq s1) (\<lambda>s2. Done (nd\<lparr>nd_store := s2\<rparr>))))"

definition store_clear :: "('m, 'b) locmap_ops \<Rightarrow> 'm valueStore \<Rightarrow> 'm valueStore" where
  "store_clear L s =
     s\<lparr>st_running := 0, st_locmap := lm_Clear L (st_locmap s), st_locBlocks := (\<lambda>_. None), st_freeMemBlockChan := [],
       st_fileMemBlockChan := [], st_freeableMemBlockChans := [], st_freeTOCBlocks := 0, st_pendingTOCBlockChan := [],
       st_flushed := 0, st_shutdown := 0, st_memWriters := [], st_memClearers := []\<rparr>"

definition Shutdown_finish :: "('m, 'b) locmap_ops \<Rightarrow> ('m, 'b) node \<Rightarrow> ('m, 'b) node outcome" where
  "Shutdown_finish L nd =
     (if st_running (nd_store nd) \<noteq> 1 then Done nd
      else if 0 < st_shutdown (nd_store nd) then Done (nd\<lparr>nd_store := store_clear L (nd_store nd)\<rparr>)
      else Blocked)"

section \<open>Closing a block\<close>

text \<open>
  Closing a file ends its writing and closes its readers; the first error is returned, and every reader is
  closed.  \<open>writing\<close> is the result of \<open>closeWriting\<close>, \<open>readers\<close> those of closing the readers.
\<close>

definition valueStoreFile_close :: "go_error option \<Rightarrow> go_error option list \<Rightarrow> go_error option" where
  "valueStoreFile_close writing readers = foldl (\<lambda>reterr err. if reterr = None then err else reterr) writing readers"

definition closeLocBlock :: "go_error option \<Rightarrow> go_error option list \<Rightarrow> u32 \<Rightarrow> 'm valueStore \<Rightarrow> go_error option outcome" where
  "closeLocBlock writing readers i s =
     bind_outcome (locBlock i s) (\<lambda>blk. case blk of
       None \<Rightarrow> Panic
     | Some (MemBlock _) \<Rightarrow> Done None
     | Some (FileBlock _) \<Rightarrow> Done (valueStoreFile_close writing readers))"

definition ValueCap :: "('m, 'b) node \<Rightarrow> u32 \<times> go_error option" where
  "ValueCap nd = (c_valueCap (nd_cfg nd), None)"

section \<open>Configurations the store can run with\<close>

lemma unat_ucast_i64:
  assumes "0 \<le> sint (x :: i64)" "sint x < 2 ^ 32"
  shows "unat (ucast x :: u32) = nat (sint x)"
proof -
  have "uint x = take_bit 64 (sint x)" using uint_sint [of x] by simp
  then have "uint (ucast x :: u32) = take_bit 32 (sint x)" by (simp add: unsigned_ucast_eq)
  then show ?thesis using assms by (simp add: take_bit_eq_mod unat_eq_nat_uint)
qed

definition page_ok :: "'b store_cfg \<Rightarrow> bool" where
  "page_ok cfg \<longleftrightarrow> unat (c_valueCap cfg) \<le> unat (c_pageSize cfg) \<and> c_minValueAlloc cfg \<le> unat (c_pageSize cfg) \<and>
     32 \<le> unat (c_pageSize cfg) \<and> unat (c_valueCap cfg) + 40 \<le> unat (c_fileCap cfg)"



section \<open>Starting a node\<close>

text \<open>A node that is not running and has no entries: one just made or just shut down.\<close>

definition idle :: "('m, 'b) locmap_ops \<Rightarrow> ('m, 'b) node \<Rightarrow> bool" where
  "idle L nd \<longleftrightarrow> st_running (nd_store nd) = 0 \<and> (\<forall>a b. lm_Get L (st_locmap (nd_store nd)) a b = loc_none) \<and>
     cp_free (nd_compaction nd) = [] \<and> cp_stuck (nd_compaction nd) = 0"

lemma NewStore_idle: "\<forall>a b. lm_Get L lm a b = loc_none \<Longrightarrow> idle L (NewStore Y h hv lm given)"
  by (simp add: idle_def NewStore_def store_nil_def node_compaction_def compactionConfig_def Let_def)

lemma NewStore_workers: "0 < c_workers (nd_cfg (NewStore Y h hv lm given))"
proof -
  have "1 \<le> sint (cf_Workers (resolveStoreConfig (ly_template Y) h given))"
    using resolved_bounded [of "ly_template Y" h given] by (simp add: bounded_def sizes_bounded_def)
  then show ?thesis by (simp add: NewStore_def store_cfg_of_def Let_def)
qed

lemma addLocBlock_room:
  assumes "unat (st_locBlockIDer s) + 1 < MaxUint16"
  shows "\<exists>i s'. addLocBlock blk s = Done ((i, None), s') \<and> st_locmap s' = st_locmap s \<and> st_memWriters s' = st_memWriters s \<and>
    unat (st_locBlockIDer s') = unat (st_locBlockIDer s) + 1"
proof -
  let ?i = "st_locBlockIDer s + 1"
  have i: "unat ?i = unat (st_locBlockIDer s) + 1" "unat ?i < 65535"
    using assms by (auto simp: MaxUint16_def unat_word_ariths(1))
  have "unat (ucast MaxUint32 :: u64) = 4294967295"
    by (simp add: MaxUint32_def unsigned_ucast_eq unsigned_minus_1_eq_mask mask_eq_exp_minus_1)
  then have "\<not> ucast MaxUint32 \<le> ?i" using i(2) by (simp add: word_le_nat_alt)
  then show ?thesis using i by (auto simp: addLocBlock_def set_locBlock_def Let_def MaxUint16_def)
qed

lemma startup_blocks_done:
  "unat (st_locBlockIDer s) + k < MaxUint16 \<Longrightarrow>
   \<exists>s'. startup_blocks k s = Done (None, s') \<and> st_locmap s' = st_locmap s \<and> st_memWriters s' = st_memWriters s \<and>
     unat (st_locBlockIDer s') = unat (st_locBlockIDer s) + k"
proof (induction k arbitrary: s)
  case (Suc k)
  have "unat (st_locBlockIDer s) + 1 < MaxUint16" using Suc.prems by simp
  from addLocBlock_room [OF this, of "\<lambda>i. MemBlock \<lparr>mb_id = i, mb_fileID = 0, mb_fileOffset = 0, mb_toc = [], mb_values = []\<rparr>"]
  obtain i s1 where s1: "addLocBlock (\<lambda>i. MemBlock \<lparr>mb_id = i, mb_fileID = 0, mb_fileOffset = 0, mb_toc = [], mb_values = []\<rparr>) s =
      Done ((i, None), s1)" "st_locmap s1 = st_locmap s" "st_memWriters s1 = st_memWriters s"
    "unat (st_locBlockIDer s1) = unat (st_locBlockIDer s) + 1" by blast
  from Suc.IH [of "s1\<lparr>st_freeMemBlockChan := st_freeMemBlockChan s1 @ [i]\<rparr>"] Suc.prems s1 show ?case by auto
qed simp

text \<open>The blocks of memory and the files fit in the table of blocks.\<close>

definition room_for :: "'b store_cfg \<Rightarrow> string list \<Rightarrow> bool" where
  "room_for cfg names \<longleftrightarrow> c_workers cfg * c_writePagesPerWorker cfg + length names < MaxUint16"

lemma startup_store_done:
  assumes "room_for cfg names"
  shows "\<exists>s'. startup_store cfg s = Done (None, s') \<and> st_locmap s' = st_locmap s \<and> length (st_memWriters s') = c_workers cfg \<and>
    (\<forall>mw \<in> set (st_memWriters s'). mw_running mw) \<and> unat (st_locBlockIDer s') + length names < MaxUint16"
proof -
  have "unat (st_locBlockIDer (startup_reset cfg s)) + c_workers cfg * c_writePagesPerWorker cfg < MaxUint16"
    using assms by (simp add: startup_reset_def room_for_def)
  from startup_blocks_done [OF this] show ?thesis
    using assms by (auto simp: startup_store_def startup_reset_def room_for_def)
qed

lemma Shutdown_finish_idle:
  assumes "locmap_contract L" "Shutdown_finish L nd = Done nd'" "st_running (nd_store nd) \<noteq> 2"
    "cp_free (nd_compaction nd) = []" "cp_stuck (nd_compaction nd) = 0"
    "st_running (nd_store nd) = 0 \<longrightarrow> idle L nd" "st_running (nd_store nd) \<le> 2"
  shows "idle L nd'"
  using assms locmap_contract.Clear_get [OF assms(1)]
  by (auto simp: Shutdown_finish_def idle_def store_clear_def split: if_splits)

lemma Shutdown_wait_compaction:
  "Shutdown_wait ch nd = Done nd' \<Longrightarrow> st_running (nd_store nd) = 1 \<Longrightarrow> cp_free (nd_compaction nd') = [] \<and> cp_stuck (nd_compaction nd') = 0"
  by (auto simp: Shutdown_wait_def compactionShutdown_done_def elim!: bind_outcome_DoneE split: option.splits if_splits)

lemma Startup_restored:
  assumes Y: "key_layout (c_layout (nd_cfg nd))" and C: "locmap_contract L" and rd: "checksummed_reader sum32 rd"
    and idle: "idle L nd" and w: "0 < c_workers (nd_cfg nd)"
    and dir: "de_readdirnames env = Inl names" "\<forall>name \<in> set names. good_file (c_layout (nd_cfg nd)) sum32 env renv files name"
    and arr: "arranges (re_arrange renv)" and room: "room_for (nd_cfg nd) names"
  obtains nd' where "Startup L rd sum32 dims env renv nd = Done (None, [], nd')"
    "st_running (nd_store nd') = 1" "\<not> st_readOnly (nd_store nd')"
    "length (st_memWriters (nd_store nd')) = c_workers (nd_cfg nd)"
    "\<forall>mw \<in> set (st_memWriters (nd_store nd')). mw_running mw \<and> mw_enabled mw"
    "\<And>a b name t off len buf. newest_entry (c_layout (nd_cfg nd)) files names a b name t off len \<Longrightarrow>
       store_read L rd (nd_cfg nd) a b buf (nd_store nd') = Done (if t AND TSB_DELETION \<noteq> 0 then (t, buf, Some ErrNotFound)
         else (t, buf @ take (unat len) (drop (unat off) (values_of (c_layout (nd_cfg nd)) (files name))), None))"
    "\<And>a b. \<forall>name t off len. \<not> stored (c_layout (nd_cfg nd)) files names name (a, b, t, off, len) \<Longrightarrow>
       lm_Get L (st_locmap (nd_store nd')) a b = loc_none"
proof -
  obtain s1 where s1: "startup_store (nd_cfg nd) (nd_store nd) = Done (None, s1)" "st_locmap s1 = st_locmap (nd_store nd)"
    "length (st_memWriters s1) = c_workers (nd_cfg nd)" "\<forall>mw \<in> set (st_memWriters s1). mw_running mw"
    "unat (st_locBlockIDer s1) + length names < MaxUint16"
    using startup_store_done [OF room, of "nd_store nd"] by blast
  have empty: "\<forall>a b. lm_Get L (st_locmap s1) a b = loc_none" using idle s1(2) by (simp add: idle_def)
  from recovery_restored [OF Y C rd dir arr w s1(5) empty, of "nd_compaction nd"] obtain s2 where
    s2: "recovery L rd sum32 (nd_cfg nd) env renv (nd_compaction nd, s1) = Done (None, [], nd_compaction nd, s2)"
      "st_memWriters s2 = st_memWriters s1"
    and read: "\<And>a b name t off len buf. newest_entry (c_layout (nd_cfg nd)) files names a b name t off len \<Longrightarrow>
       store_read L rd (nd_cfg nd) a b buf s2 = Done (if t AND TSB_DELETION \<noteq> 0 then (t, buf, Some ErrNotFound)
         else (t, buf @ take (unat len) (drop (unat off) (values_of (c_layout (nd_cfg nd)) (files name))), None))"
    and none: "\<And>a b. \<forall>name t off len. \<not> stored (c_layout (nd_cfg nd)) files names name (a, b, t, off, len) \<Longrightarrow>
       lm_Get L (st_locmap s2) a b = loc_none" by blast
  let ?s = "switched True (s2\<lparr>st_readOnly := False, st_userDisabled := False\<rparr>)"
  let ?nd = "set_running 1 (start_jobs dims (nd\<lparr>nd_compaction := nd_compaction nd, nd_store := ?s\<rparr>))"
  have run: "Startup L rd sum32 dims env renv nd = Done (None, [], ?nd)"
    using idle s1(1) s2(1) by (simp add: Startup_def idle_def EnableWrites_def enableWrites_def enable_all)
  have store: "nd_store ?nd = ?s\<lparr>st_running := 1\<rparr>" by (simp add: set_running_def start_jobs_def)
  have same: "store_read L rd (nd_cfg nd) a b buf (nd_store ?nd) = store_read L rd (nd_cfg nd) a b buf s2" for a b buf
    unfolding store by (rule store_read_cong) (simp_all add: switched_def)
  show thesis
  proof (rule that [OF run])
    show "\<forall>mw \<in> set (st_memWriters (nd_store ?nd)). mw_running mw \<and> mw_enabled mw"
      "length (st_memWriters (nd_store ?nd)) = c_workers (nd_cfg nd)"
      unfolding store using s1(3,4) s2(2) by (auto simp: switched_def)
    show "st_running (nd_store ?nd) = 1" "\<not> st_readOnly (nd_store ?nd)" unfolding store by (simp_all add: switched_def)
    show "\<forall>name t off len. \<not> stored (c_layout (nd_cfg nd)) files names name (a, b, t, off, len) \<Longrightarrow>
       lm_Get L (st_locmap (nd_store ?nd)) a b = loc_none" for a b
      unfolding store using none by (simp add: switched_def)
    show "store_read L rd (nd_cfg nd) a b buf (nd_store ?nd) = Done (if t AND TSB_DELETION \<noteq> 0 then (t, buf, Some ErrNotFound)
         else (t, buf @ take (unat len) (drop (unat off) (values_of (c_layout (nd_cfg nd)) (files name))), None))"
      if "newest_entry (c_layout (nd_cfg nd)) files names a b name t off len" for a b name t off len buf
      unfolding same by (rule read [OF that])
  qed
qed



section \<open>An example\<close>

definition node_example :: "(u64 alm, u64) node" where
  "node_example = NewValueStore host_example \<lparr>hv_share = \<lambda>_ _. 0, hv_bits = \<lambda>_. 0, hv_random = 0\<rparr> [] None"

lemma node_example_cfg: "c_layout (nd_cfg node_example) = value_layout" "c_workers (nd_cfg node_example) = 4" "c_writePagesPerWorker (nd_cfg node_example) = 3"
proof -
  have "cf_Workers (resolveValueStoreConfig host_example None) = 4"
    "cf_WritePagesPerWorker (resolveValueStoreConfig host_example None) = 3" by code_simp+
  then show "c_layout (nd_cfg node_example) = value_layout" "c_workers (nd_cfg node_example) = 4" "c_writePagesPerWorker (nd_cfg node_example) = 3"
    by (simp_all add: node_example_def NewValueStore_def NewStore_def resolveValueStoreConfig_def store_cfg_of_def Let_def)
qed

lemma node_example_idle: "idle alm_ops node_example"
  unfolding node_example_def NewValueStore_def by (rule NewStore_idle) (simp add: alm_ops_def alm_Get_def)



end
