(* ===== verification/Names.thy ===== *)
theory Names
  imports Compaction
begin

unbundle bit_operations_syntax

text \<open>
  The names of the files of a store: a file of values and its TOC file carry the timestamp of the file in
  decimal, the one padded to 19 digits (\<open>src/valuestorefile_GEN_.go\<close>, \<open>src/groupstorefile_GEN_.go\<close>), the other not
  (\<open>src/valuestore_GEN_.go\<close>, \<open>src/groupstore_GEN_.go\<close>); recovery, compaction and audit read it back from the name of the TOC file.
\<close>

section \<open>Decimal numbers\<close>

text \<open>\<open>%d\<close> of a number, and \<open>%019d\<close>, which pads with zeros after the sign.\<close>

fun show_nat :: "nat \<Rightarrow> string" where
  "show_nat n = (if n < 10 then [char_of (48 + n)] else show_nat (n div 10) @ [char_of (48 + n mod 10)])"

declare show_nat.simps [simp del]

definition show_int :: "int \<Rightarrow> string" where
  "show_int i = (if i < 0 then CHR ''-'' # show_nat (nat (- i)) else show_nat (nat i))"

definition show_padded :: "nat \<Rightarrow> int \<Rightarrow> string" where
  "show_padded w i =
     (let ds = show_nat (nat \<bar>i\<bar>); sign = (if i < 0 then [CHR ''-''] else [])
      in sign @ replicate (w - length sign - length ds) (CHR ''0'') @ ds)"

definition value_file_name :: "template \<Rightarrow> i64 \<Rightarrow> string" where
  "value_file_name T ts = show_padded 19 (sint ts) @ ''.'' @ tp_t T"

definition toc_file_name :: "template \<Rightarrow> u64 \<Rightarrow> string" where
  "toc_file_name T ts = show_int (uint ts) @ ''.'' @ tp_t T @ ''toc''"

section \<open>Printing and parsing\<close>

lemma digit_of_char: "d < 10 \<Longrightarrow> digit_of (char_of (48 + d :: nat)) = Some (int d)"
  using of_nat_of_char [of "char_of (48 + d :: nat)", where ?'a = int] by (simp add: digit_of_def of_char_of)

lemma digits_value_append:
  "digits_value acc (xs @ ys) = (case digits_value acc xs of None \<Rightarrow> None | Some n \<Rightarrow> digits_value n ys)"
  by (induction acc xs rule: digits_value.induct) (auto split: option.splits)

lemma show_nat_ne [simp]: "show_nat n \<noteq> []"
  by (subst show_nat.simps) simp

lemma digits_value_show: "digits_value acc (show_nat n) = Some (acc * 10 ^ length (show_nat n) + int n)"
proof (induction n rule: show_nat.induct)
  case (1 n)
  show ?case
  proof (cases "n < 10")
    case True
    then show ?thesis by (subst (1 2) show_nat.simps) (simp add: digit_of_char)
  next
    case False
    have "int n = 10 * int (n div 10) + int (n mod 10)" by (simp add: zdiv_int zmod_int)
    then show ?thesis
      using False 1 by (subst (1 2) show_nat.simps) (simp add: digits_value_append digit_of_char algebra_simps)
  qed
qed

lemma show_nat_first: "hd (show_nat n) \<noteq> CHR ''-''" "hd (show_nat n) \<noteq> CHR ''+''"
proof -
  have "\<exists>d < 10. hd (show_nat n) = char_of (48 + d :: nat)"
  proof (induction n rule: show_nat.induct)
    case (1 n)
    then show ?case by (subst show_nat.simps) auto
  qed
  then obtain d where d: "d < 10" "hd (show_nat n) = char_of (48 + d :: nat)" by blast
  then have "of_char (hd (show_nat n)) = 48 + d" by (simp add: of_char_of)
  then show "hd (show_nat n) \<noteq> CHR ''-''" "hd (show_nat n) \<noteq> CHR ''+''" by auto
qed

lemma ParseInt_show:
  assumes "- (2 ^ 63) \<le> i" "i < 2 ^ 63"
  shows "ParseInt (show_int i) = Some (of_int i)"
proof (cases "i < 0")
  case True
  then have "digits_value 0 (show_nat (nat (- i))) = Some (- i)" by (simp add: digits_value_show)
  then show ?thesis using True assms by (simp add: ParseInt_def show_int_def)
next
  case False
  then have "digits_value 0 (show_nat (nat i)) = Some i" by (simp add: digits_value_show)
  then show ?thesis
    using False assms show_nat_first [of "nat i"] by (simp add: ParseInt_def show_int_def)
qed

lemma has_suffix_append [simp]: "has_suffix suf (s @ suf)"
  by (simp add: has_suffix_def)

lemma length_show_nat: "10 ^ k \<le> n \<Longrightarrow> k < length (show_nat n)"
proof (induction k arbitrary: n)
  case (Suc k)
  have "10 ^ k \<le> n div 10" using Suc.prems by (simp add: less_eq_div_iff_mult_less_eq)
  moreover have "1 \<le> (10 :: nat) ^ k" by simp
  ultimately have "10 ^ k \<le> n div 10" "\<not> n < 10" by linarith+
  then show ?case using Suc.IH by (subst show_nat.simps) simp
qed simp

section \<open>Properties\<close>

text \<open>
  C32. The name under which the TOC file of a timestamp is created gives that timestamp back when recovery,
  compaction or audit parses it, for every timestamp that is positive as an \<open>int64\<close>.
\<close>

theorem toc_name_roundtrip:
  assumes "0 < sint (ts :: u64)"
  shows "toc_name T (toc_file_name T ts) = Some ts"
proof -
  have "uint ts = take_bit 64 (sint ts)" using uint_sint [of ts] by simp
  also have "\<dots> = sint ts" using assms sint_less [of ts] by (simp add: take_bit_eq_mod)
  finally have "uint ts < 2 ^ 63" using sint_less [of ts] by simp
  then have "ParseInt (show_int (uint ts)) = Some ts" by (subst ParseInt_show) (simp_all add: order_trans [of _ 0])
  moreover have "ts \<noteq> 0" using assms by auto
  moreover have name: "toc_file_name T ts = show_int (uint ts) @ toc_suffix T" by (simp add: toc_file_name_def toc_suffix_def)
  ultimately show ?thesis
    by (simp add: toc_name_def name)
qed

theorem toc_name_roundtrip_witness: "toc_name GroupStore (toc_file_name GroupStore 1500000000000000000) = Some 1500000000000000000"
  by (rule toc_name_roundtrip) code_simp

text \<open>
  Compaction derives the name of the file of values from the name of the TOC file by dropping three
  letters.  That is the file of the same timestamp when the timestamp has 19 digits, as those between 2001
  and 2262 have; for shorter ones it is not.
\<close>

theorem value_name_same:
  assumes "10 ^ 18 \<le> sint (ts :: i64)"
  shows "value_name (toc_file_name T ts) = value_file_name T ts"
proof -
  have "uint ts = take_bit 64 (sint ts)" using uint_sint [of ts] by simp
  then have same: "uint ts = sint ts" using assms sint_less [of ts] by (simp add: take_bit_eq_mod)
  have "10 ^ 18 \<le> nat (sint ts)" using assms by simp
  from length_show_nat [OF this] have "19 - length (show_nat (nat (sint ts))) = 0" by simp
  then show ?thesis
    using assms by (simp add: value_name_def toc_file_name_def value_file_name_def show_int_def show_padded_def same)
qed

theorem value_name_same_witness: "value_name (toc_file_name GroupStore 1500000000000000000) = value_file_name GroupStore 1500000000000000000"
  by (rule value_name_same) code_simp

text \<open>With a shorter timestamp the names differ.\<close>

lemma value_name_differs: "value_name (toc_file_name ValueStore 5) = ''5.value''" "value_file_name ValueStore 5 = ''0000000000000000005.value''"
  by code_simp+

end
