(* ===== verification/Stats.thy ===== *)
theory Stats
  imports Names Watcher Tombstone
begin

unbundle bit_operations_syntax

text \<open>
  Statistics (\<open>src/valuestats_GEN_.go\<close>, \<open>src/groupstats_GEN_.go\<close>): \<open>Stats\<close> takes the counters of the store and subtracts what it took,
  so that the next call reports what happened since; \<open>String\<close> prints them.  Other goroutines may count
  between the loads and the subtractions.  The lengths of the passes in nanoseconds are kept.  Of the
  debug fields the two that are computed are modelled; the others copy lengths and settings.
\<close>

section \<open>Taking the counters\<close>

record ValueStoreStats =
  sv_Values :: u64
  sv_ValueBytes :: u64
  sv_Lookups :: u32
  sv_LookupErrors :: u32
  sv_Reads :: u32
  sv_ReadErrors :: u32
  sv_Writes :: u32
  sv_WriteErrors :: u32
  sv_WritesOverridden :: u32
  sv_Deletes :: u32
  sv_DeleteErrors :: u32
  sv_DeletesOverridden :: u32
  sv_OutBulkSets :: u32
  sv_OutBulkSetValues :: u32
  sv_OutBulkSetPushes :: u32
  sv_OutBulkSetPushValues :: u32
  sv_OutPushReplicationNanoseconds :: i64
  sv_InBulkSets :: u32
  sv_InBulkSetDrops :: u32
  sv_InBulkSetInvalids :: u32
  sv_InBulkSetWrites :: u32
  sv_InBulkSetWriteErrors :: u32
  sv_InBulkSetWritesOverridden :: u32
  sv_OutBulkSetAcks :: u32
  sv_InBulkSetAcks :: u32
  sv_InBulkSetAckDrops :: u32
  sv_InBulkSetAckInvalids :: u32
  sv_InBulkSetAckWrites :: u32
  sv_InBulkSetAckWriteErrors :: u32
  sv_InBulkSetAckWritesOverridden :: u32
  sv_OutPullReplications :: u32
  sv_OutPullReplicationNanoseconds :: i64
  sv_InPullReplications :: u32
  sv_InPullReplicationDrops :: u32
  sv_InPullReplicationInvalids :: u32
  sv_ExpiredDeletions :: u32
  sv_TombstoneDiscardNanoseconds :: i64
  sv_CompactionNanoseconds :: i64
  sv_Compactions :: u32
  sv_SmallFileCompactions :: u32
  sv_DiskFree :: u64
  sv_DiskUsed :: u64
  sv_DiskSize :: u64
  sv_DiskFreeTOC :: u64
  sv_DiskUsedTOC :: u64
  sv_DiskSizeTOC :: u64
  sv_MemFree :: u64
  sv_MemUsed :: u64
  sv_MemSize :: u64
  sv_ReadOnly :: bool
  sv_AuditNanoseconds :: i64

text \<open>The loads; what the location map counts is added at the end.\<close>

definition stats_load :: "valueWatcherState \<Rightarrow> 'm valueStore \<Rightarrow> ValueStoreStats" where
  "stats_load w s =
     (let c = st_counters s in
      \<lparr>sv_Values = 0, sv_ValueBytes = 0, sv_Lookups = ct_lookups c, sv_LookupErrors = ct_lookupErrors c,
       sv_Reads = ct_reads c, sv_ReadErrors = ct_readErrors c, sv_Writes = ct_writes c, sv_WriteErrors = ct_writeErrors c,
       sv_WritesOverridden = ct_writesOverridden c, sv_Deletes = ct_deletes c, sv_DeleteErrors = ct_deleteErrors c,
       sv_DeletesOverridden = ct_deletesOverridden c, sv_OutBulkSets = ct_outBulkSets c,
       sv_OutBulkSetValues = ct_outBulkSetValues c, sv_OutBulkSetPushes = ct_outBulkSetPushes c,
       sv_OutBulkSetPushValues = ct_outBulkSetPushValues c,
       sv_OutPushReplicationNanoseconds = ct_outPushReplicationNanoseconds c, sv_InBulkSets = ct_inBulkSets c,
       sv_InBulkSetDrops = ct_inBulkSetDrops c, sv_InBulkSetInvalids = ct_inBulkSetInvalids c,
       sv_InBulkSetWrites = ct_inBulkSetWrites c, sv_InBulkSetWriteErrors = ct_inBulkSetWriteErrors c,
       sv_InBulkSetWritesOverridden = ct_inBulkSetWritesOverridden c, sv_OutBulkSetAcks = ct_outBulkSetAcks c,
       sv_InBulkSetAcks = ct_inBulkSetAcks c, sv_InBulkSetAckDrops = ct_inBulkSetAckDrops c,
       sv_InBulkSetAckInvalids = ct_inBulkSetAckInvalids c, sv_InBulkSetAckWrites = ct_inBulkSetAckWrites c,
       sv_InBulkSetAckWriteErrors = ct_inBulkSetAckWriteErrors c,
       sv_InBulkSetAckWritesOverridden = ct_inBulkSetAckWritesOverridden c,
       sv_OutPullReplications = ct_outPullReplications c,
       sv_OutPullReplicationNanoseconds = ct_outPullReplicationNanoseconds c,
       sv_InPullReplications = ct_inPullReplications c, sv_InPullReplicationDrops = ct_inPullReplicationDrops c,
       sv_InPullReplicationInvalids = ct_inPullReplicationInvalids c, sv_ExpiredDeletions = ct_expiredDeletions c,
       sv_TombstoneDiscardNanoseconds = ct_tombstoneDiscardNanoseconds c,
       sv_CompactionNanoseconds = ct_compactionNanoseconds c, sv_Compactions = ct_compactions c,
       sv_SmallFileCompactions = ct_smallFileCompactions c, sv_DiskFree = fst (wt_disk w),
       sv_DiskUsed = fst (snd (wt_disk w)), sv_DiskSize = snd (snd (wt_disk w)), sv_DiskFreeTOC = fst (wt_diskTOC w),
       sv_DiskUsedTOC = fst (snd (wt_diskTOC w)), sv_DiskSizeTOC = snd (snd (wt_diskTOC w)), sv_MemFree = fst (wt_mem w),
       sv_MemUsed = fst (snd (wt_mem w)), sv_MemSize = snd (snd (wt_mem w)), sv_ReadOnly = st_readOnly s,
       sv_AuditNanoseconds = ct_auditNanoseconds c\<rparr>)"

definition stats_reset :: "ValueStoreStats \<Rightarrow> valueCounters \<Rightarrow> valueCounters" where
  "stats_reset st c =
     c\<lparr>ct_lookups := ct_lookups c - sv_Lookups st, ct_lookupErrors := ct_lookupErrors c - sv_LookupErrors st,
       ct_reads := ct_reads c - sv_Reads st, ct_readErrors := ct_readErrors c - sv_ReadErrors st,
       ct_writes := ct_writes c - sv_Writes st, ct_writeErrors := ct_writeErrors c - sv_WriteErrors st,
       ct_writesOverridden := ct_writesOverridden c - sv_WritesOverridden st, ct_deletes := ct_deletes c - sv_Deletes st,
       ct_deleteErrors := ct_deleteErrors c - sv_DeleteErrors st,
       ct_deletesOverridden := ct_deletesOverridden c - sv_DeletesOverridden st,
       ct_outBulkSets := ct_outBulkSets c - sv_OutBulkSets st,
       ct_outBulkSetValues := ct_outBulkSetValues c - sv_OutBulkSetValues st,
       ct_outBulkSetPushes := ct_outBulkSetPushes c - sv_OutBulkSetPushes st,
       ct_outBulkSetPushValues := ct_outBulkSetPushValues c - sv_OutBulkSetPushValues st,
       ct_inBulkSets := ct_inBulkSets c - sv_InBulkSets st, ct_inBulkSetDrops := ct_inBulkSetDrops c - sv_InBulkSetDrops st,
       ct_inBulkSetInvalids := ct_inBulkSetInvalids c - sv_InBulkSetInvalids st,
       ct_inBulkSetWrites := ct_inBulkSetWrites c - sv_InBulkSetWrites st,
       ct_inBulkSetWriteErrors := ct_inBulkSetWriteErrors c - sv_InBulkSetWriteErrors st,
       ct_inBulkSetWritesOverridden := ct_inBulkSetWritesOverridden c - sv_InBulkSetWritesOverridden st,
       ct_outBulkSetAcks := ct_outBulkSetAcks c - sv_OutBulkSetAcks st,
       ct_inBulkSetAcks := ct_inBulkSetAcks c - sv_InBulkSetAcks st,
       ct_inBulkSetAckDrops := ct_inBulkSetAckDrops c - sv_InBulkSetAckDrops st,
       ct_inBulkSetAckInvalids := ct_inBulkSetAckInvalids c - sv_InBulkSetAckInvalids st,
       ct_inBulkSetAckWrites := ct_inBulkSetAckWrites c - sv_InBulkSetAckWrites st,
       ct_inBulkSetAckWriteErrors := ct_inBulkSetAckWriteErrors c - sv_InBulkSetAckWriteErrors st,
       ct_inBulkSetAckWritesOverridden := ct_inBulkSetAckWritesOverridden c - sv_InBulkSetAckWritesOverridden st,
       ct_outPullReplications := ct_outPullReplications c - sv_OutPullReplications st,
       ct_inPullReplications := ct_inPullReplications c - sv_InPullReplications st,
       ct_inPullReplicationDrops := ct_inPullReplicationDrops c - sv_InPullReplicationDrops st,
       ct_inPullReplicationInvalids := ct_inPullReplicationInvalids c - sv_InPullReplicationInvalids st,
       ct_expiredDeletions := ct_expiredDeletions c - sv_ExpiredDeletions st,
       ct_compactions := ct_compactions c - sv_Compactions st,
       ct_smallFileCompactions := ct_smallFileCompactions c - sv_SmallFileCompactions st\<rparr>"

text \<open>
  The call: \<open>others\<close> is what the other goroutines did to the counters between loading and subtracting,
  \<open>active\<close> the numbers of values and bytes the location map gives.
\<close>

definition Stats :: "('m \<Rightarrow> u64 \<times> u64) \<Rightarrow> (valueCounters \<Rightarrow> valueCounters) \<Rightarrow> valueWatcherState \<Rightarrow> 'm valueStore \<Rightarrow>
    ValueStoreStats \<times> 'm valueStore" where
  "Stats active others w s =
     (let st = stats_load w s; s' = tally (stats_reset st) (tally others s)
      in (st\<lparr>sv_Values := fst (active (st_locmap s')), sv_ValueBytes := snd (active (st_locmap s'))\<rparr>, s'))"

definition debug_tombstoneAge :: "valueTombstoneDiscardState \<Rightarrow> i64" where
  "debug_tombstoneAge st = drop_bit TSB_UTIL_BITS (td_age st) * 1000 div 1000000000"

definition debug_replicationIgnoreRecent :: "'b store_cfg \<Rightarrow> i64" where
  "debug_replicationIgnoreRecent cfg = c_replicationIgnoreRecent cfg div 1000000000"

section \<open>Printing\<close>

text \<open>The lines of the report; \<open>brimtext.Align\<close> lays them out.\<close>

definition stats_rows :: "ValueStoreStats \<Rightarrow> (string \<times> string) list" where
  "stats_rows st =
     [(''Values'', show_int (uint (sv_Values st))), (''ValueBytes'', show_int (uint (sv_ValueBytes st))),
      (''Lookups'', show_int (sint (sv_Lookups st))), (''LookupErrors'', show_int (sint (sv_LookupErrors st))),
      (''Reads'', show_int (sint (sv_Reads st))), (''ReadErrors'', show_int (sint (sv_ReadErrors st))),
      (''Writes'', show_int (sint (sv_Writes st))), (''WriteErrors'', show_int (sint (sv_WriteErrors st))),
      (''WritesOverridden'', show_int (sint (sv_WritesOverridden st))), (''Deletes'', show_int (sint (sv_Deletes st))),
      (''DeleteErrors'', show_int (sint (sv_DeleteErrors st))),
      (''DeletesOverridden'', show_int (sint (sv_DeletesOverridden st))),
      (''OutBulkSets'', show_int (sint (sv_OutBulkSets st))),
      (''OutBulkSetValues'', show_int (sint (sv_OutBulkSetValues st))),
      (''OutBulkSetPushes'', show_int (sint (sv_OutBulkSetPushes st))),
      (''OutBulkSetPushValues'', show_int (sint (sv_OutBulkSetPushValues st))),
      (''OutPushReplicationNanoseconds'', show_int (sint (sv_OutPushReplicationNanoseconds st))),
      (''InBulkSets'', show_int (sint (sv_InBulkSets st))), (''InBulkSetDrops'', show_int (sint (sv_InBulkSetDrops st))),
      (''InBulkSetInvalids'', show_int (sint (sv_InBulkSetInvalids st))),
      (''InBulkSetWrites'', show_int (sint (sv_InBulkSetWrites st))),
      (''InBulkSetWriteErrors'', show_int (sint (sv_InBulkSetWriteErrors st))),
      (''InBulkSetWritesOverridden'', show_int (sint (sv_InBulkSetWritesOverridden st))),
      (''OutBulkSetAcks'', show_int (sint (sv_OutBulkSetAcks st))),
      (''InBulkSetAcks'', show_int (sint (sv_InBulkSetAcks st))),
      (''InBulkSetAckDrops'', show_int (sint (sv_InBulkSetAckDrops st))),
      (''InBulkSetAckInvalids'', show_int (sint (sv_InBulkSetAckInvalids st))),
      (''InBulkSetAckWrites'', show_int (sint (sv_InBulkSetAckWrites st))),
      (''InBulkSetAckWriteErrors'', show_int (sint (sv_InBulkSetAckWriteErrors st))),
      (''InBulkSetAckWritesOverridden'', show_int (sint (sv_InBulkSetAckWritesOverridden st))),
      (''OutPullReplications'', show_int (sint (sv_OutPullReplications st))),
      (''OutPullReplicationNanoseconds'', show_int (sint (sv_OutPullReplicationNanoseconds st))),
      (''InPullReplications'', show_int (sint (sv_InPullReplications st))),
      (''InPullReplicationDrops'', show_int (sint (sv_InPullReplicationDrops st))),
      (''InPullReplicationInvalids'', show_int (sint (sv_InPullReplicationInvalids st))),
      (''ExpiredDeletions'', show_int (sint (sv_ExpiredDeletions st))),
      (''TombstoneDiscardNanoseconds'', show_int (sint (sv_TombstoneDiscardNanoseconds st))),
      (''CompactionNanoseconds'', show_int (sint (sv_CompactionNanoseconds st))),
      (''Compactions'', show_int (sint (sv_Compactions st))),
      (''SmallFileCompactions'', show_int (sint (sv_SmallFileCompactions st))),
      (''DiskFree'', show_int (uint (sv_DiskFree st))), (''DiskUsed'', show_int (uint (sv_DiskUsed st))),
      (''DiskSize'', show_int (uint (sv_DiskSize st))), (''DiskFreeTOC'', show_int (uint (sv_DiskFreeTOC st))),
      (''DiskUsedTOC'', show_int (uint (sv_DiskUsedTOC st))), (''DiskSizeTOC'', show_int (uint (sv_DiskSizeTOC st))),
      (''MemFree'', show_int (uint (sv_MemFree st))), (''MemUsed'', show_int (uint (sv_MemUsed st))),
      (''MemSize'', show_int (uint (sv_MemSize st))), (''AuditNanoseconds'', show_int (sint (sv_AuditNanoseconds st)))]"

section \<open>The statistics of a group store\<close>

text \<open>A group store counts its group operations besides.\<close>

record GroupStoreStats = ValueStoreStats +
  sv_LookupGroups :: u32
  sv_LookupGroupItems :: u32
  sv_LookupGroupErrors :: u32
  sv_ReadGroups :: u32
  sv_ReadGroupItems :: u32
  sv_ReadGroupErrors :: u32

definition group_stats_load :: "valueWatcherState \<Rightarrow> 'm valueStore \<Rightarrow> GroupStoreStats" where
  "group_stats_load w s =
     (let c = st_counters s in
      ValueStoreStats.extend (stats_load w s)
        (GroupStoreStats.fields (ct_lookupGroups c) (ct_lookupGroupItems c) (ct_lookupGroupErrors c)
           (ct_readGroups c) (ct_readGroupItems c) (ct_readGroupErrors c)))"

definition group_stats_reset :: "GroupStoreStats \<Rightarrow> valueCounters \<Rightarrow> valueCounters" where
  "group_stats_reset st c =
     (stats_reset (ValueStoreStats.truncate st) c)
       \<lparr>ct_lookupGroups := ct_lookupGroups c - sv_LookupGroups st,
        ct_lookupGroupItems := ct_lookupGroupItems c - sv_LookupGroupItems st,
        ct_lookupGroupErrors := ct_lookupGroupErrors c - sv_LookupGroupErrors st,
        ct_readGroups := ct_readGroups c - sv_ReadGroups st,
        ct_readGroupItems := ct_readGroupItems c - sv_ReadGroupItems st,
        ct_readGroupErrors := ct_readGroupErrors c - sv_ReadGroupErrors st\<rparr>"

definition GroupStats :: "('m \<Rightarrow> u64 \<times> u64) \<Rightarrow> (valueCounters \<Rightarrow> valueCounters) \<Rightarrow> valueWatcherState \<Rightarrow> 'm valueStore \<Rightarrow>
    GroupStoreStats \<times> 'm valueStore" where
  "GroupStats active others w s =
     (let st = group_stats_load w s; s' = tally (group_stats_reset st) (tally others s)
      in (st\<lparr>sv_Values := fst (active (st_locmap s')), sv_ValueBytes := snd (active (st_locmap s'))\<rparr>, s'))"

text \<open>Their lines follow those of the lookups and of the reads.\<close>

definition group_stats_rows :: "GroupStoreStats \<Rightarrow> (string \<times> string) list" where
  "group_stats_rows st =
     (let rows = stats_rows (ValueStoreStats.truncate st)
      in take 4 rows @
         [(''LookupGroups'', show_int (sint (sv_LookupGroups st))),
          (''LookupGroupItems'', show_int (sint (sv_LookupGroupItems st))),
          (''LookupGroupErrors'', show_int (sint (sv_LookupGroupErrors st)))] @
         take 2 (drop 4 rows) @
         [(''ReadGroups'', show_int (sint (sv_ReadGroups st))),
          (''ReadGroupItems'', show_int (sint (sv_ReadGroupItems st))),
          (''ReadGroupErrors'', show_int (sint (sv_ReadGroupErrors st)))] @
         drop 6 rows)"

section \<open>Properties\<close>

text \<open>The counters that are taken, in the store and in the report.\<close>

definition tallies :: "valueCounters \<Rightarrow> u32 list" where
  "tallies c =
     [ct_lookups c, ct_lookupErrors c, ct_reads c, ct_readErrors c, ct_writes c, ct_writeErrors c, ct_writesOverridden c,
      ct_deletes c, ct_deleteErrors c, ct_deletesOverridden c, ct_outBulkSets c, ct_outBulkSetValues c,
      ct_outBulkSetPushes c, ct_outBulkSetPushValues c, ct_inBulkSets c, ct_inBulkSetDrops c, ct_inBulkSetInvalids c,
      ct_inBulkSetWrites c, ct_inBulkSetWriteErrors c, ct_inBulkSetWritesOverridden c, ct_outBulkSetAcks c,
      ct_inBulkSetAcks c, ct_inBulkSetAckDrops c, ct_inBulkSetAckInvalids c, ct_inBulkSetAckWrites c,
      ct_inBulkSetAckWriteErrors c, ct_inBulkSetAckWritesOverridden c, ct_outPullReplications c, ct_inPullReplications c,
      ct_inPullReplicationDrops c, ct_inPullReplicationInvalids c, ct_expiredDeletions c, ct_compactions c,
      ct_smallFileCompactions c]"

definition reported :: "ValueStoreStats \<Rightarrow> u32 list" where
  "reported st =
     [sv_Lookups st, sv_LookupErrors st, sv_Reads st, sv_ReadErrors st, sv_Writes st, sv_WriteErrors st,
      sv_WritesOverridden st, sv_Deletes st, sv_DeleteErrors st, sv_DeletesOverridden st, sv_OutBulkSets st,
      sv_OutBulkSetValues st, sv_OutBulkSetPushes st, sv_OutBulkSetPushValues st, sv_InBulkSets st, sv_InBulkSetDrops st,
      sv_InBulkSetInvalids st, sv_InBulkSetWrites st, sv_InBulkSetWriteErrors st, sv_InBulkSetWritesOverridden st,
      sv_OutBulkSetAcks st, sv_InBulkSetAcks st, sv_InBulkSetAckDrops st, sv_InBulkSetAckInvalids st,
      sv_InBulkSetAckWrites st, sv_InBulkSetAckWriteErrors st, sv_InBulkSetAckWritesOverridden st,
      sv_OutPullReplications st, sv_InPullReplications st, sv_InPullReplicationDrops st, sv_InPullReplicationInvalids st,
      sv_ExpiredDeletions st, sv_Compactions st, sv_SmallFileCompactions st]"

lemma reported_load: "reported (stats_load w s) = tallies (st_counters s)"
  by (simp add: reported_def stats_load_def tallies_def Let_def)

lemma reported_values: "reported (st\<lparr>sv_Values := v, sv_ValueBytes := b\<rparr>) = reported st"
  by (simp add: reported_def)

lemma tallies_reset: "tallies (stats_reset st c) = map2 (-) (tallies c) (reported st)"
  by (simp add: tallies_def stats_reset_def reported_def)

text \<open>Those of a group store.\<close>

definition group_tallies :: "valueCounters \<Rightarrow> u32 list" where
  "group_tallies c =
     tallies c @ [ct_lookupGroups c, ct_lookupGroupItems c, ct_lookupGroupErrors c, ct_readGroups c,
       ct_readGroupItems c, ct_readGroupErrors c]"

definition group_reported :: "GroupStoreStats \<Rightarrow> u32 list" where
  "group_reported st =
     reported (ValueStoreStats.truncate st) @ [sv_LookupGroups st, sv_LookupGroupItems st, sv_LookupGroupErrors st, sv_ReadGroups st,
       sv_ReadGroupItems st, sv_ReadGroupErrors st]"

lemma group_stats_load_truncate: "ValueStoreStats.truncate (group_stats_load w s) = stats_load w s"
  by (simp add: group_stats_load_def ValueStoreStats.defs Let_def)

lemma group_reported_load: "group_reported (group_stats_load w s) = group_tallies (st_counters s)"
  by (simp add: group_reported_def group_tallies_def group_stats_load_truncate reported_load)
    (simp add: group_stats_load_def GroupStoreStats.defs ValueStoreStats.defs Let_def)

lemma group_reported_values: "group_reported (st\<lparr>sv_Values := v, sv_ValueBytes := b\<rparr>) = group_reported st"
  by (simp add: group_reported_def reported_def ValueStoreStats.defs)

lemma tallies_groups: "tallies (c\<lparr>ct_lookupGroups := x0, ct_lookupGroupItems := x1, ct_lookupGroupErrors := x2, ct_readGroups := x3, ct_readGroupItems := x4, ct_readGroupErrors := x5\<rparr>) = tallies c"
  by (simp add: tallies_def)

lemma group_tallies_reset: "group_tallies (group_stats_reset st c) = map2 (-) (group_tallies c) (group_reported st)"
  by (simp add: group_tallies_def group_stats_reset_def group_reported_def tallies_groups tallies_reset)
    (simp add: tallies_def reported_def ValueStoreStats.defs)

text \<open>
  C33. Nothing that is counted is lost or reported twice: what a call of \<open>Stats\<close> reports and what it leaves
  for the next call add up to what was counted before it and what other goroutines counted while it
  ran, for each of the 34 counters and as machine integers.
\<close>

theorem Stats_conserves:
  "map2 (+) (reported (fst (Stats active others w s))) (tallies (st_counters (snd (Stats active others w s)))) =
   tallies (others (st_counters s))"
  by (simp add: Stats_def Let_def tally_def reported_values reported_load tallies_reset)
    (simp add: tallies_def)

text \<open>The same of a group store and its 40 counters.\<close>

theorem GroupStats_conserves:
  "map2 (+) (group_reported (fst (GroupStats active others w s))) (group_tallies (st_counters (snd (GroupStats active others w s)))) =
   group_tallies (others (st_counters s))"
  by (simp add: GroupStats_def Let_def tally_def group_reported_values group_reported_load group_tallies_reset)
    (simp add: group_tallies_def tallies_def)

text \<open>
  The debug report of the tombstone age is the configured number of seconds; that of
  \<open>ReplicationIgnoreRecent\<close> is not, since the utility bits are not shifted out and microseconds are taken
  for nanoseconds: 60 seconds are reported as 15.
\<close>

lemma debug_tombstoneAge_seconds:
  assumes "age * 1000000000 < 2 ^ 64"
  shows "unat (debug_tombstoneAge (tombstoneDiscardConfig interval age batchSize workers)) = age"
proof -
  have age: "unat (of_nat age :: u64) = age" using assms by (simp add: unat_of_nat)
  have "unat (of_nat age * 1000000000 :: u64) = age * 1000000000"
    using assms by (simp add: unat_word_ariths(2) age)
  then have us: "unat (of_nat age * 1000000000 div 1000 :: u64) = age * 1000000" by (simp add: unat_div)
  have "unat (drop_bit 8 (push_bit 8 x)) = unat x" if "unat x < 2 ^ 56" for x :: u64
    using that by (simp only: drop_bit_eq_div push_bit_eq_mult unat_div unat_word_ariths(2)) simp
  then have "unat (drop_bit TSB_UTIL_BITS (td_age (tombstoneDiscardConfig interval age batchSize workers))) = age * 1000000"
    using us assms by (simp add: tombstoneDiscardConfig_def TSB_UTIL_BITS_def)
  then show ?thesis using assms by (simp add: debug_tombstoneAge_def unat_div unat_word_ariths(2))
qed

lemma debug_replicationIgnoreRecent_wrong:
  "debug_replicationIgnoreRecent (cfg\<lparr>c_replicationIgnoreRecent := push_bit TSB_UTIL_BITS (60 * 1000000000 div 1000)\<rparr>) = 15"
  by (simp add: debug_replicationIgnoreRecent_def) code_simp

end
