(* ===== verification/GroupOps.thy ===== *)
theory GroupOps
  imports StoreTheorems
begin

unbundle bit_operations_syntax

text \<open>
  The operations of a group store (\<open>src/groupstore_GEN_.go\<close>): those of a value store under a key of four
  words, and the two over a group, the entries with the same \<open>keyA\<close> and \<open>keyB\<close>.
\<close>

section \<open>The groups of the location map\<close>

text \<open>
  \<open>GetGroup\<close> of \<open>locmap.GroupLocMap\<close>, another package: the children the map holds under \<open>(keyA, keyB)\<close>, in
  an order of its own.
\<close>

record group_item =
  gi_ChildKeyA :: u64
  gi_ChildKeyB :: u64
  gi_Timestamp :: u64
  gi_Length :: u32

type_synonym 'm get_group = "'m \<Rightarrow> u64 \<Rightarrow> u64 \<Rightarrow> group_item list"

abbreviation gi_child :: "group_item \<Rightarrow> u64 \<times> u64" where
  "gi_child item \<equiv> (gi_ChildKeyA item, gi_ChildKeyB item)"

locale group_locmap = locmap_contract L for L :: "('m, group_rest) locmap_ops" +
  fixes G :: "'m get_group"
  assumes GetGroup_distinct: "distinct (map gi_child (G m a b))"
    and GetGroup_get: "item \<in> set (G m a b) \<longleftrightarrow>
      (\<exists>i off. i \<noteq> 0 \<and> lm_Get L m a (b, gi_child item) = (gi_Timestamp item, i, off, gi_Length item))"

section \<open>Operations\<close>

text \<open>A configuration of a group store.\<close>

definition group_cfg :: "group_rest store_cfg \<Rightarrow> group_rest store_cfg" where
  "group_cfg cfg = cfg\<lparr>c_layout := group_layout\<rparr>"

definition group_lookup where
  "group_lookup L keyA keyB childKeyA childKeyB = lookup L keyA (keyB, childKeyA, childKeyB)"

definition group_Lookup where
  "group_Lookup L keyA keyB childKeyA childKeyB = Lookup L keyA (keyB, childKeyA, childKeyB)"

definition group_read where
  "group_read L rd cfg keyA keyB childKeyA childKeyB = store_read L rd (group_cfg cfg) keyA (keyB, childKeyA, childKeyB)"

definition group_Read where
  "group_Read L rd cfg keyA keyB childKeyA childKeyB = Read L rd (group_cfg cfg) keyA (keyB, childKeyA, childKeyB)"

definition group_write where
  "group_write L cfg keyA keyB childKeyA childKeyB = store_write L (group_cfg cfg) keyA (keyB, childKeyA, childKeyB)"

definition group_Write where
  "group_Write L cfg keyA keyB childKeyA childKeyB = Write L (group_cfg cfg) keyA (keyB, childKeyA, childKeyB)"

definition group_Delete where
  "group_Delete L cfg keyA keyB childKeyA childKeyB = Delete L (group_cfg cfg) keyA (keyB, childKeyA, childKeyB)"

record LookupGroupItem =
  lg_ChildKeyA :: u64
  lg_ChildKeyB :: u64
  lg_TimestampMicro :: i64
  lg_Length :: u32

record ReadGroupItem =
  rg_ChildKeyA :: u64
  rg_ChildKeyB :: u64
  rg_TimestampMicro :: i64
  rg_Value :: bytes

definition LookupGroup ::
  "'m get_group \<Rightarrow> u64 \<Rightarrow> u64 \<Rightarrow> 'm valueStore \<Rightarrow> (LookupGroupItem list \<times> go_error option) \<times> 'm valueStore" where
  "LookupGroup G keyA keyB s =
     (let s1 = tally (\<lambda>c. c\<lparr>ct_lookupGroups := ct_lookupGroups c + 1\<rparr>) s;
          items = G (st_locmap s1) keyA keyB
      in if items = [] then (([], None), s1)
         else let rv = map (\<lambda>item. \<lparr>lg_ChildKeyA = gi_ChildKeyA item, lg_ChildKeyB = gi_ChildKeyB item,
                     lg_TimestampMicro = drop_bit TSB_UTIL_BITS (gi_Timestamp item), lg_Length = gi_Length item\<rparr>)
                   (filter (\<lambda>item. gi_Timestamp item AND TSB_DELETION = 0) items)
              in ((rv, None), tally (\<lambda>c. c\<lparr>ct_lookupGroupItems := ct_lookupGroupItems c + of_nat (length rv)\<rparr>) s1))"

text \<open>The loop of \<open>ReadGroup\<close>: an item that cannot be read is counted and left out.\<close>

fun readGroup_items ::
  "('m, group_rest) locmap_ops \<Rightarrow> checksummed_read \<Rightarrow> group_rest store_cfg \<Rightarrow> u64 \<Rightarrow> u64 \<Rightarrow> group_item list \<Rightarrow>
   ReadGroupItem list \<times> 'm valueStore \<Rightarrow> (ReadGroupItem list \<times> 'm valueStore) outcome" where
  "readGroup_items L rd cfg keyA keyB [] x = Done x"
| "readGroup_items L rd cfg keyA keyB (item # items) (rv, s) =
     bind_outcome (group_read L rd cfg keyA keyB (gi_ChildKeyA item) (gi_ChildKeyB item) [] s) (\<lambda>(timestampbits, v, err).
       readGroup_items L rd cfg keyA keyB items
         (if err = None \<and> timestampbits AND TSB_DELETION = 0
          then rv @ [\<lparr>rg_ChildKeyA = gi_ChildKeyA item, rg_ChildKeyB = gi_ChildKeyB item,
                      rg_TimestampMicro = drop_bit TSB_UTIL_BITS timestampbits, rg_Value = v\<rparr>]
          else rv,
          if err \<noteq> None \<and> err \<noteq> Some ErrNotFound
          then tally (\<lambda>c. c\<lparr>ct_readGroupErrors := ct_readGroupErrors c + 1\<rparr>) s else s))"

definition ReadGroup ::
  "('m, group_rest) locmap_ops \<Rightarrow> 'm get_group \<Rightarrow> checksummed_read \<Rightarrow> group_rest store_cfg \<Rightarrow> u64 \<Rightarrow> u64 \<Rightarrow> 'm valueStore \<Rightarrow>
   ((ReadGroupItem list \<times> go_error option) \<times> 'm valueStore) outcome" where
  "ReadGroup L G rd cfg keyA keyB s =
     (let s1 = tally (\<lambda>c. c\<lparr>ct_readGroups := ct_readGroups c + 1\<rparr>) s;
          items = G (st_locmap s1) keyA keyB
      in if items = [] then Done (([], None), s1)
         else bind_outcome (readGroup_items L rd cfg keyA keyB items ([], s1)) (\<lambda>(rv, s2).
           Done ((rv, None), tally (\<lambda>c. c\<lparr>ct_readGroupItems := ct_readGroupItems c + of_nat (length rv)\<rparr>) s2)))"

section \<open>The association list keeps the contract\<close>

definition alm_GetGroup :: "group_rest alm get_group" where
  "alm_GetGroup m a b =
     [\<lparr>gi_ChildKeyA = ca, gi_ChildKeyB = cb, gi_Timestamp = ts, gi_Length = len\<rparr>.
        (a', b', ca, cb) \<leftarrow> remdups (map fst m), (ts, i, off, len) \<leftarrow> [alm_Get m a (b, ca, cb)],
        a' = a \<and> b' = b \<and> i \<noteq> 0]"

lemma alm_Get_held: "alm_Get m a b = (ts, i, off, len) \<Longrightarrow> i \<noteq> 0 \<Longrightarrow> (a, b) \<in> fst ` set m"
  using map_of_eq_None_iff [of m "(a, b)"] by (auto simp: alm_Get_def split: option.splits)

lemma set_alm_GetGroup:
  "item \<in> set (alm_GetGroup m a b) \<longleftrightarrow>
     (\<exists>i off. i \<noteq> 0 \<and> alm_Get m a (b, gi_child item) = (gi_Timestamp item, i, off, gi_Length item))"
proof
  assume "\<exists>i off. i \<noteq> 0 \<and> alm_Get m a (b, gi_child item) = (gi_Timestamp item, i, off, gi_Length item)"
  then obtain i off where *: "i \<noteq> 0" "alm_Get m a (b, gi_child item) = (gi_Timestamp item, i, off, gi_Length item)" by blast
  from alm_Get_held [OF *(2,1)] have "(a, b, gi_child item) \<in> fst ` set m" .
  then show "item \<in> set (alm_GetGroup m a b)" unfolding alm_GetGroup_def using * by (force split: prod.splits)
qed (auto simp: alm_GetGroup_def, metis)

lemma distinct_alm_GetGroup: "distinct (map gi_child (alm_GetGroup m a b))"
proof -
  have "distinct (map gi_child
      [\<lparr>gi_ChildKeyA = ca, gi_ChildKeyB = cb, gi_Timestamp = ts, gi_Length = len\<rparr>.
        (a', b', ca, cb) \<leftarrow> ks, (ts, i, off, len) \<leftarrow> [alm_Get m a (b, ca, cb)], a' = a \<and> b' = b \<and> i \<noteq> 0])"
    if "distinct ks" for ks
    using that by (induction ks) (auto split: prod.splits)
  then show ?thesis by (simp add: alm_GetGroup_def)
qed

interpretation alm_groups: group_locmap alm_ops alm_GetGroup
  by unfold_locales (simp_all add: distinct_alm_GetGroup set_alm_GetGroup alm_ops_def)

section \<open>What a group read gives\<close>

abbreviation rg_child :: "ReadGroupItem \<Rightarrow> u64 \<times> u64" where
  "rg_child item \<equiv> (rg_ChildKeyA item, rg_ChildKeyB item)"

abbreviation lg_child :: "LookupGroupItem \<Rightarrow> u64 \<times> u64" where
  "lg_child item \<equiv> (lg_ChildKeyA item, lg_ChildKeyB item)"

lemma group_read_tally [simp]: "group_read L rd cfg a b ca cb v (tally f s) = group_read L rd cfg a b ca cb v s"
  by (simp add: group_read_def)

text \<open>What can be read is held by the map and not a deletion.\<close>

lemma locBlock_read_live:
  "locBlock_read fuel L rd cfg s i a b ts off len v = Done (ts', v', None) \<Longrightarrow> ts AND TSB_DELETION = 0 \<Longrightarrow>
   ts' AND TSB_DELETION = 0"
proof (induction fuel L rd cfg s i a b ts off len v rule: locBlock_read.induct)
  case (2 fuel L rd cfg s i a b ts off len v)
  then show ?case
    by (auto simp: valueStoreFile_read_def split: option.splits valueLocBlock.splits prod.splits if_splits elim!: bind_outcome_DoneE)
qed simp

lemma group_read_live:
  assumes "group_read L rd cfg a b ca cb buf s = Done (ts, v, None)"
  shows "ts AND TSB_DELETION = 0" "fst (snd (lm_Get L (st_locmap s) a (b, ca, cb))) \<noteq> 0"
  using assms locBlock_read_live [of read_fuel L rd "group_cfg cfg" s]
  by (fastforce simp: group_read_def store_read_def split: prod.splits if_splits)+

text \<open>What the loop makes of one item, and which items it counts.\<close>

definition read_item where
  "read_item L rd cfg a b s item =
     (case group_read L rd cfg a b (gi_ChildKeyA item) (gi_ChildKeyB item) [] s of
        Done (ts, v, None) \<Rightarrow> [\<lparr>rg_ChildKeyA = gi_ChildKeyA item, rg_ChildKeyB = gi_ChildKeyB item,
          rg_TimestampMicro = drop_bit TSB_UTIL_BITS ts, rg_Value = v\<rparr>]
      | _ \<Rightarrow> [])"

definition item_fails where
  "item_fails L rd cfg a b s item \<longleftrightarrow>
     (\<exists>ts v e. group_read L rd cfg a b (gi_ChildKeyA item) (gi_ChildKeyB item) [] s = Done (ts, v, Some e) \<and> e \<noteq> ErrNotFound)"

abbreviation failed_reads :: "nat \<Rightarrow> valueCounters \<Rightarrow> valueCounters" where
  "failed_reads n c \<equiv> c\<lparr>ct_readGroupErrors := ct_readGroupErrors c + of_nat n\<rparr>"

lemma read_item_tally [simp]: "read_item L rd cfg a b (tally f s) = read_item L rd cfg a b s"
  by (simp add: read_item_def fun_eq_iff)

lemma item_fails_tally [simp]: "item_fails L rd cfg a b (tally f s) = item_fails L rd cfg a b s"
  by (simp add: item_fails_def fun_eq_iff)

lemma readGroup_items_done:
  "\<forall>item \<in> set items. \<exists>r. group_read L rd cfg a b (gi_ChildKeyA item) (gi_ChildKeyB item) [] s = Done r \<Longrightarrow>
   readGroup_items L rd cfg a b items (rv, s) = Done (rv @ concat (map (read_item L rd cfg a b s) items),
     tally (failed_reads (length (filter (item_fails L rd cfg a b s) items))) s)"
proof (induction items arbitrary: rv s)
  case Nil
  then show ?case by (simp add: tally_def)
next
  case (Cons item items)
  obtain ts v err where read: "group_read L rd cfg a b (gi_ChildKeyA item) (gi_ChildKeyB item) [] s = Done (ts, v, err)"
    using Cons.prems by auto
  let ?f = "\<lambda>c. c\<lparr>ct_readGroupErrors := ct_readGroupErrors c + 1\<rparr>"
  have rest: "\<forall>item \<in> set items. \<exists>r. group_read L rd cfg a b (gi_ChildKeyA item) (gi_ChildKeyB item) [] (tally g s) = Done r" for g
    using Cons.prems by simp
  have same: "tally (\<lambda>c. c) s = s" by (simp add: tally_def)
  have add: "tally (failed_reads n) (tally ?f s) = tally (failed_reads (Suc n)) s" for n
    by (simp add: tally_def)
  have item: "read_item L rd cfg a b s item = (case err of None \<Rightarrow>
        [\<lparr>rg_ChildKeyA = gi_ChildKeyA item, rg_ChildKeyB = gi_ChildKeyB item, rg_TimestampMicro = drop_bit TSB_UTIL_BITS ts, rg_Value = v\<rparr>]
      | Some _ \<Rightarrow> [])" "item_fails L rd cfg a b s item \<longleftrightarrow> err \<noteq> None \<and> err \<noteq> Some ErrNotFound"
    by (auto simp: read_item_def item_fails_def read split: option.splits)
  show ?case
    using read group_read_live(1) [of L rd cfg a b "gi_ChildKeyA item" "gi_ChildKeyB item" "[]" s] Cons.IH [OF rest, of _ ?f]
      Cons.IH [OF rest, of _ "\<lambda>c. c"]
    by (cases err) (auto simp: item same add)
qed

lemma read_item_iff:
  "x \<in> set (read_item L rd cfg a b s item) \<longleftrightarrow> rg_child x = gi_child item \<and>
     (\<exists>ts. group_read L rd cfg a b (rg_ChildKeyA x) (rg_ChildKeyB x) [] s = Done (ts, rg_Value x, None) \<and>
        rg_TimestampMicro x = drop_bit TSB_UTIL_BITS ts)"
  by (cases x) (auto simp: read_item_def split: outcome.splits option.splits, metis+)

lemma distinct_read_items:
  "distinct (map gi_child items) \<Longrightarrow> distinct (map rg_child (concat (map (read_item L rd cfg a b s) items)))"
proof (induction items)
  case (Cons item items)
  have "distinct (map rg_child (read_item L rd cfg a b s item))"
    by (auto simp: read_item_def split: outcome.splits option.splits)
  moreover have "rg_child x \<noteq> rg_child y" if "x \<in> set (read_item L rd cfg a b s item)" "i \<in> set items"
    "y \<in> set (read_item L rd cfg a b s i)" for x y i
  proof -
    have "gi_child i \<noteq> gi_child item" using that(2) Cons.prems by (auto simp: image_iff)
    then show ?thesis using that unfolding read_item_iff by metis
  qed
  ultimately show ?case using Cons by (auto simp: image_iff)
qed simp

lemma ReadGroup_result:
  assumes G: "group_locmap L G" and reads: "\<forall>ca cb. \<exists>r. group_read L rd cfg a b ca cb [] s = Done r"
  shows "\<exists>rv f. ReadGroup L G rd cfg a b s = Done ((rv, None), tally f s) \<and> distinct (map rg_child rv) \<and>
    (\<forall>x. x \<in> set rv \<longleftrightarrow>
       (\<exists>ts. group_read L rd cfg a b (rg_ChildKeyA x) (rg_ChildKeyB x) [] s = Done (ts, rg_Value x, None) \<and>
          rg_TimestampMicro x = drop_bit TSB_UTIL_BITS ts)) \<and>
    (\<forall>c. ct_readGroupErrors (f c) = ct_readGroupErrors c + of_nat (length (filter (item_fails L rd cfg a b s) (G (st_locmap s) a b))))"
proof -
  let ?items = "G (st_locmap s) a b" and ?n = "\<lambda>c. c\<lparr>ct_readGroups := ct_readGroups c + 1\<rparr>"
  let ?rv = "concat (map (read_item L rd cfg a b s) ?items)"
  have lm: "st_locmap (tally f s) = st_locmap s" for f by (simp add: tally_def)
  have run: "readGroup_items L rd cfg a b ?items ([], tally ?n s) =
      Done (?rv, tally (failed_reads (length (filter (item_fails L rd cfg a b s) ?items))) (tally ?n s))"
    using readGroup_items_done [of ?items L rd cfg a b "tally ?n s" "[]"] reads by simp
  have "x \<in> set ?rv \<longleftrightarrow> (\<exists>ts. group_read L rd cfg a b (rg_ChildKeyA x) (rg_ChildKeyB x) [] s = Done (ts, rg_Value x, None) \<and>
      rg_TimestampMicro x = drop_bit TSB_UTIL_BITS ts)" (is "_ \<longleftrightarrow> ?R") for x
  proof
    assume read: ?R
    then have "fst (snd (lm_Get L (st_locmap s) a (b, rg_child x))) \<noteq> 0" using group_read_live(2) by fastforce
    moreover obtain t i off len where loc: "lm_Get L (st_locmap s) a (b, rg_child x) = (t, i, off, len)" by (metis prod_cases4)
    ultimately have "\<lparr>gi_ChildKeyA = rg_ChildKeyA x, gi_ChildKeyB = rg_ChildKeyB x, gi_Timestamp = t, gi_Length = len\<rparr> \<in> set ?items"
      using group_locmap.GetGroup_get [OF G] by simp
    with read show "x \<in> set ?rv" by (force simp: read_item_iff)
  qed (auto simp: read_item_iff)
  moreover have "distinct (map rg_child ?rv)"
    by (rule distinct_read_items [OF group_locmap.GetGroup_distinct [OF G]])
  moreover have "ReadGroup L G rd cfg a b s = Done ((?rv, None), tally (\<lambda>c. c\<lparr>ct_readGroups := ct_readGroups c + 1,
      ct_readGroupErrors := ct_readGroupErrors c + of_nat (length (filter (item_fails L rd cfg a b s) ?items)),
      ct_readGroupItems := ct_readGroupItems c + of_nat (length ?rv)\<rparr>) s)"
    using run by (simp add: ReadGroup_def Let_def lm) (simp add: tally_def)
  ultimately show ?thesis by (intro exI [of _ ?rv] exI conjI) (assumption | simp)+
qed

lemma LookupGroup_result:
  assumes "group_locmap L G"
  shows "\<exists>rv f. LookupGroup G a b s = ((rv, None), tally f s) \<and> distinct (map lg_child rv) \<and>
    (\<forall>x. x \<in> set rv \<longleftrightarrow> (\<exists>ts i off. i \<noteq> 0 \<and> lm_Get L (st_locmap s) a (b, lg_child x) = (ts, i, off, lg_Length x) \<and>
       ts AND TSB_DELETION = 0 \<and> lg_TimestampMicro x = drop_bit TSB_UTIL_BITS ts))"
proof -
  let ?items = "G (st_locmap s) a b"
  let ?mk = "\<lambda>item. \<lparr>lg_ChildKeyA = gi_ChildKeyA item, lg_ChildKeyB = gi_ChildKeyB item,
    lg_TimestampMicro = drop_bit TSB_UTIL_BITS (gi_Timestamp item), lg_Length = gi_Length item\<rparr>"
  let ?rv = "map ?mk (filter (\<lambda>item. gi_Timestamp item AND TSB_DELETION = 0) ?items)"
  have "distinct (map lg_child ?rv)"
    using distinct_map_filter [OF group_locmap.GetGroup_distinct [OF assms, of "st_locmap s" a b]] by (simp add: comp_def)
  moreover have "x \<in> set ?rv \<longleftrightarrow> (\<exists>ts i off. i \<noteq> 0 \<and> lm_Get L (st_locmap s) a (b, lg_child x) = (ts, i, off, lg_Length x) \<and>
       ts AND TSB_DELETION = 0 \<and> lg_TimestampMicro x = drop_bit TSB_UTIL_BITS ts)" (is "_ \<longleftrightarrow> ?R") for x
  proof
    assume ?R
    then obtain ts i off where *: "i \<noteq> 0" "lm_Get L (st_locmap s) a (b, lg_child x) = (ts, i, off, lg_Length x)"
      "ts AND TSB_DELETION = 0" "lg_TimestampMicro x = drop_bit TSB_UTIL_BITS ts" by blast
    let ?item = "\<lparr>gi_ChildKeyA = lg_ChildKeyA x, gi_ChildKeyB = lg_ChildKeyB x, gi_Timestamp = ts, gi_Length = lg_Length x\<rparr>"
    have "?item \<in> set ?items" "x = ?mk ?item" using * group_locmap.GetGroup_get [OF assms, of ?item] by simp_all
    then show "x \<in> set ?rv" using *(3) by force
  qed (auto simp: group_locmap.GetGroup_get [OF assms])
  moreover have "\<exists>f. LookupGroup G a b s = ((?rv, None), tally f s)"
    by (auto simp: LookupGroup_def Let_def tally_def)
  ultimately show ?thesis by blast
qed

section \<open>Examples\<close>

text \<open>A group store with one entry.\<close>

abbreviation cfg_group :: "group_rest store_cfg" where
  "cfg_group \<equiv> cfg_small group_layout"

lemma group_cfg_small [simp]: "group_cfg cfg_group = cfg_group"
  by (simp add: group_cfg_def cfg_small_def)

definition group_wrote :: "group_rest alm valueStore" where
  "group_wrote = snd (outcome_state (group_Write alm_ops cfg_group 1 2 3 4 1000 [7, 8] (store_enabled_in group_layout)))"

lemma group_wrote_eq:
  "group_Write alm_ops cfg_group 1 2 3 4 1000 [7, 8] (store_enabled_in group_layout) = Done ((0, None), group_wrote)"
  "fw_fl (st_fileWriter group_wrote) = None"
proof -
  have "\<exists>s. group_Write alm_ops cfg_group 1 2 3 4 1000 [7, 8] (store_enabled_in group_layout) = Done ((0, None), s) \<and>
      fw_fl (st_fileWriter s) = None"
    unfolding group_Write_def group_cfg_small using example_range by (simp add: example_defs cfg_small_def [of group_layout])
  then show "group_Write alm_ops cfg_group 1 2 3 4 1000 [7, 8] (store_enabled_in group_layout) = Done ((0, None), group_wrote)"
    "fw_fl (st_fileWriter group_wrote) = None" unfolding group_wrote_def by auto
qed

lemma group_wrote_reached:
  "\<exists>evs. reached alm_ops (\<lambda>_. 9) (group_cfg cfg_group) evs group_wrote \<and> spec_of evs (1, 2, 3, 4) = (256000, [7, 8])"
proof -
  have w: "Write alm_ops cfg_group 1 (2, 3, 4) 1000 [7, 8] (store_enabled_in group_layout) = Done ((0, None), group_wrote)"
    using group_wrote_eq(1) by (simp add: group_Write_def)
  obtain evs where "reached alm_ops (\<lambda>_. 9) cfg_group evs group_wrote"
    "spec_of evs (1, 2, 3, 4) = (push_bit TSB_UTIL_BITS 1000, [7, 8])"
    by (rule Write_reached [OF alm.locmap_contract_axioms reached_enabled [OF layouts(2)] w _ run_nil]) simp_all
  then show ?thesis by (auto simp: TSB_UTIL_BITS_def)
qed

section \<open>Properties\<close>



text \<open>
  C8. \<open>LookupGroup\<close> in every reached state, wherever the values are: each child once, and exactly those
  whose newest write is not a deletion, with its timestamp and the length of its value.
\<close>

theorem LookupGroup_newest:
  assumes "group_locmap L G" "reached L sum32 (group_cfg cfg) evs s"
  shows "\<exists>rv s'. LookupGroup G a b s = ((rv, None), s') \<and> distinct (map lg_child rv) \<and>
    (\<forall>x. x \<in> set rv \<longleftrightarrow> (\<exists>ts v. spec_of evs (a, b, lg_child x) = (ts, v) \<and> ts \<noteq> 0 \<and> ts AND TSB_DELETION = 0 \<and>
       lg_TimestampMicro x = drop_bit TSB_UTIL_BITS ts \<and> lg_Length x = of_nat (length v)))"
proof -
  have lm: "locmap_contract L" by (rule group_locmap.axioms(1) [OF assms(1)])
  have "(\<exists>ts i off. i \<noteq> 0 \<and> lm_Get L (st_locmap s) a (b, c) = (ts, i, off, len) \<and> ts AND TSB_DELETION = 0 \<and> t = drop_bit TSB_UTIL_BITS ts) \<longleftrightarrow>
    (\<exists>ts v. spec_of evs (a, b, c) = (ts, v) \<and> ts \<noteq> 0 \<and> ts AND TSB_DELETION = 0 \<and> t = drop_bit TSB_UTIL_BITS ts \<and> len = of_nat (length v))"
    for c t len
  proof -
    obtain ts i off len' where loc: "lm_Get L (st_locmap s) a (b, c) = (ts, i, off, len')" by (metis prod_cases4)
    from reached_loc [OF lm assms(2) loc] obtain v where "spec_of evs (a, b, c) = (ts, v)" "i = 0 \<longleftrightarrow> ts = 0"
      "i \<noteq> 0 \<longrightarrow> len' = of_nat (length v)" .
    then show ?thesis using loc by auto
  qed
  note same = this
  from LookupGroup_result [OF assms(1), of a b s] show ?thesis unfolding same by blast
qed

theorem LookupGroup_newest_witness:
  "\<exists>rv s'. LookupGroup alm_GetGroup 1 2 group_wrote = ((rv, None), s') \<and>
    \<lparr>lg_ChildKeyA = 3, lg_ChildKeyB = 4, lg_TimestampMicro = 1000, lg_Length = 2\<rparr> \<in> set rv"
proof -
  obtain evs where evs: "reached alm_ops (\<lambda>_. 9) (group_cfg cfg_group) evs group_wrote"
    "spec_of evs (1, 2, 3, 4) = (256000, [7, 8])" using group_wrote_reached by blast
  have bits: "(256000 :: u64) AND TSB_DELETION = 0" "drop_bit TSB_UTIL_BITS (256000 :: u64) = 1000" by code_simp+
  from LookupGroup_newest [OF alm_groups.group_locmap_axioms evs(1), of 1 2]
  show ?thesis using evs(2) bits by auto
qed

text \<open>
  C27. \<open>ReadGroup\<close> hides errors: when the read of a child fails, as for a file that is damaged, the call
  reports no error and leaves the child out; only the counter of errors tells.
\<close>

theorem ReadGroup_hides_errors:
  assumes "group_locmap L G" "\<forall>ca cb. \<exists>r. group_read L rd cfg a b ca cb [] s = Done r"
    and fails: "group_read L rd cfg a b ca cb [] s = Done (ts, v, Some e)" "e \<noteq> ErrNotFound"
  shows "\<exists>rv f n. ReadGroup L G rd cfg a b s = Done ((rv, None), tally f s) \<and> (ca, cb) \<notin> set (map rg_child rv) \<and>
    0 < n \<and> n \<le> length (G (st_locmap s) a b) \<and> (\<forall>c. ct_readGroupErrors (f c) = ct_readGroupErrors c + of_nat n)"
proof -
  obtain t i off len where loc: "lm_Get L (st_locmap s) a (b, ca, cb) = (t, i, off, len)" by (metis prod_cases4)
  let ?item = "\<lparr>gi_ChildKeyA = ca, gi_ChildKeyB = cb, gi_Timestamp = t, gi_Length = len\<rparr>"
  let ?failed = "filter (item_fails L rd cfg a b s) (G (st_locmap s) a b)"
  have "i \<noteq> 0" using fails loc by (auto simp: group_read_def store_read_def)
  then have "?item \<in> set (G (st_locmap s) a b)" using loc group_locmap.GetGroup_get [OF assms(1)] by simp
  moreover have "item_fails L rd cfg a b s ?item" using fails by (simp add: item_fails_def)
  ultimately have n: "0 < length ?failed" by (auto simp: filter_empty_conv)
  obtain rv f where run: "ReadGroup L G rd cfg a b s = Done ((rv, None), tally f s)"
    and items: "\<And>x. x \<in> set rv \<Longrightarrow> \<exists>ts. group_read L rd cfg a b (rg_ChildKeyA x) (rg_ChildKeyB x) [] s = Done (ts, rg_Value x, None)"
    and count: "\<forall>c. ct_readGroupErrors (f c) = ct_readGroupErrors c + of_nat (length ?failed)"
    using ReadGroup_result [OF assms(1,2)] by blast
  have "(ca, cb) \<notin> set (map rg_child rv)" using items fails(1) by force
  then show ?thesis using run count n by (intro exI [of _ rv] exI [of _ f] exI [of _ "length ?failed"]) simp
qed

text \<open>A group with an entry in a file that cannot be read.\<close>

definition group_damaged :: "group_rest alm valueStore" where
  "group_damaged = store_blank\<lparr>st_locmap := [((1, 2, 3, 4), (0x300, 1, 40, 2))],
     st_locBlocks := [1 \<mapsto> FileBlock \<lparr>sf_id = 1, sf_nameTimestamp = 5, sf_interval = 64, sf_writerOffset = 0, sf_cur = None,
       sf_checksumChan = [], sf_held = [], sf_toDisk = [], sf_seq = 0, sf_lastWasNil = False, sf_stopped = True, sf_disk = [],
       sf_index = 0, sf_freed = []\<rparr>]\<rparr>"

lemma group_damaged_read:
  "group_read alm_ops (\<lambda>_ _ _ _. ([], Some ErrEOF)) cfg_group 1 2 ca cb [] group_damaged =
     Done (if ca = 3 \<and> cb = 4 then (0x300, [], Some ErrEOF) else (0, [], Some ErrNotFound))"
proof -
  have bits: "(0x300 :: u64) AND TSB_DELETION = 0" "(0x300 :: u64) AND TSB_LOCAL_REMOVAL = 0" by code_simp+
  show ?thesis
    unfolding group_read_def store_read_def read_fuel_def numeral_2_eq_2 group_cfg_small
    by (simp add: group_damaged_def alm_ops_def alm_Get_def bits locBlock_def MaxUint16_def valueStoreFile_read_def)
qed

theorem ReadGroup_hides_errors_witness:
  "\<exists>rv s'. ReadGroup alm_ops alm_GetGroup (\<lambda>_ _ _ _. ([], Some ErrEOF)) cfg_group 1 2 group_damaged = Done ((rv, None), s') \<and>
    (3, 4) \<notin> set (map rg_child rv)"
proof -
  have "\<forall>ca cb. \<exists>r. group_read alm_ops (\<lambda>_ _ _ _. ([], Some ErrEOF)) cfg_group 1 2 ca cb [] group_damaged = Done r"
    by (simp add: group_damaged_read)
  moreover have "group_read alm_ops (\<lambda>_ _ _ _. ([], Some ErrEOF)) cfg_group 1 2 3 4 [] group_damaged = Done (0x300, [], Some ErrEOF)"
    by (simp add: group_damaged_read)
  ultimately show ?thesis using ReadGroup_hides_errors [OF alm_groups.group_locmap_axioms] by fast
qed

text \<open>
  An entry that was handed to another node, which an acknowledgement marks as a local removal without a
  deletion, is listed by \<open>LookupGroup\<close>, and \<open>ReadGroup\<close> does not give it.
\<close>

lemma LookupGroup_lists_removed:
  assumes "group_locmap L G" "\<forall>ca cb. \<exists>r. group_read L rd cfg a b ca cb [] s = Done r"
    and loc: "lm_Get L (st_locmap s) a (b, ca, cb) = (ts, i, off, len)" "i \<noteq> 0" "ts AND TSB_DELETION = 0" "ts AND TSB_LOCAL_REMOVAL \<noteq> 0"
  shows "(ca, cb) \<in> set (map lg_child (fst (fst (LookupGroup G a b s)))) \<and>
    (\<exists>rv s'. ReadGroup L G rd cfg a b s = Done ((rv, None), s') \<and> (ca, cb) \<notin> set (map rg_child rv))"
proof
  obtain rv f where "LookupGroup G a b s = ((rv, None), tally f s)"
    "\<lparr>lg_ChildKeyA = ca, lg_ChildKeyB = cb, lg_TimestampMicro = drop_bit TSB_UTIL_BITS ts, lg_Length = len\<rparr> \<in> set rv"
    using LookupGroup_result [OF assms(1), of a b s] loc by auto
  then show "(ca, cb) \<in> set (map lg_child (fst (fst (LookupGroup G a b s))))" by force
  have "group_read L rd cfg a b ca cb [] s = Done (ts, [], Some ErrNotFound)"
    using loc by (simp add: group_read_def store_read_def)
  then have "rg_child x = (ca, cb) \<Longrightarrow> \<not> (\<exists>ts. group_read L rd cfg a b (rg_ChildKeyA x) (rg_ChildKeyB x) [] s = Done (ts, rg_Value x, None))" for x
    by auto
  then show "\<exists>rv s'. ReadGroup L G rd cfg a b s = Done ((rv, None), s') \<and> (ca, cb) \<notin> set (map rg_child rv)"
    using ReadGroup_result [OF assms(1,2)] by (metis (no_types, lifting) imageE list.set_map)
qed

end
