(* ===== verification/GroupNode.thy ===== *)
theory GroupNode
  imports GroupOps Lifecycle
begin

unbundle bit_operations_syntax

text \<open>
  A node of a group store: what the templates generate at the layout of a group store, function by
  function (\<open>src/group*_GEN_.go\<close>), the turns of its goroutines as a step relation, and what a group has after
  a restart.
\<close>

section \<open>Files\<close>

definition readGroupHeader where
  "readGroupHeader = readValueHeader GroupStore"

definition readGroupHeaderTOC where
  "readGroupHeaderTOC = readValueHeaderTOC GroupStore"

definition groupReadTOCEntriesBatched where
  "groupReadTOCEntriesBatched = valueReadTOCEntriesBatched group_layout"

definition groupTOCStat where
  "groupTOCStat = valueTOCStat group_layout"

definition groupChecksumVerify where
  "groupChecksumVerify = valueChecksumVerify GroupStore"

definition newGroupReadFile where
  "newGroupReadFile cfg = newValueReadFile (group_cfg cfg)"

definition createGroupReadWriteFile where
  "createGroupReadWriteFile cfg = createValueReadWriteFile (group_cfg cfg)"

section \<open>The goroutines of the store\<close>

definition group_memWriter where
  "group_memWriter L cfg = memWriter L (group_cfg cfg)"

definition group_fileWriter where
  "group_fileWriter sum32 cfg = fileWriter sum32 (group_cfg cfg)"

definition group_memClearer_entry where
  "group_memClearer_entry L cfg = memClearer_entry L (group_cfg cfg)"

definition group_tocWriter where
  "group_tocWriter cfg = tocWriter (group_cfg cfg)"

definition group_enableWrites where
  "group_enableWrites L cfg = enableWrites L (group_cfg cfg)"

definition group_disableWrites where
  "group_disableWrites L cfg = disableWrites L (group_cfg cfg)"

definition group_EnableWrites where
  "group_EnableWrites L cfg = group_enableWrites L cfg True"

definition group_DisableWrites where
  "group_DisableWrites L cfg = group_disableWrites L cfg True"

definition group_Flush_send where
  "group_Flush_send L cfg = Flush_send L (group_cfg cfg)"

text \<open>One turn of a goroutine of a group store.\<close>

inductive group_step ::
  "('m, group_rest) locmap_ops \<Rightarrow> (bytes \<Rightarrow> u32) \<Rightarrow> group_rest store_cfg \<Rightarrow> 'm valueStore \<Rightarrow>
   (group_rest valueWriteReq \<times> go_error option \<times> u64) option \<Rightarrow> 'm valueStore \<Rightarrow> bool"
  for L sum32 cfg where
  group_answer: "w < length (st_memWriters s) \<Longrightarrow> group_memWriter L cfg w (WriteReq r) s = Done (Some (err, pts), s') \<Longrightarrow>
    group_step L sum32 cfg s (Some (r, err, pts)) s'"
| group_control: "w < length (st_memWriters s) \<Longrightarrow> msg \<in> {EnableReq, DisableReq, FlushReq, ShutdownReq} \<Longrightarrow>
    group_memWriter L cfg w msg s = Done (ans, s') \<Longrightarrow> group_step L sum32 cfg s None s'"
| group_file: "env_ok env \<Longrightarrow> group_fileWriter sum32 cfg env s = Done s' \<Longrightarrow> group_step L sum32 cfg s None s'"
| group_pipe: "env_ok env \<Longrightarrow> file_pipe sum32 env s s' \<Longrightarrow> group_step L sum32 cfg s None s'"
| group_recv: "k < length (st_memClearers s) \<Longrightarrow> mc_cur (st_memClearers s ! k) = None \<Longrightarrow>
    memClearer_recv k s = Done s' \<Longrightarrow> group_step L sum32 cfg s None s'"
| group_entry: "k < length (st_memClearers s) \<Longrightarrow> group_memClearer_entry L cfg k s = Done s' \<Longrightarrow>
    group_step L sum32 cfg s None s'"
| group_done: "k < length (st_memClearers s) \<Longrightarrow> memClearer_done k s = Done s' \<Longrightarrow> group_step L sum32 cfg s None s'"
| group_toc: "group_tocWriter cfg err s = Done s' \<Longrightarrow> group_step L sum32 cfg s None s'"
| group_count: "group_step L sum32 cfg s None (s\<lparr>st_counters := c\<rparr>)"

lemma group_step_store_step: "group_step L sum32 cfg s ev s' \<longleftrightarrow> store_step L sum32 (group_cfg cfg) s ev s'"
proof
  show "group_step L sum32 cfg s ev s' \<Longrightarrow> store_step L sum32 (group_cfg cfg) s ev s'"
    by (induction rule: group_step.induct)
      (auto simp: group_memWriter_def group_fileWriter_def group_memClearer_entry_def group_tocWriter_def intro: store_step.intros)
  show "store_step L sum32 (group_cfg cfg) s ev s' \<Longrightarrow> group_step L sum32 cfg s ev s'"
    by (induction rule: store_step.induct)
      (auto simp flip: group_memWriter_def group_fileWriter_def group_memClearer_entry_def group_tocWriter_def intro: group_step.intros)
qed

inductive group_run ::
  "('m, group_rest) locmap_ops \<Rightarrow> (bytes \<Rightarrow> u32) \<Rightarrow> group_rest store_cfg \<Rightarrow> 'm valueStore \<Rightarrow>
   (group_rest valueWriteReq \<times> go_error option \<times> u64) list \<Rightarrow> 'm valueStore \<Rightarrow> bool"
  for L sum32 cfg where
  group_nil: "group_run L sum32 cfg s [] s"
| group_more: "group_run L sum32 cfg s evs s1 \<Longrightarrow> group_step L sum32 cfg s1 ev s2 \<Longrightarrow>
    group_run L sum32 cfg s (evs @ (case ev of None \<Rightarrow> [] | Some e \<Rightarrow> [e])) s2"

lemma group_run_store_run: "group_run L sum32 cfg s evs s' \<longleftrightarrow> store_run L sum32 (group_cfg cfg) s evs s'"
proof
  show "group_run L sum32 cfg s evs s' \<Longrightarrow> store_run L sum32 (group_cfg cfg) s evs s'"
    by (induction rule: group_run.induct) (auto simp: group_step_store_step intro: store_run.intros)
  show "store_run L sum32 (group_cfg cfg) s evs s' \<Longrightarrow> group_run L sum32 cfg s evs s'"
    by (induction rule: store_run.induct) (auto simp flip: group_step_store_step intro: group_run.intros)
qed

section \<open>Replication\<close>

definition group_newInBulkSetMsg where
  "group_newInBulkSetMsg = newInBulkSetMsg group_layout"

definition group_inBulkSet where
  "group_inBulkSet L cfg = inBulkSet L (group_cfg cfg)"

definition group_add where
  "group_add keyA keyB childKeyA childKeyB = add group_layout keyA (keyB, childKeyA, childKeyB)"

definition group_inBulkSetAck where
  "group_inBulkSetAck L cfg = inBulkSetAck L (group_cfg cfg)"

definition group_ack_add where
  "group_ack_add keyA keyB childKeyA childKeyB = ack_add group_layout keyA (keyB, childKeyA, childKeyB)"

definition group_kt_add where
  "group_kt_add sum128 keyA keyB childKeyA childKeyB = kt_add group_layout sum128 keyA (keyB, childKeyA, childKeyB)"

definition group_kt_mayHave where
  "group_kt_mayHave sum128 keyA keyB childKeyA childKeyB = kt_mayHave group_layout sum128 keyA (keyB, childKeyA, childKeyB)"

definition group_pushReplicationPass where
  "group_pushReplicationPass L rd cfg = pushReplicationPass L rd (group_cfg cfg)"

definition group_pushReplicationLauncher where
  "group_pushReplicationLauncher L rd cfg age st mr sched took elapsed =
     launcher_turn (group_pushReplicationPass L rd cfg age st mr sched took elapsed)"

definition group_inPullReplication where
  "group_inPullReplication L rd sum128 dims cfg = inPullReplication L rd sum128 dims (group_cfg cfg)"

definition group_outPullReplicationPass where
  "group_outPullReplicationPass L sum128 dims cfg = outPullReplicationPass L sum128 dims (group_cfg cfg)"

definition group_outPullReplicationLauncher where
  "group_outPullReplicationLauncher L sum128 dims cfg mr sched took elapsed =
     launcher_turn (group_outPullReplicationPass L sum128 dims cfg mr sched took elapsed)"

definition group_OutPullReplicationPass where
  "group_OutPullReplicationPass L sum128 dims cfg = OutPullReplicationPass L sum128 dims (group_cfg cfg)"

section \<open>The other jobs\<close>

definition group_tombstoneDiscardPassLocalRemovals where
  "group_tombstoneDiscardPassLocalRemovals (L :: ('m, group_rest) locmap_ops) = tombstoneDiscardPassLocalRemovals L"

definition group_tombstoneDiscardPassExpiredDeletions where
  "group_tombstoneDiscardPassExpiredDeletions fuel L cfg = tombstoneDiscardPassExpiredDeletions fuel L (group_cfg cfg)"

definition group_tombstoneDiscardPass where
  "group_tombstoneDiscardPass fuel L cfg = tombstoneDiscardPass fuel L (group_cfg cfg)"

definition group_tombstoneDiscardLauncher where
  "group_tombstoneDiscardLauncher fuel L cfg mr st now one two elapsed =
     launcher_turn (group_tombstoneDiscardPass fuel L cfg mr st now one two elapsed)"

definition group_compactionCandidate where
  "group_compactionCandidate = compactionCandidate GroupStore"

definition group_needsCompaction where
  "group_needsCompaction L sum32 cfg = needsCompaction L sum32 (group_cfg cfg)"

definition group_compactFile where
  "group_compactFile L rd sum32 cfg = compactFile L rd sum32 (group_cfg cfg)"

definition group_compactionWorker where
  "group_compactionWorker L rd sum32 cfg = compactionWorker L rd sum32 (group_cfg cfg)"

definition group_compactionPass where
  "group_compactionPass L rd sum32 cfg = compactionPass L rd sum32 (group_cfg cfg)"

definition group_compactionLauncher where
  "group_compactionLauncher L rd sum32 cfg env ces now early took elapsed =
     launcher_turn (group_compactionPass L rd sum32 cfg env ces now early took elapsed)"

definition group_audit_check where
  "group_audit_check sum32 cfg = audit_check sum32 (group_cfg cfg)"

definition group_auditPass where
  "group_auditPass L rd sum32 cfg = auditPass L rd sum32 (group_cfg cfg)"

definition group_auditLauncher where
  "group_auditLauncher L rd sum32 cfg env aes ageThreshold own perm elapsed =
     launcher_turn (group_auditPass L rd sum32 cfg env aes ageThreshold own perm elapsed)"

definition group_AuditPass where
  "group_AuditPass L rd sum32 cfg = AuditPass L rd sum32 (group_cfg cfg)"

definition group_watcherLauncher where
  "group_watcherLauncher L cfg = watcherLauncher L (group_cfg cfg)"

definition group_flusherLauncher where
  "group_flusherLauncher L cfg = flusherLauncher L (group_cfg cfg)"

section \<open>The life of a node\<close>

definition group_node :: "('m, group_rest) node \<Rightarrow> ('m, group_rest) node" where
  "group_node nd = nd\<lparr>nd_cfg := group_cfg (nd_cfg nd)\<rparr>"

definition group_recovery where
  "group_recovery L rd sum32 cfg = recovery L rd sum32 (group_cfg cfg)"

definition group_Startup where
  "group_Startup L rd sum32 dims env renv nd = Startup L rd sum32 dims env renv (group_node nd)"

definition group_Shutdown_send where
  "group_Shutdown_send L nd = Shutdown_send L (group_node nd)"

definition group_Shutdown_finish where
  "group_Shutdown_finish L nd = Shutdown_finish L (group_node nd)"

lemma group_cfg_layout [simp]: "c_layout (group_cfg cfg) = group_layout"
  by (simp add: group_cfg_def)

lemma group_cfg_same [simp]: "c_layout cfg = group_layout \<Longrightarrow> group_cfg cfg = cfg"
  by (simp add: group_cfg_def)

lemma NewGroupStore_node [simp]: "group_node (NewGroupStore h hv lm given) = NewGroupStore h hv lm given"
  by (simp add: group_node_def NewGroupStore_def NewStore_def store_cfg_of_def Let_def)

lemma group_node_simps [simp]:
  "nd_cfg (group_node nd) = group_cfg (nd_cfg nd)" "idle L (group_node nd) \<longleftrightarrow> idle L nd"
  by (simp_all add: group_node_def idle_def)

section \<open>Groups after a restart\<close>

text \<open>Every key in the files has a newest entry: no two entries have its newest timestamp.\<close>

definition all_newest :: "'b layout \<Rightarrow> (string \<Rightarrow> 'b file_content) \<Rightarrow> string list \<Rightarrow> bool" where
  "all_newest Y files names \<longleftrightarrow> (\<forall>name a b t off len. stored Y files names name (a, b, t, off, len) \<longrightarrow>
     (\<exists>name' t' off' len'. newest_entry Y files names a b name' t' off' len'))"

lemma newest_entry_unique:
  "newest_entry Y files names a b name t off len \<Longrightarrow> newest_entry Y files names a b name' t' off' len' \<Longrightarrow>
   (name', t', off', len') = (name, t, off, len)"
  by (auto simp: newest_entry_def) (metis (no_types) less_asym)+

text \<open>A key that is in no file is not found.\<close>

lemma store_read_none: "lm_Get L (st_locmap s) a b = loc_none \<Longrightarrow> store_read L rd cfg a b buf s = Done (0, buf, Some ErrNotFound)"
  by (simp add: store_read_def)


text \<open>A file with two children of a group, of which one was deleted.\<close>

definition group_content :: "string \<Rightarrow> group_rest file_content" where
  "group_content name = (40, [4, 5, 6], [(1, (2, 3, 4), 0x400, 33, 2), (1, (2, 5, 6), 0x480, 32, 0)])"

definition group_dir :: dir_env where
  "group_dir = \<lparr>de_readdirnames = Inl [''5.grouptoc''],
     de_openTOC = (\<lambda>name. Inl (toc_file group_layout (\<lambda>_. 7) (group_content name))), de_open = (\<lambda>_. Inr ErrEOF),
     de_stat = (\<lambda>_. Inl 0), de_remove = (\<lambda>_. False), de_rename = (\<lambda>_. False)\<rparr>"

definition group_recovery_example :: "(group_rest alm, group_rest) recovery_env" where
  "group_recovery_example = \<lparr>re_values = (\<lambda>ts _. Inl (values_file group_layout (\<lambda>_. 7) (group_content ''5.grouptoc''))),
     re_rderr = (\<lambda>_ _. None), re_arrange = (\<lambda>bs. bs), re_call = (\<lambda>_. \<lparr>ce_stop = (\<lambda>_. False), ce_rderr = (\<lambda>_. None),
       ce_cancel = False, ce_arrange = (\<lambda>bs. bs), ce_ifc = (\<lambda>_ _ s. s), ce_reached = True\<rparr>)\<rparr>"

definition group_node_example :: "(group_rest alm, group_rest) node" where
  "group_node_example = NewGroupStore host_example \<lparr>hv_share = \<lambda>_ _. 0, hv_bits = \<lambda>_. 0, hv_random = 0\<rparr> [] None"

lemma group_node_example_cfg: "c_workers (nd_cfg group_node_example) = 4" "c_writePagesPerWorker (nd_cfg group_node_example) = 3"
proof -
  have "cf_Workers (resolveGroupStoreConfig host_example None) = 4"
    "cf_WritePagesPerWorker (resolveGroupStoreConfig host_example None) = 3" by code_simp+
  then show "c_workers (nd_cfg group_node_example) = 4" "c_writePagesPerWorker (nd_cfg group_node_example) = 3"
    by (simp_all add: group_node_example_def NewGroupStore_def NewStore_def resolveGroupStoreConfig_def store_cfg_of_def Let_def)
qed

lemma group_node_example_idle: "idle alm_ops group_node_example"
  unfolding group_node_example_def NewGroupStore_def by (rule NewStore_idle) (simp add: alm_ops_def alm_Get_def)

lemma group_content_stored:
  "stored group_layout group_content [''5.grouptoc''] name (a, b, t, off, len) \<longleftrightarrow>
     name = ''5.grouptoc'' \<and> (a, b, t, off, len) \<in> {(1, (2, 3, 4), 0x400, 33, 2), (1, (2, 5, 6), 0x480, 32, 0)}"
proof -
  have "toc_name GroupStore ''5.grouptoc'' = Some 5" by code_simp
  then show ?thesis by (auto simp: stored_def group_content_def)
qed


end
